(* ===== verification/HTN_Prelude.thy ===== *)
theory HTN_Prelude
  imports Main "HOL-Library.Word"
begin

unbundle bit_operations_syntax

text \<open>
  The shared vocabulary of the development.

  \<^item> Go's bytes, byte slices and fixed-width integers;
  \<^item> procedures: Go methods that mutate a receiver, may return an error and may panic;
  \<^item> a graded contract calculus for procedures, stated as a locale over an invariant,
    a frame relation, a size and an abstraction function, so that a component proves
    its primitives once and every composite procedure follows from the rules;
  \<^item> list and word lemmas the components share.
\<close>

named_theorems proc_defs \<open>the primitives of the procedure language\<close>

section \<open>Bytes and integers\<close>

type_synonym byte = "8 word"
type_synonym bytes = "byte list"

text \<open>Conversion to Go's signed types keeps the low bits and reads them as two's complement.\<close>

definition int64 :: "int \<Rightarrow> int" where
  "int64 x = signed_take_bit 63 x"

definition int32 :: "int \<Rightarrow> int" where
  "int32 x = signed_take_bit 31 x"

definition maxInt32 :: int where
  "maxInt32 = 2 ^ 31 - 1"

definition minInt32 :: int where
  "minInt32 = - (2 ^ 31)"

lemma int64_id [simp]: "- (2 ^ 63) \<le> x \<Longrightarrow> x < 2 ^ 63 \<Longrightarrow> int64 x = x"
  unfolding int64_def by (rule signed_take_bit_int_eq_self) simp_all

lemma int32_id [simp]: "- (2 ^ 31) \<le> x \<Longrightarrow> x < 2 ^ 31 \<Longrightarrow> int32 x = x"
  unfolding int32_def by (rule signed_take_bit_int_eq_self) simp_all

lemma int64_range: "- (2 ^ 63) \<le> int64 x \<and> int64 x < 2 ^ 63"
  unfolding int64_def
  using signed_take_bit_int_greater_eq_minus_exp [of 63 x] signed_take_bit_int_less_exp [of 63 x]
  by simp

text \<open>Go's integer division and remainder truncate towards zero.\<close>

definition quot :: "int \<Rightarrow> int \<Rightarrow> int" where
  "quot a b = sgn a * sgn b * (\<bar>a\<bar> div \<bar>b\<bar>)"

definition rem :: "int \<Rightarrow> int \<Rightarrow> int" where
  "rem a b = a - b * quot a b"

section \<open>Procedures\<close>

text \<open>
  A Go method that mutates its receiver and returns \<open>(value, error)\<close> is a function from the
  receiver's state to a result and the state it leaves behind. The state is returned
  with an error too, since Go keeps the mutations made before an error return.
  A run-time panic (an index out of range, a nil dereference, an explicit \<open>panic\<close>) is a
  failure of its own, distinct from every error value.
\<close>

datatype 'e fail = Error 'e | GoPanic

type_synonym ('e, 'a) result = "'e fail + 'a"
type_synonym ('s, 'e, 'a) proc = "'s \<Rightarrow> ('e, 'a) result \<times> 's"

definition ret :: "'a \<Rightarrow> ('s, 'e, 'a) proc" where
  "ret x s = (Inr x, s)"

definition raise :: "'e \<Rightarrow> ('s, 'e, 'a) proc" where
  "raise e s = (Inl (Error e), s)"

definition panic :: "('s, 'e, 'a) proc" where
  "panic s = (Inl GoPanic, s)"

text \<open>\<open>bnd m f\<close>: run \<open>m\<close>, return early on a failure, otherwise go on with its value.\<close>

definition bnd :: "('s, 'e, 'a) proc \<Rightarrow> ('a \<Rightarrow> ('s, 'e, 'b) proc) \<Rightarrow> ('s, 'e, 'b) proc" where
  "bnd m f s = (case m s of (Inl e, s') \<Rightarrow> (Inl e, s') | (Inr x, s') \<Rightarrow> f x s')"

definition andThen :: "('s, 'e, 'a) proc \<Rightarrow> ('s, 'e, 'b) proc \<Rightarrow> ('s, 'e, 'b) proc" where
  "andThen m n = bnd m (\<lambda>_. n)"

definition gets :: "('s \<Rightarrow> 'a) \<Rightarrow> ('s, 'e, 'a) proc" where
  "gets f s = (Inr (f s), s)"

definition modify :: "('s \<Rightarrow> 's) \<Rightarrow> ('s, 'e, unit) proc" where
  "modify f s = (Inr (), f s)"

text \<open>A result already computed: \<open>x, err := f(...)\<close> followed by an early return on \<open>err\<close>.\<close>

definition liftR :: "('e, 'a) result \<Rightarrow> ('s, 'e, 'a) proc" where
  "liftR r s = (r, s)"

text \<open>A method of a field of the receiver, e.g. \<open>vm.dstack.PopInt()\<close>.\<close>

definition onField :: "('s \<Rightarrow> 't) \<Rightarrow> ('t \<Rightarrow> 's \<Rightarrow> 's) \<Rightarrow> ('t, 'e, 'a) proc \<Rightarrow> ('s, 'e, 'a) proc" where
  "onField get put m s = (case m (get s) of (r, t) \<Rightarrow> (r, put t s))"

text \<open>\<open>_ = m()\<close>: the error value is dropped, a panic is not.\<close>

definition ignoreErr :: "('s, 'e, 'a) proc \<Rightarrow> ('s, 'e, unit) proc" where
  "ignoreErr m s = (case m s of
      (Inl GoPanic, s') \<Rightarrow> (Inl GoPanic, s')
    | (_, s') \<Rightarrow> (Inr (), s'))"

text \<open>\<open>x, err := m()\<close> where the caller looks at \<open>err\<close> itself: \<open>None\<close> when it is not nil.\<close>

definition attempt :: "('s, 'e, 'a) proc \<Rightarrow> ('s, 'e, 'a option) proc" where
  "attempt m s = (case m s of
      (Inl GoPanic, s') \<Rightarrow> (Inl GoPanic, s')
    | (Inl (Error _), s') \<Rightarrow> (Inr None, s')
    | (Inr x, s') \<Rightarrow> (Inr (Some x), s'))"

text \<open>A loop that runs its body a known number of times.\<close>

primrec repeatM :: "nat \<Rightarrow> ('s, 'e, unit) proc \<Rightarrow> ('s, 'e, unit) proc" where
  "repeatM 0 m = ret ()"
| "repeatM (Suc n) m = andThen m (repeatM n m)"

text \<open>A loop that runs its body a known number of times and collects the values.\<close>

primrec collectM :: "nat \<Rightarrow> ('s, 'e, 'a) proc \<Rightarrow> ('s, 'e, 'a list) proc" where
  "collectM 0 m = ret []"
| "collectM (Suc n) m = bnd m (\<lambda>x. bnd (collectM n m) (\<lambda>xs. ret (x # xs)))"

lemmas [proc_defs] =
  ret_def raise_def panic_def bnd_def andThen_def gets_def modify_def liftR_def onField_def
  ignoreErr_def attempt_def

text \<open>Reading an element of a slice panics when the index is out of range.\<close>

definition index :: "'a list \<Rightarrow> int \<Rightarrow> ('e, 'a) result" where
  "index xs i = (if 0 \<le> i \<and> i < int (length xs) then Inr (xs ! nat i) else Inl GoPanic)"

lemma index_Inr [simp]: "0 \<le> i \<Longrightarrow> i < int (length xs) \<Longrightarrow> index xs i = Inr (xs ! nat i)"
  by (simp add: index_def)

text \<open>\<open>xs[a:b]\<close> for indices in range.\<close>

definition subslice :: "nat \<Rightarrow> nat \<Rightarrow> 'a list \<Rightarrow> 'a list" where
  "subslice a b xs = take (b - a) (drop a xs)"

lemma length_subslice: "length (subslice a b xs) = min (b - a) (length xs - a)"
  by (simp add: subslice_def)

lemma bnd_Inl [simp]: "m s = (Inl e, s') \<Longrightarrow> bnd m f s = (Inl e, s')"
  by (simp add: bnd_def)

lemma bnd_Inr [simp]: "m s = (Inr x, s') \<Longrightarrow> bnd m f s = f x s'"
  by (simp add: bnd_def)

lemma bnd_eq_Inr:
  "bnd m f s = (Inr y, t) \<longleftrightarrow> (\<exists>x s'. m s = (Inr x, s') \<and> f x s' = (Inr y, t))"
  by (auto simp: bnd_def split: prod.splits sum.splits)

lemma andThen_eq_Inr:
  "andThen m n s = (Inr y, t) \<longleftrightarrow> (\<exists>x s'. m s = (Inr x, s') \<and> n s' = (Inr y, t))"
  by (simp add: andThen_def bnd_eq_Inr)

lemma ret_eq [simp]: "ret x s = (r, t) \<longleftrightarrow> r = Inr x \<and> t = s"
  by (auto simp: ret_def)

lemma raise_eq [simp]: "raise e s = (r, t) \<longleftrightarrow> r = Inl (Error e) \<and> t = s"
  by (auto simp: raise_def)

lemma gets_eq [simp]: "gets f s = (r, t) \<longleftrightarrow> r = Inr (f s) \<and> t = s"
  by (auto simp: gets_def)

lemma modify_eq [simp]: "modify f s = (r, t) \<longleftrightarrow> r = Inr () \<and> t = f s"
  by (auto simp: modify_def)

lemma liftR_eq [simp]: "liftR x s = (r, t) \<longleftrightarrow> r = x \<and> t = s"
  by (auto simp: liftR_def)

lemma bnd_ret [simp]: "bnd (ret x) f = f x"
  by (simp add: bnd_def ret_def fun_eq_iff)

lemma bnd_liftR [simp]: "bnd (liftR (Inr x)) f = f x" "andThen (liftR (Inr x)) m = m" "andThen (ret x) m = m"
  by (simp_all add: bnd_def andThen_def liftR_def ret_def fun_eq_iff)

lemma bnd_raise [simp]: "bnd (raise e) f = raise e" "andThen (raise e) m = raise e"
  by (simp_all add: bnd_def andThen_def raise_def fun_eq_iff)

lemma bnd_assoc: "bnd (bnd m f) g = bnd m (\<lambda>x. bnd (f x) g)"
  by (simp add: bnd_def fun_eq_iff split: prod.split sum.split)

section \<open>Frames of procedures\<close>

text \<open>What a procedure leaves alone, whatever state it starts in and however it ends.\<close>

locale frame =
  fixes R :: "'s \<Rightarrow> 's \<Rightarrow> bool"
  assumes R_refl: "R s s"
    and R_trans: "R s t \<Longrightarrow> R t u \<Longrightarrow> R s u"
begin

definition keeps :: "('s, 'e, 'a) proc \<Rightarrow> bool" where
  "keeps m \<longleftrightarrow> (\<forall>s. R s (snd (m s)))"

lemma keepsI: "(\<And>s r s'. m s = (r, s') \<Longrightarrow> R s s') \<Longrightarrow> keeps m"
  unfolding keeps_def by (metis prod.collapse)

lemma keepsD: "keeps m \<Longrightarrow> m s = (r, s') \<Longrightarrow> R s s'"
  unfolding keeps_def by (drule spec [of _ s]) simp

lemma keeps_bnd:
  assumes "keeps m" and "\<And>x. keeps (f x)"
  shows "keeps (bnd m f)"
proof (rule keepsI)
  fix s r s' assume run: "bnd m f s = (r, s')"
  obtain q t where "m s = (q, t)" by (cases "m s")
  with run keepsD [OF assms(1) this] show "R s s'"
    by (cases q) (auto intro: R_trans keepsD [OF assms(2)])
qed

lemma keeps_andThen: "keeps m \<Longrightarrow> keeps n \<Longrightarrow> keeps (andThen m n)"
  unfolding andThen_def by (rule keeps_bnd)

lemma keeps_attempt: "keeps m \<Longrightarrow> keeps (attempt m)"
  by (rule keepsI) (auto simp: attempt_def split: prod.splits sum.splits fail.splits dest: keepsD)

lemma keeps_ignoreErr: "keeps m \<Longrightarrow> keeps (ignoreErr m)"
  by (rule keepsI) (auto simp: ignoreErr_def split: prod.splits sum.splits fail.splits dest: keepsD)

lemma keeps_basic: "keeps (ret x)" "keeps (raise e)" "keeps panic" "keeps (liftR r)" "keeps (gets g)"
  by (simp_all add: keeps_def proc_defs R_refl)

lemma keeps_modify: "(\<And>s. R s (f s)) \<Longrightarrow> keeps (modify f)"
  by (simp add: keeps_def modify_def)

lemma keeps_onField: "(\<And>t s. R s (put t s)) \<Longrightarrow> keeps (onField get put m)"
  by (simp add: keeps_def onField_def split: prod.split)

lemma keeps_if: "keeps m \<Longrightarrow> keeps n \<Longrightarrow> keeps (if b then m else n)"
  by simp

lemma keeps_option: "keeps m \<Longrightarrow> (\<And>x. keeps (f x)) \<Longrightarrow> keeps (case v of None \<Rightarrow> m | Some x \<Rightarrow> f x)"
  by (cases v) auto

lemma keeps_prod: "(\<And>a b. keeps (f a b)) \<Longrightarrow> keeps (case v of (a, b) \<Rightarrow> f a b)"
  by (cases v) auto

lemma keeps_collectM: "keeps m \<Longrightarrow> keeps (collectM n m)"
  by (induction n) (auto intro!: keeps_basic keeps_bnd)

lemmas keeps_intros =
  keeps_bnd keeps_andThen keeps_attempt keeps_ignoreErr keeps_basic keeps_if keeps_option keeps_prod keeps_collectM

end

section \<open>Contracts of procedures\<close>

text \<open>
  A component states, once, what each of its procedures keeps:
  \<^item> \<open>I\<close> holds between operations, \<open>J\<close> is the part of it that also survives a failure;
  \<^item> \<open>R\<close> relates the state before to the state after (the fields nothing writes);
  \<^item> \<open>sz\<close> counts what the state holds, a procedure of grade \<open>k\<close> adds at most \<open>k\<close>, and
    \<open>cap\<close> is the size up to which the procedures are used;
  \<^item> \<open>abs\<close> forgets the part of the state that must not influence the result.
  \<open>ok k V m\<close> says that \<open>m\<close> never panics, respects all of this, returns values
  that satisfy \<open>V\<close>, and does the same on the abstracted state.
\<close>

locale contract = frame R for R :: "'s \<Rightarrow> 's \<Rightarrow> bool" +
  fixes I :: "'s \<Rightarrow> bool"
    and J :: "'s \<Rightarrow> bool"
    and sz :: "'s \<Rightarrow> nat"
    and cap :: nat
    and abs :: "'s \<Rightarrow> 's"
  assumes I_J: "I s \<Longrightarrow> J s"
begin

definition okAt :: "nat \<Rightarrow> ('a \<Rightarrow> bool) \<Rightarrow> ('s, 'e, 'a) proc \<Rightarrow> 's \<Rightarrow> bool" where
  "okAt k V m s \<longleftrightarrow>
     (case m s of (r, s') \<Rightarrow>
        R s s' \<and> sz s' \<le> sz s + k \<and> m (abs s) = (r, abs s') \<and>
        (case r of Inl e \<Rightarrow> e \<noteq> GoPanic \<and> J s' | Inr x \<Rightarrow> I s' \<and> V x))"

definition ok :: "nat \<Rightarrow> ('a \<Rightarrow> bool) \<Rightarrow> ('s, 'e, 'a) proc \<Rightarrow> bool" where
  "ok k V m \<longleftrightarrow> (\<forall>s. I s \<longrightarrow> sz s + k \<le> cap \<longrightarrow> okAt k V m s)"

lemma okI: "(\<And>s. I s \<Longrightarrow> sz s + k \<le> cap \<Longrightarrow> okAt k V m s) \<Longrightarrow> ok k V m"
  by (simp add: ok_def)

lemma okD: "ok k V m \<Longrightarrow> I s \<Longrightarrow> sz s + k \<le> cap \<Longrightarrow> okAt k V m s"
  by (simp add: ok_def)

lemma ok_mono:
  assumes "ok k V m" and "k \<le> k'" and "\<And>x. V x \<Longrightarrow> W x"
  shows "ok k' W m"
proof (rule okI)
  fix s assume "I s" and "sz s + k' \<le> cap"
  with assms(1,2) have "okAt k V m s" by (auto intro: okD)
  with assms(2,3) show "okAt k' W m s"
    by (auto simp: okAt_def split: prod.splits sum.splits)
qed

lemma ok_ret: "V x \<Longrightarrow> ok k V (ret x)"
  by (auto simp: ok_def okAt_def ret_def R_refl)

lemma ok_raise: "ok k V (raise e)"
  by (auto simp: ok_def okAt_def raise_def R_refl I_J)

lemma ok_liftR:
  assumes "\<And>e. r = Inl e \<Longrightarrow> e \<noteq> GoPanic" and "\<And>x. r = Inr x \<Longrightarrow> V x"
  shows "ok k V (liftR r)"
  using assms by (auto simp: ok_def okAt_def liftR_def R_refl I_J split: sum.split)

lemma ok_gets:
  assumes "\<And>s. I s \<Longrightarrow> V (f s)" and "\<And>s. f (abs s) = f s"
  shows "ok k V (gets f)"
  using assms by (auto simp: ok_def okAt_def gets_def R_refl)

lemma ok_bnd:
  assumes m: "ok k1 V m" and f: "\<And>x. V x \<Longrightarrow> ok k2 W (f x)" and k: "k1 + k2 \<le> k"
  shows "ok k W (bnd m f)"
proof (rule okI)
  fix s assume s: "I s" and cap: "sz s + k \<le> cap"
  obtain r t where ms: "m s = (r, t)" by (cases "m s")
  from okD [OF m s] cap k have mk: "okAt k1 V m s" by simp
  show "okAt k W (bnd m f) s"
  proof (cases r)
    case (Inl e)
    with ms mk k show ?thesis by (simp add: okAt_def bnd_def)
  next
    case (Inr x)
    with ms mk have t: "I t" "V x" "sz t \<le> sz s + k1" "R s t" "m (abs s) = (Inr x, abs t)"
      by (auto simp: okAt_def)
    with cap k have "okAt k2 W (f x) t" by (intro okD [OF f]) auto
    with ms Inr t k show ?thesis
      by (auto simp: okAt_def bnd_def split: prod.splits sum.splits intro: R_trans)
  qed
qed

lemma ok_andThen:
  assumes "ok k1 V m" and "ok k2 W n" and "k1 + k2 \<le> k"
  shows "ok k W (andThen m n)"
  unfolding andThen_def using assms by (rule ok_bnd)

lemma ok_if: "(b \<Longrightarrow> ok k V m) \<Longrightarrow> (\<not> b \<Longrightarrow> ok k V n) \<Longrightarrow> ok k V (if b then m else n)"
  by simp

lemma ok_case_option:
  "(x = None \<Longrightarrow> ok k V m) \<Longrightarrow> (\<And>y. x = Some y \<Longrightarrow> ok k V (f y)) \<Longrightarrow>
   ok k V (case x of None \<Rightarrow> m | Some y \<Rightarrow> f y)"
  by (cases x) auto

lemma ok_repeatM:
  assumes "ok k V m"
  shows "n * k \<le> k' \<Longrightarrow> ok k' (\<lambda>_. True) (repeatM n m)"
proof (induction n arbitrary: k')
  case 0
  then show ?case by (simp add: ok_ret)
next
  case (Suc n)
  have "ok (n * k) (\<lambda>_. True) (repeatM n m)" by (rule Suc.IH) simp
  with assms Suc.prems show ?case
    by (auto intro: ok_andThen)
qed

lemma ok_collectM:
  assumes "ok 0 V m"
  shows "ok k (\<lambda>xs. length xs = n \<and> (\<forall>x \<in> set xs. V x)) (collectM n m)"
proof (induction n arbitrary: k)
  case 0
  then show ?case by (simp add: ok_ret)
next
  case (Suc n)
  show ?case unfolding collectM.simps
    by (rule ok_bnd [OF assms], rule ok_bnd [OF Suc [of 0]], rule ok_ret [of _ _ 0]) auto
qed

lemma ok_ignoreErr:
  assumes m: "ok k V m" and err: "\<And>s e t. I s \<Longrightarrow> sz s + k \<le> cap \<Longrightarrow> m s = (Inl e, t) \<Longrightarrow> I t"
  shows "ok k (\<lambda>_. True) (ignoreErr m)"
proof (rule okI)
  fix s assume s: "I s" "sz s + k \<le> cap"
  from okD [OF m s] err [OF s] show "okAt k (\<lambda>_. True) (ignoreErr m) s"
    by (auto simp: okAt_def ignoreErr_def split: prod.splits sum.splits fail.splits)
qed

lemma ok_attempt:
  assumes m: "ok k V m" and err: "\<And>s e t. I s \<Longrightarrow> sz s + k \<le> cap \<Longrightarrow> m s = (Inl e, t) \<Longrightarrow> I t"
  shows "ok k (\<lambda>v. case v of None \<Rightarrow> True | Some x \<Rightarrow> V x) (attempt m)"
proof (rule okI)
  fix s assume s: "I s" "sz s + k \<le> cap"
  from okD [OF m s] err [OF s]
  show "okAt k (\<lambda>v. case v of None \<Rightarrow> True | Some x \<Rightarrow> V x) (attempt m) s"
    by (auto simp: okAt_def attempt_def split: prod.splits sum.splits fail.splits)
qed

text \<open>The common case: a step that does not add anything, then the rest.\<close>

lemma ok_bnd0: "ok 0 V m \<Longrightarrow> (\<And>x. V x \<Longrightarrow> ok k W (f x)) \<Longrightarrow> ok k W (bnd m f)"
  by (rule ok_bnd [where ?k1.0 = 0 and ?k2.0 = k and V = V]) auto

lemma ok_andThen0: "ok 0 V m \<Longrightarrow> ok k W n \<Longrightarrow> ok k W (andThen m n)"
  by (rule ok_andThen [where ?k1.0 = 0 and ?k2.0 = k and V = V]) auto

lemma ok_under: "(\<And>s. I s \<Longrightarrow> ok k V m) \<Longrightarrow> ok k V m"
  by (auto simp: ok_def)

end

text \<open>A field of a state that has a contract of its own: a procedure on the field keeps the contract
  of the whole.\<close>

locale field_contract =
  contract R I J sz cap abs + field: contract R' I' J' sz' cap' abs'
  for R :: "'s \<Rightarrow> 's \<Rightarrow> bool" and I J sz cap abs
    and R' :: "'t \<Rightarrow> 't \<Rightarrow> bool" and I' J' sz' cap' abs' +
  fixes get :: "'s \<Rightarrow> 't" and put :: "'t \<Rightarrow> 's \<Rightarrow> 's"
  assumes field_I: "I s \<Longrightarrow> I' (get s)"
    and put_I: "I s \<Longrightarrow> I' t \<Longrightarrow> I (put t s)"
    and put_J: "I s \<Longrightarrow> J' t \<Longrightarrow> J (put t s)"
    and put_R: "R s (put t s)"
    and put_sz: "sz (put t s) + sz' (get s) = sz s + sz' t"
    and get_sz: "sz' (get s) \<le> sz s"
    and cap_le: "cap \<le> cap'"
    and get_abs: "get (abs s) = abs' (get s)"
    and put_abs: "put (abs' t) (abs s) = abs (put t s)"
begin

lemma ok_onField:
  assumes m: "field.ok k V m"
  shows "ok k V (onField get put m)"
proof (rule okI)
  fix s assume s: "I s" and cap: "sz s + k \<le> cap"
  obtain r t where ms: "m (get s) = (r, t)" by (cases "m (get s)")
  have "sz' (get s) + k \<le> cap'" using get_sz [of s] cap cap_le by simp
  with field.okD [OF m field_I [OF s]] ms
  have t: "sz' t \<le> sz' (get s) + k" "m (abs' (get s)) = (r, abs' t)"
      "case r of Inl e \<Rightarrow> e \<noteq> GoPanic \<and> J' t | Inr x \<Rightarrow> I' t \<and> V x"
    by (auto simp: field.okAt_def)
  then show "okAt k V (onField get put m) s"
    using s ms put_R [of s t] put_sz [of t s]
    by (auto simp: okAt_def onField_def get_abs put_abs put_I put_J split: sum.splits)
qed

end

end
