(* ===== verification/Go_Sha256.thy ===== *)
theory Go_Sha256
  imports HTN_Prelude
begin

unbundle bit_operations_syntax

text \<open>
  The standard library's \<^verbatim>\<open>crypto/sha256\<close> (FIPS 180-4), which \<open>OP_SHA256\<close>, the ECDSA and ML-DSA-44
  signature hashes and the ML-DSA-44 cache keys use: \<open>Sum256\<close> on 32-bit words. Theory
  \<open>Sha256_Digest\<close> evaluates it on a published test vector.
\<close>

definition sha256_K :: "32 word list" where
  "sha256_K =
    [1116352408, 1899447441, 3049323471, 3921009573, 961987163, 1508970993, 2453635748,
     2870763221, 3624381080, 310598401, 607225278, 1426881987, 1925078388, 2162078206,
     2614888103, 3248222580, 3835390401, 4022224774, 264347078, 604807628, 770255983,
     1249150122, 1555081692, 1996064986, 2554220882, 2821834349, 2952996808, 3210313671,
     3336571891, 3584528711, 113926993, 338241895, 666307205, 773529912, 1294757372,
     1396182291, 1695183700, 1986661051, 2177026350, 2456956037, 2730485921, 2820302411,
     3259730800, 3345764771, 3516065817, 3600352804, 4094571909, 275423344, 430227734,
     506948616, 659060556, 883997877, 958139571, 1322822218, 1537002063, 1747873779,
     1955562222, 2024104815, 2227730452, 2361852424, 2428436474, 2756734187, 3204031479,
     3329325298]"

definition sha256_init :: "32 word list" where
  "sha256_init =
    [1779033703, 3144134277, 1013904242, 2773480762, 1359893119, 2600822924, 528734635,
     1541459225]"

definition rotr32 :: "nat \<Rightarrow> 32 word \<Rightarrow> 32 word" where
  "rotr32 n x = drop_bit n x OR push_bit (32 - n) x"

text \<open>A big-endian word of four bytes, and back.\<close>

fun beWords :: "bytes \<Rightarrow> 32 word list" where
  "beWords (a # b # c # d # rest) =
     (push_bit 24 (ucast a) OR push_bit 16 (ucast b) OR push_bit 8 (ucast c) OR ucast d) # beWords rest"
| "beWords _ = []"

definition beBytes32 :: "32 word \<Rightarrow> bytes" where
  "beBytes32 w = [ucast (drop_bit 24 w), ucast (drop_bit 16 w), ucast (drop_bit 8 w), ucast w]"

definition beBytes64 :: "64 word \<Rightarrow> bytes" where
  "beBytes64 w = map (\<lambda>i. ucast (drop_bit (8 * i) w)) [7, 6, 5, 4, 3, 2, 1, 0]"

definition sha256_pad :: "bytes \<Rightarrow> bytes" where
  "sha256_pad m =
     m @ [0x80] @ replicate ((119 - length m mod 64) mod 64) 0 @ beBytes64 (word_of_nat (8 * length m))"

text \<open>The message schedule, built from the last sixteen words, newest first.\<close>

definition sha256_next :: "32 word list \<Rightarrow> 32 word" where
  "sha256_next ws =
     (let w15 = ws ! 14; w2 = ws ! 1;
          s0 = rotr32 7 w15 XOR rotr32 18 w15 XOR drop_bit 3 w15;
          s1 = rotr32 17 w2 XOR rotr32 19 w2 XOR drop_bit 10 w2
      in ws ! 15 + s0 + ws ! 6 + s1)"

primrec sha256_extend :: "nat \<Rightarrow> 32 word list \<Rightarrow> 32 word list" where
  "sha256_extend 0 ws = ws"
| "sha256_extend (Suc n) ws = sha256_extend n (sha256_next ws # ws)"

definition sha256_schedule :: "32 word list \<Rightarrow> 32 word list" where
  "sha256_schedule block = rev (sha256_extend 48 (rev block))"

type_synonym sha256_state =
  "32 word \<times> 32 word \<times> 32 word \<times> 32 word \<times> 32 word \<times> 32 word \<times> 32 word \<times> 32 word"

fun sha256_round :: "32 word \<times> 32 word \<Rightarrow> sha256_state \<Rightarrow> sha256_state" where
  "sha256_round (k, w) (a, b, c, d, e, f, g, h) =
     (let s1 = rotr32 6 e XOR rotr32 11 e XOR rotr32 25 e;
          ch = (e AND f) XOR (NOT e AND g);
          t1 = h + s1 + ch + k + w;
          s0 = rotr32 2 a XOR rotr32 13 a XOR rotr32 22 a;
          maj = (a AND b) XOR (a AND c) XOR (b AND c)
      in (t1 + s0 + maj, a, b, c, d + t1, e, f, g))"

definition sha256_block :: "32 word list \<Rightarrow> 32 word list \<Rightarrow> 32 word list" where
  "sha256_block block hs =
     (case fold sha256_round (zip sha256_K (sha256_schedule block))
             (hs ! 0, hs ! 1, hs ! 2, hs ! 3, hs ! 4, hs ! 5, hs ! 6, hs ! 7) of
        (a, b, c, d, e, f, g, h) \<Rightarrow> map2 (+) hs [a, b, c, d, e, f, g, h])"

function sha256_blocks :: "32 word list \<Rightarrow> 32 word list \<Rightarrow> 32 word list" where
  "sha256_blocks ws hs =
     (if ws = [] then hs else sha256_blocks (drop 16 ws) (sha256_block (take 16 ws) hs))"
  by pat_completeness auto
termination
  by (relation "measure (\<lambda>(ws, _). length ws)") auto

declare sha256_blocks.simps [simp del]

definition sha256_Sum256 :: "bytes \<Rightarrow> bytes" where
  "sha256_Sum256 m = concat (map beBytes32 (sha256_blocks (beWords (sha256_pad m)) sha256_init))"

section \<open>The digest's length\<close>

lemma length_sha256_block: "length hs = 8 \<Longrightarrow> length (sha256_block block hs) = 8"
  by (simp add: sha256_block_def split: prod.split)

lemma length_sha256_blocks: "length hs = 8 \<Longrightarrow> length (sha256_blocks ws hs) = 8"
proof (induction ws hs rule: sha256_blocks.induct)
  case (1 ws hs)
  then show ?case
    by (simp add: sha256_blocks.simps [of ws hs] length_sha256_block)
qed

lemma length_concat_const: "(\<And>x. length (f x) = n) \<Longrightarrow> length (concat (map f xs)) = n * length xs"
  by (induction xs) simp_all

lemma length_sha256 [simp]: "length (sha256_Sum256 m) = 32"
  unfolding sha256_Sum256_def
  by (subst length_concat_const [where n = 4])
    (simp_all add: beBytes32_def length_sha256_blocks sha256_init_def)

end
