(* ===== verification/Sha256_Digest.thy ===== *)
theory Sha256_Digest
  imports Go_Sha256
begin

text \<open>The model of SHA-256 evaluated inside the logic on the empty message, whose digest is
  published.\<close>

lemma sha256_empty:
  "sha256_Sum256 [] =
    [227, 176, 196, 66, 152, 252, 28, 20, 154, 251, 244, 200, 153, 111, 185, 36, 39, 174,
     65, 228, 100, 155, 147, 76, 164, 149, 153, 27, 120, 82, 184, 85]"
  by code_simp

end
