(* ===== verification/Script_Num.thy ===== *)
theory Script_Num
  imports HTN_Prelude
begin

unbundle bit_operations_syntax

text \<open>
  Script numbers: \<^verbatim>\<open>src/domain/consensus/utils/txscript/scriptnum.go\<close>, with the error
  codes of \<^verbatim>\<open>error.go\<close>. Numbers live on the stacks as little-endian sign-magnitude byte
  strings; \<open>scriptNum_Bytes\<close> and \<open>makeScriptNum\<close> convert between the two. The main
  results are the two round trips (a number survives encoding and decoding, and an accepted
  encoding is the only one of its number) and the bounds of both directions.
\<close>

section \<open>Error codes\<close>

datatype ErrorCode =
    ErrInternal | ErrInvalidFlags | ErrInvalidIndex | ErrUnsupportedScriptVersion
  | ErrUnsupportedAddress | ErrNotMultisigScript | ErrTooManyRequiredSigs | ErrEarlyReturn
  | ErrEmptyStack | ErrEvalFalse | ErrScriptUnfinished | ErrInvalidProgramCounter
  | ErrScriptTooBig | ErrElementTooBig | ErrTooManyOperations | ErrStackOverflow
  | ErrInvalidPubKeyCount | ErrInvalidSignatureCount | ErrNumberTooBig | ErrVerify
  | ErrEqualVerify | ErrNumEqualVerify | ErrCheckSigVerify | ErrCheckMultiSigVerify
  | ErrDisabledOpcode | ErrReservedOpcode | ErrMalformedPush | ErrInvalidStackOperation
  | ErrUnbalancedConditional | ErrMinimalData | ErrInvalidSigHashType | ErrSigLength
  | ErrSigHighS | ErrNotPushOnly | ErrPubKeyFormat | ErrCleanStack | ErrNullFail
  | ErrNegativeLockTime | ErrUnsatisfiedLockTime | ErrMinimalIf

text \<open>The error values of the script packages: an \<open>Error\<close> built by \<open>scriptError\<close>, whose
  description is dropped, or the plain error the signature hashing returns.\<close>

datatype goError = scriptError ErrorCode | sigHashTypeError

section \<open>The conversions\<close>

definition defaultScriptNumLen :: nat where
  "defaultScriptNumLen = 4"

definition checkMinimalDataEncoding :: "bytes \<Rightarrow> (goError, unit) result" where
  "checkMinimalDataEncoding v =
     (if length v = 0 then Inr ()
      else if v ! (length v - 1) AND 0x7f = 0
      then if length v = 1 \<or> v ! (length v - 2) AND 0x80 = 0
           then Inl (Error (scriptError ErrMinimalData))
           else Inr ()
      else Inr ())"

text \<open>The loop \<open>for n > 0 { result = append(result, byte(n&0xff)); n >>= 8 }\<close>.\<close>

function encodeLE :: "int \<Rightarrow> bytes \<Rightarrow> bytes" where
  "encodeLE n result =
     (if n > 0 then encodeLE (drop_bit 8 n) (result @ [word_of_int (n AND 0xff)]) else result)"
  by pat_completeness auto
termination
  by (relation "measure (\<lambda>(n, _). nat n)") (auto simp: drop_bit_eq_div)

declare encodeLE.simps [simp del]

text \<open>
  \<open>scriptNum.Bytes\<close>. Negating the least \<open>int64\<close> wraps around to itself, the loop then
  appends nothing, and \<open>result[len(result)-1]\<close> indexes an empty slice.
\<close>

definition scriptNum_Bytes :: "int \<Rightarrow> (goError, bytes) result" where
  "scriptNum_Bytes n =
     (if n = 0 then Inr []
      else
        let isNegative = n < 0;
            m = (if isNegative then int64 (- n) else n);
            result = encodeLE m []
        in if result = [] then Inl GoPanic
           else if result ! (length result - 1) AND 0x80 \<noteq> 0
           then Inr (result @ [if isNegative then 0x80 else 0x00])
           else if isNegative
           then Inr (result[length result - 1 := result ! (length result - 1) OR 0x80])
           else Inr result)"

definition scriptNum_Int32 :: "int \<Rightarrow> int" where
  "scriptNum_Int32 n =
     (if n > maxInt32 then maxInt32
      else if n < minInt32 then minInt32
      else if n \<ge> 0 then int32 (take_bit 32 n)
      else int32 (- int32 (take_bit 32 (- n))))"

text \<open>The loop \<open>for i, val := range v { result |= int64(val) << (i * 8) }\<close>.\<close>

fun decodeLE :: "bytes \<Rightarrow> nat \<Rightarrow> 64 word \<Rightarrow> 64 word" where
  "decodeLE [] i result = result"
| "decodeLE (val # vs) i result = decodeLE vs (Suc i) (result OR push_bit (i * 8) (ucast val))"

definition makeScriptNum :: "bytes \<Rightarrow> nat \<Rightarrow> (goError, int) result" where
  "makeScriptNum v scriptNumLen =
     (if length v > scriptNumLen then Inl (Error (scriptError ErrNumberTooBig))
      else if length v > 8 then Inl (Error (scriptError ErrNumberTooBig))
      else case checkMinimalDataEncoding v of
             Inl e \<Rightarrow> Inl e
           | Inr _ \<Rightarrow>
               if length v = 0 then Inr 0
               else
                 let result = decodeLE v 0 0
                 in if v ! (length v - 1) AND 0x80 \<noteq> 0
                    then Inr (sint (- (result AND NOT (push_bit (8 * (length v - 1)) 0x80))))
                    else Inr (sint result))"

section \<open>The number a byte string denotes\<close>

primrec leNat :: "bytes \<Rightarrow> nat" where
  "leNat [] = 0"
| "leNat (b # bs) = unat b + 256 * leNat bs"

lemma unat_byte_less [simp]: "unat (b :: byte) < 256"
  using unsigned_less [of b, where ?'a = nat] by simp

lemma leNat_append: "leNat (xs @ ys) = leNat xs + 256 ^ length xs * leNat ys"
  by (induction xs) (simp_all add: algebra_simps)

lemma leNat_less: "leNat xs < 256 ^ length xs"
proof (induction xs)
  case (Cons b bs)
  then have "256 * leNat bs + 256 \<le> 256 * 256 ^ length bs" by simp
  moreover have "unat b < 256" by simp
  ultimately have "unat b + 256 * leNat bs < 256 * 256 ^ length bs" by linarith
  then show ?case by simp
qed simp

lemma ucast_or_push:
  "(ucast (b :: byte) :: 64 word) OR push_bit 8 (word_of_nat m) = word_of_nat (unat b + 256 * m)"
proof -
  have "(ucast b :: 64 word) AND push_bit 8 (word_of_nat m) = 0"
    by (rule bit_eqI) (auto simp: bit_simps dest: bit_imp_le_length)
  then have "(ucast b :: 64 word) OR push_bit 8 (word_of_nat m) = ucast b + push_bit 8 (word_of_nat m)"
    by (simp add: disjunctive_add_eq_or)
  also have "\<dots> = word_of_nat (unat b) + 256 * word_of_nat m"
    by (simp add: push_bit_eq_mult)
  finally show ?thesis by simp
qed

lemma decodeLE_or: "decodeLE vs i acc = acc OR push_bit (8 * i) (word_of_nat (leNat vs))"
proof (induction vs arbitrary: i acc)
  case (Cons b vs)
  have "push_bit (8 * Suc i) (word_of_nat (leNat vs) :: 64 word)
      = push_bit (8 * i) (push_bit 8 (word_of_nat (leNat vs)))"
    by (simp add: add.commute)
  then have "decodeLE (b # vs) i acc
      = acc OR push_bit (8 * i) ((ucast b :: 64 word) OR push_bit 8 (word_of_nat (leNat vs)))"
    by (simp add: Cons.IH or.assoc mult.commute push_bit_or)
  then show ?case by (simp only: ucast_or_push leNat.simps)
qed simp

lemma decodeLE_value: "decodeLE vs 0 0 = word_of_nat (leNat vs)"
  by (simp add: decodeLE_or)

section \<open>Base-256 digits\<close>

fun leBytes :: "nat \<Rightarrow> bytes" where
  "leBytes n = (if n = 0 then [] else word_of_nat (n mod 256) # leBytes (n div 256))"

declare leBytes.simps [simp del]

lemma leBytes_0 [simp]: "leBytes 0 = []"
  by (simp add: leBytes.simps)

lemma leBytes_pos: "0 < n \<Longrightarrow> leBytes n = word_of_nat (n mod 256) # leBytes (n div 256)"
  by (simp add: leBytes.simps [of n])

lemma low_byte: "0 \<le> n \<Longrightarrow> (word_of_int (n AND 0xff) :: byte) = word_of_nat (nat n mod 256)"
proof -
  assume "0 \<le> n"
  have "n AND 0xff = n mod 256"
    using take_bit_eq_mask [of 8 n] by (simp add: take_bit_eq_mod mask_eq_exp_minus_1)
  also have "\<dots> = int (nat n mod 256)"
    using \<open>0 \<le> n\<close> by (simp add: zmod_int)
  finally show ?thesis by (simp only: of_int_of_nat_eq)
qed

lemma encodeLE_leBytes: "encodeLE n acc = acc @ leBytes (nat n)"
proof (induction n acc rule: encodeLE.induct)
  case (1 n acc)
  show ?case
  proof (cases "n > 0")
    case True
    have "nat (drop_bit 8 n) = nat n div 256"
      by (simp add: drop_bit_eq_div nat_div_distrib)
    with True "1.IH" show ?thesis
      by (simp add: encodeLE.simps [of n acc] low_byte leBytes_pos)
  qed (simp add: encodeLE.simps)
qed

lemma leNat_leBytes [simp]: "leNat (leBytes n) = n"
proof (induction n rule: leBytes.induct)
  case (1 n)
  then show ?case
    by (cases "n = 0") (simp_all add: leBytes_pos unat_of_nat)
qed

lemma leBytes_Nil [simp]: "leBytes n = [] \<longleftrightarrow> n = 0"
  by (simp add: leBytes.simps)

lemma last_leBytes: "0 < n \<Longrightarrow> last (leBytes n) \<noteq> 0"
proof (induction n rule: leBytes.induct)
  case (1 n)
  show ?case
  proof (cases "n div 256 = 0")
    case True
    with 1(2) have "n < 256" by simp
    with 1(2) True show ?thesis
      by (auto simp: leBytes_pos word_of_nat_eq_0_iff dest: dvd_imp_le)
  next
    case False
    with 1 show ?thesis by (simp add: leBytes_pos [of n])
  qed
qed

lemma leBytes_leNat: "xs = [] \<or> last xs \<noteq> 0 \<Longrightarrow> leBytes (leNat xs) = xs"
proof (induction xs)
  case (Cons b bs)
  then have IH: "leBytes (leNat bs) = bs" by (auto split: if_splits)
  have "0 < unat b + 256 * leNat bs"
  proof (cases bs)
    case Nil
    with Cons.prems show ?thesis by (simp add: unat_gt_0)
  next
    case (Cons c cs)
    with IH have "leNat bs \<noteq> 0" by (metis leBytes_0 list.distinct(1))
    then show ?thesis by simp
  qed
  with IH show ?case by (simp add: leBytes_pos)
qed simp

lemma length_leBytes: "n < 256 ^ k \<Longrightarrow> length (leBytes n) \<le> k"
proof (induction k arbitrary: n)
  case (Suc k)
  then show ?case
    by (cases "n = 0") (auto simp: leBytes_pos less_mult_imp_div_less mult.commute)
qed simp

lemma length_leBytes_ge: "0 < n \<Longrightarrow> 256 ^ (length (leBytes n) - 1) \<le> n"
proof (induction n rule: leBytes.induct)
  case (1 n)
  show ?case
  proof (cases "n div 256 = 0")
    case True
    with 1(2) show ?thesis by (simp add: leBytes_pos)
  next
    case False
    with 1 have "256 ^ (length (leBytes (n div 256)) - 1) \<le> n div 256" by simp
    with False have "256 * 256 ^ (length (leBytes (n div 256)) - 1) \<le> n" by simp
    moreover from False have "0 < length (leBytes (n div 256))" by simp
    ultimately show ?thesis using 1(2)
      by (simp add: leBytes_pos [of n] flip: power_Suc)
  qed
qed

lemma byte_eqI: "unat (a :: byte) = unat b \<Longrightarrow> a = b"
  by (simp only: word_unat_eq_iff)

text \<open>A fixed number of digits: \<open>binary.LittleEndian.PutUint16\<close>, \<open>PutUint32\<close>, \<open>PutUint64\<close>.\<close>

primrec putUintLE :: "nat \<Rightarrow> nat \<Rightarrow> bytes" where
  "putUintLE 0 n = []"
| "putUintLE (Suc k) n = word_of_nat n # putUintLE k (n div 256)"

lemma length_putUintLE [simp]: "length (putUintLE k n) = k"
  by (induction k arbitrary: n) simp_all

lemma leNat_putUintLE: "n < 256 ^ k \<Longrightarrow> leNat (putUintLE k n) = n"
proof (induction k arbitrary: n)
  case (Suc k)
  then have "n div 256 < 256 ^ k" by (simp add: less_mult_imp_div_less mult.commute)
  with Suc.IH show ?case by (simp add: unat_of_nat)
qed simp

lemma putUintLE_leNat: "length bs = k \<Longrightarrow> putUintLE k (leNat bs) = bs"
proof (induction bs arbitrary: k)
  case (Cons b bs)
  have "(word_of_nat (unat b + 256 * leNat bs) :: byte) = b"
    by (rule byte_eqI) (simp add: unat_of_nat del: of_nat_add of_nat_mult)
  moreover have "(unat b + 256 * leNat bs) div 256 = leNat bs" by simp
  ultimately show ?case using Cons by auto
qed simp

section \<open>The sign bit of a byte\<close>

lemma and7f_unat: "unat (t AND 0x7f :: byte) = unat t mod 128"
proof -
  have "t AND 0x7f = take_bit 7 t" by (simp add: take_bit_eq_mask mask_eq_exp_minus_1)
  then show ?thesis by (simp add: take_bit_eq_mod unat_mod)
qed

lemma and80_iff: "(t AND 0x80 :: byte) \<noteq> 0 \<longleftrightarrow> 128 \<le> unat t"
proof -
  have "(t AND 0x80) \<noteq> 0 \<longleftrightarrow> bit t 7"
    by (simp add: bit_iff_and_push_bit_not_eq_0)
  also have "\<dots> \<longleftrightarrow> bit (unat t) 7"
    by (simp add: bit_unsigned_iff)
  also have "\<dots> \<longleftrightarrow> odd (unat t div 128)"
    by (simp add: bit_iff_odd)
  also have "\<dots> \<longleftrightarrow> 128 \<le> unat t"
    using unat_byte_less [of t] by (cases "unat t < 128") (simp_all add: le_div_geq not_less less_diff_conv2 del: unat_byte_less)
  finally show ?thesis .
qed

lemma or80_unat: "unat t < 128 \<Longrightarrow> unat (t OR 0x80 :: byte) = unat t + 128"
proof -
  assume t: "unat t < 128"
  with and80_iff [of t] have "t AND 0x80 = 0" by auto
  then have "t OR 0x80 = t + 0x80" by (simp add: disjunctive_add_eq_or)
  with t show ?thesis by (simp add: unat_word_ariths)
qed

lemma decodeLE_append: "decodeLE (xs @ ys) i acc = decodeLE ys (i + length xs) (decodeLE xs i acc)"
  by (induction xs arbitrary: i acc) simp_all

lemma bit_leNat: "bit (leNat ws) n \<Longrightarrow> n < 8 * length ws"
proof -
  assume b: "bit (leNat ws) n"
  have "leNat ws < 2 ^ (8 * length ws)"
    using leNat_less [of ws] by (simp add: power_mult)
  then have "leNat ws = take_bit (8 * length ws) (leNat ws)"
    by (simp add: take_bit_nat_eq_self)
  with b have "bit (take_bit (8 * length ws) (leNat ws)) n" by simp
  then show ?thesis by (simp add: bit_take_bit_iff)
qed

lemma bit_128: "bit (128 :: nat) n \<longleftrightarrow> n = 7" "bit (128 :: int) n \<longleftrightarrow> n = 7"
proof -
  have "bit (push_bit 7 (1 :: nat)) n \<longleftrightarrow> n = 7" "bit (push_bit 7 (1 :: int)) n \<longleftrightarrow> n = 7"
    unfolding bit_push_bit_iff bit_1_iff by auto
  then show "bit (128 :: nat) n \<longleftrightarrow> n = 7" "bit (128 :: int) n \<longleftrightarrow> n = 7" by simp_all
qed

lemma bit_byte_less: "bit (t :: byte) n \<Longrightarrow> n < 8"
  using bit_imp_le_length [of t n] by simp

text \<open>Clearing the sign bit of the last byte.\<close>

lemma decodeLE_clear_sign:
  "decodeLE (ws @ [t]) 0 0 AND NOT (push_bit (8 * length ws) 0x80)
   = word_of_nat (leNat (ws @ [t AND 0x7f]))" (is "?l = ?r")
proof -
  have c: "(0x80 :: 64 word) = push_bit 7 1" "(0x7f :: byte) = mask 7"
    by (simp_all add: push_bit_eq_mult mask_eq_exp_minus_1)
  have dec: "decodeLE (ws @ [x]) 0 0 = word_of_nat (leNat ws) OR push_bit (8 * length ws) (ucast x)" for x
    by (simp only: decodeLE_append) (simp add: decodeLE_value mult.commute)
  have "?l = word_of_nat (leNat ws) OR push_bit (8 * length ws) (ucast (t AND 0x7f))"
    unfolding dec c
    by (rule bit_eqI) (auto simp: bit_simps bit_128 dest: bit_leNat bit_byte_less)
  also have "\<dots> = ?r" using dec [of "t AND 0x7f"] by (simp only: decodeLE_value)
  finally show ?thesis .
qed

section \<open>Both conversions over the denoted number\<close>

text \<open>\<open>smVal v\<close> is the number \<open>v\<close> denotes in sign-magnitude form; \<open>minimalEnc v\<close> says that
  its last byte is needed.\<close>

definition smVal :: "bytes \<Rightarrow> int" where
  "smVal v = (if v = [] then 0
     else (if last v AND 0x80 \<noteq> 0 then - 1 else 1) * int (leNat (butlast v @ [last v AND 0x7f])))"

definition minimalEnc :: "bytes \<Rightarrow> bool" where
  "minimalEnc v \<longleftrightarrow> v = [] \<or> last v AND 0x7f \<noteq> 0 \<or>
     (butlast v \<noteq> [] \<and> last (butlast v) AND 0x80 \<noteq> 0)"

lemma checkMinimalDataEncoding_eq:
  "checkMinimalDataEncoding v = (if minimalEnc v then Inr () else Inl (Error (scriptError ErrMinimalData)))"
proof (cases v rule: rev_cases)
  case (snoc ws t)
  then show ?thesis
    by (cases ws rule: rev_cases)
      (auto simp: checkMinimalDataEncoding_def minimalEnc_def nth_append butlast_append)
qed (simp add: checkMinimalDataEncoding_def minimalEnc_def)

lemma smVal_bound: "v \<noteq> [] \<Longrightarrow> \<bar>smVal v\<bar> < 2 ^ (8 * length v - 1)"
proof -
  assume "v \<noteq> []"
  then obtain ws t where v: "v = ws @ [t]" by (metis rev_exhaust)
  have "leNat ws + 256 ^ length ws * unat (t AND 0x7f) < 256 ^ length ws + 256 ^ length ws * 127"
    using leNat_less [of ws] by (intro add_less_le_mono) (auto simp: and7f_unat)
  also have "\<dots> = 2 ^ (8 * length ws + 7)" by (simp add: power_add power_mult)
  finally have "leNat (ws @ [t AND 0x7f]) < 2 ^ (8 * length ws + 7)"
    by (simp add: leNat_append)
  then have "int (leNat (ws @ [t AND 0x7f])) < 2 ^ (8 * length ws + 7)"
    by (simp flip: of_nat_less_iff del: leNat.simps)
  with v show ?thesis by (simp add: smVal_def add.commute)
qed

lemma sint_of_int64: "- (2 ^ 63) \<le> x \<Longrightarrow> x < 2 ^ 63 \<Longrightarrow> sint (word_of_int x :: 64 word) = x"
  by (simp add: signed_of_int signed_take_bit_int_eq_self)

lemma makeScriptNum_eq:
  "makeScriptNum v L =
     (if length v > L \<or> length v > 8 then Inl (Error (scriptError ErrNumberTooBig))
      else if minimalEnc v then Inr (smVal v) else Inl (Error (scriptError ErrMinimalData)))"
proof (cases "length v > L \<or> length v > 8 \<or> v = []")
  case True
  then show ?thesis
    by (auto simp: makeScriptNum_def checkMinimalDataEncoding_eq smVal_def minimalEnc_def)
next
  case False
  then obtain ws t where v: "v = ws @ [t]" by (metis rev_exhaust)
  from False v have len: "length ws \<le> 7" by simp
  let ?m = "leNat (ws @ [t AND 0x7f])"
  have "int ?m < 2 ^ (8 * length v - 1)"
    using smVal_bound [of v] v by (simp add: smVal_def split: if_splits)
  also have "\<dots> \<le> 2 ^ 63" using len v by (intro power_increasing) auto
  finally have m: "int ?m < 2 ^ 63" .
  have neg: "sint (- (decodeLE v 0 0 AND NOT (push_bit (8 * (length v - 1)) 0x80))) = - int ?m"
    using sint_of_int64 [of "- int ?m"] m v by (simp add: decodeLE_clear_sign)
  have pos: "sint (decodeLE v 0 0) = int ?m" if "t AND 0x80 = 0"
  proof -
    from that have "unat t < 128" using and80_iff [of t] by auto
    then have "t AND 0x7f = t" by (simp add: word_unat_eq_iff and7f_unat)
    with sint_of_int64 [of "int ?m"] m v show ?thesis by (simp add: decodeLE_value)
  qed
  from False v neg pos show ?thesis
    by (auto simp: makeScriptNum_def checkMinimalDataEncoding_eq smVal_def)
qed

lemma list_update_eq_butlast: "xs \<noteq> [] \<Longrightarrow> xs[length xs - Suc 0 := y] = butlast xs @ [y]"
  by (cases xs rule: rev_cases) simp_all

lemma no_sign: "(t :: byte) AND 0x80 = 0 \<longleftrightarrow> unat t < 128"
  using and80_iff [of t] by auto

lemma set_clear_sign: "(t :: byte) AND 0x80 = 0 \<Longrightarrow> (t OR 0x80) AND 0x7f = t"
  unfolding no_sign by (rule byte_eqI) (simp only: and7f_unat or80_unat, simp)

lemma set_sign: "(t :: byte) AND 0x80 = 0 \<Longrightarrow> (t OR 0x80) AND 0x80 \<noteq> 0"
  unfolding no_sign by (simp add: or80_unat)

lemma clear_no_sign: "(t :: byte) AND 0x80 = 0 \<Longrightarrow> t AND 0x7f = t"
  unfolding no_sign by (rule byte_eqI) (simp only: and7f_unat mod_less)

lemma clear_sign: "((t :: byte) AND 0x7f) AND 0x80 = 0"
  unfolding no_sign by (simp add: and7f_unat)

lemma clear_set_sign: "(t :: byte) AND 0x80 \<noteq> 0 \<Longrightarrow> (t AND 0x7f) OR 0x80 = t"
proof (rule byte_eqI)
  assume "t AND 0x80 \<noteq> 0"
  then have t: "128 \<le> unat t" by (simp only: and80_iff)
  have "unat ((t AND 0x7f) OR 0x80) = unat t mod 128 + 128"
    by (subst or80_unat) (simp_all add: and7f_unat)
  also have "unat t mod 128 = unat t - 128"
    using t unat_byte_less [of t] by (simp add: le_mod_geq less_diff_conv2 del: unat_byte_less)
  also have "unat t - 128 + 128 = unat t" using t by simp
  finally show "unat ((t AND 0x7f) OR 0x80) = unat t" .
qed

lemma clear_sign_0: "(t :: byte) AND 0x7f = 0 \<Longrightarrow> t = (if t AND 0x80 = 0 then 0 else 0x80)"
  using clear_set_sign [of t] clear_no_sign [of t] by auto

text \<open>\<open>scriptNum_Bytes\<close> in terms of the magnitude's base-256 digits.\<close>

definition signMag :: "bool \<Rightarrow> bytes \<Rightarrow> bytes" where
  "signMag neg bs =
     (if last bs AND 0x80 \<noteq> 0 then bs @ [if neg then 0x80 else 0]
      else if neg then butlast bs @ [last bs OR 0x80] else bs)"

lemma scriptNum_Bytes_eq:
  assumes "- (2 ^ 63) < n" and "n < 2 ^ 63" and "n \<noteq> 0"
  shows "scriptNum_Bytes n = Inr (signMag (n < 0) (leBytes (nat \<bar>n\<bar>)))"
proof -
  have "(if n < 0 then int64 (- n) else n) = \<bar>n\<bar>" using assms by simp
  moreover have "leBytes (nat \<bar>n\<bar>) \<noteq> []" using assms by simp
  ultimately show ?thesis using assms
    by (auto simp: scriptNum_Bytes_def Let_def signMag_def encodeLE_leBytes last_conv_nth
        list_update_length list_update_eq_butlast)
qed

lemma signMag_minimal: "bs \<noteq> [] \<Longrightarrow> last bs \<noteq> 0 \<Longrightarrow> minimalEnc (signMag neg bs)"
  by (auto simp: minimalEnc_def signMag_def set_clear_sign clear_no_sign)

lemma smVal_signMag:
  "bs \<noteq> [] \<Longrightarrow> smVal (signMag neg bs) = (if neg then - int (leNat bs) else int (leNat bs))"
  by (cases bs rule: rev_cases)
    (auto simp: smVal_def signMag_def set_clear_sign set_sign clear_no_sign leNat_append butlast_append)

lemma signMag_smVal:
  assumes "minimalEnc v" and "smVal v \<noteq> 0"
  shows "signMag (smVal v < 0) (leBytes (nat \<bar>smVal v\<bar>)) = v"
proof -
  from assms obtain ws t where v: "v = ws @ [t]" by (cases v rule: rev_cases) (auto simp: smVal_def)
  let ?m = "leNat (ws @ [t AND 0x7f])"
  from assms v have neg: "smVal v < 0 \<longleftrightarrow> t AND 0x80 \<noteq> 0" and m: "nat \<bar>smVal v\<bar> = ?m"
    by (auto simp: smVal_def)
  show ?thesis
  proof (cases "t AND 0x7f = 0")
    case False
    then have "leBytes ?m = ws @ [t AND 0x7f]" by (intro leBytes_leNat) simp
    with v neg m show ?thesis
      by (auto simp: signMag_def clear_sign clear_set_sign clear_no_sign)
  next
    case True
    with assms v have w: "ws \<noteq> []" "last ws AND 0x80 \<noteq> 0" by (auto simp: minimalEnc_def)
    then have "last ws \<noteq> 0" by auto
    then have "leBytes (leNat ws) = ws" by (intro leBytes_leNat) simp
    moreover from True have "?m = leNat ws" by (simp add: leNat_append)
    ultimately show ?thesis
      using v neg m w clear_sign_0 [OF True] by (auto simp: signMag_def)
  qed
qed

lemma leNat_0_last: "leNat xs = 0 \<Longrightarrow> xs \<noteq> [] \<Longrightarrow> last xs = 0"
  using leBytes_leNat [of xs] by auto

lemma smVal_0: "minimalEnc v \<Longrightarrow> smVal v = 0 \<Longrightarrow> v = []"
proof (rule ccontr)
  assume v: "minimalEnc v" "smVal v = 0" "v \<noteq> []"
  then have 0: "leNat (butlast v @ [last v AND 0x7f]) = 0" by (auto simp: smVal_def split: if_splits)
  then have "last v AND 0x7f = 0" using leNat_0_last [OF 0] by simp
  with v have "butlast v \<noteq> []" "last (butlast v) \<noteq> 0" by (auto simp: minimalEnc_def)
  with 0 leNat_0_last [of "butlast v"] show False by (simp add: leNat_append)
qed

lemma length_signMag:
  assumes "0 < m" and "m < 2 ^ (8 * L - 1)" and "0 < L"
  shows "length (signMag neg (leBytes m)) \<le> L"
proof -
  obtain ws t where bs: "leBytes m = ws @ [t]" using assms by (metis leBytes_Nil neq0_conv rev_exhaust)
  have len: "length (leBytes m) \<le> L"
    using assms(2) power_increasing [of "8 * L - 1" "8 * L" "2 :: nat"]
    by (intro length_leBytes) (simp add: power_mult)
  show ?thesis
  proof (cases "t AND 0x80 = 0")
    case True
    with bs len show ?thesis by (auto simp: signMag_def)
  next
    case False
    then have t: "128 \<le> unat t" by (simp add: and80_iff)
    have "2 ^ (8 * length ws + 7) = 256 ^ length ws * (128 :: nat)"
      by (simp add: power_add power_mult)
    also have "\<dots> \<le> 256 ^ length ws * unat t" using t by simp
    also have "\<dots> \<le> m" using leNat_leBytes [of m] bs by (simp add: leNat_append)
    finally have "2 ^ (8 * length ws + 7) < (2 :: nat) ^ (8 * L - 1)"
      using assms(2) by (rule order_le_less_trans)
    then have "8 * length ws + 7 < 8 * L - 1" by (rule power_less_imp_less_exp [rotated]) simp
    then have "length ws + 2 \<le> L" by linarith
    with bs False show ?thesis by (simp add: signMag_def)
  qed
qed

lemma makeScriptNum_bound:
  assumes "makeScriptNum v L = Inr n"
  shows "\<bar>n\<bar> < 2 ^ (8 * min L 8 - 1)"
proof -
  from assms have v: "n = smVal v" "length v \<le> min L 8"
    by (auto simp: makeScriptNum_eq split: if_splits)
  show ?thesis
  proof (cases "v = []")
    case False
    then have "\<bar>n\<bar> < 2 ^ (8 * length v - 1)" using smVal_bound v by simp
    also have "\<dots> \<le> 2 ^ (8 * min L 8 - 1)" using v(2) by (intro power_increasing) auto
    finally show ?thesis .
  qed (simp add: v smVal_def)
qed

lemma scriptNum_Bytes_minInt64: "scriptNum_Bytes (- (2 ^ 63)) = Inl GoPanic"
  by (simp add: scriptNum_Bytes_def int64_def encodeLE_leBytes)

lemma scriptNum_Bytes_ok:
  "- (2 ^ 63) < n \<Longrightarrow> n < 2 ^ 63 \<Longrightarrow> \<exists>v. scriptNum_Bytes n = Inr v"
  using scriptNum_Bytes_eq [of n] by (cases "n = 0") (simp add: scriptNum_Bytes_def, blast)

lemma makeScriptNum_Bytes:
  assumes "\<bar>n\<bar> < 2 ^ (8 * L - 1)" and "0 < L" and "L \<le> 8"
  shows "\<exists>v. scriptNum_Bytes n = Inr v \<and> length v \<le> L \<and> makeScriptNum v L = Inr n"
proof (cases "n = 0")
  case True
  then show ?thesis by (simp add: scriptNum_Bytes_def makeScriptNum_eq minimalEnc_def smVal_def)
next
  case False
  let ?bs = "leBytes (nat \<bar>n\<bar>)"
  have "\<bar>n\<bar> < 2 ^ 63"
    using assms power_increasing [of "8 * L - 1" 63 "2 :: int"] by linarith
  with False have b: "scriptNum_Bytes n = Inr (signMag (n < 0) ?bs)"
    by (intro scriptNum_Bytes_eq) auto
  have "nat \<bar>n\<bar> < 2 ^ (8 * L - 1)" using assms(1) by (simp add: nat_less_iff)
  with False assms have "length (signMag (n < 0) ?bs) \<le> L"
    by (intro length_signMag) auto
  with b False assms show ?thesis
    by (simp add: makeScriptNum_eq signMag_minimal smVal_signMag last_leBytes)
qed

lemma scriptNum_Bytes_le8: "\<bar>n\<bar> < 2 ^ 63 \<Longrightarrow> \<exists>v. scriptNum_Bytes n = Inr v \<and> length v \<le> 8"
  using makeScriptNum_Bytes [of n 8] by auto

section \<open>Properties\<close>

text \<open>C38: A number whose magnitude fits in L bytes, less the sign bit, is encoded by
  \<open>Bytes\<close> in at most L bytes, and \<open>makeScriptNum\<close> with that limit reads the same
  number back from them.\<close>

theorem scriptNum_roundtrip:
  assumes "\<bar>n\<bar> < 2 ^ (8 * L - 1)" and "0 < L" and "L \<le> 8"
  shows "\<exists>v. scriptNum_Bytes n = Inr v \<and> length v \<le> L \<and> makeScriptNum v L = Inr n"
  using assms by (rule makeScriptNum_Bytes)

theorem scriptNum_roundtrip_witness:
  "\<exists>v. scriptNum_Bytes (- 128) = Inr v \<and> length v \<le> 2 \<and> makeScriptNum v 2 = Inr (- 128)"
  using scriptNum_roundtrip [of "- 128" 2] by simp

text \<open>C39: \<open>makeScriptNum\<close> accepts one encoding per number: whatever it decodes, \<open>Bytes\<close>
  encodes back to exactly the bytes that were read, so no script number is malleable.\<close>

theorem scriptNum_canonical:
  assumes "makeScriptNum v L = Inr n"
  shows "scriptNum_Bytes n = Inr v"
proof -
  from assms have v: "minimalEnc v" "n = smVal v" "length v \<le> 8"
    by (auto simp: makeScriptNum_eq split: if_splits)
  show ?thesis
  proof (cases "n = 0")
    case True
    with v show ?thesis by (auto simp: scriptNum_Bytes_def dest: smVal_0)
  next
    case False
    with v have "v \<noteq> []" by (auto simp: smVal_def)
    then have "\<bar>n\<bar> < 2 ^ (8 * length v - 1)" using smVal_bound v by simp
    then have "\<bar>n\<bar> < 2 ^ 63"
      using v power_increasing [of "8 * length v - 1" 63 "2 :: int"] by linarith
    with False v show ?thesis by (simp add: scriptNum_Bytes_eq signMag_smVal)
  qed
qed

lemma makeScriptNum_example: "makeScriptNum [0x80, 0x80] 4 = Inr (- 128)"
  by (simp add: makeScriptNum_eq minimalEnc_def smVal_def)

theorem scriptNum_canonical_witness:
  "makeScriptNum [0x80, 0x80] 4 = Inr (- 128) \<and> scriptNum_Bytes (- 128) = Inr [0x80, 0x80]"
  using scriptNum_canonical [OF makeScriptNum_example] makeScriptNum_example by simp

text \<open>C40: On \<open>int64\<close> values \<open>Bytes\<close> panics for the least value and for no other.\<close>

theorem scriptNum_Bytes_panics:
  assumes "- (2 ^ 63) \<le> n" and "n < 2 ^ 63"
  shows "scriptNum_Bytes n = Inl GoPanic \<longleftrightarrow> n = - (2 ^ 63)"
  using assms scriptNum_Bytes_ok [of n] scriptNum_Bytes_minInt64
  by (cases "n = - (2 ^ 63)") auto

theorem scriptNum_Bytes_panics_witness:
  "scriptNum_Bytes (- (2 ^ 63)) = Inl GoPanic \<and> scriptNum_Bytes (2 ^ 63 - 1) \<noteq> Inl GoPanic"
  using scriptNum_Bytes_panics [of "- (2 ^ 63)"] scriptNum_Bytes_panics [of "2 ^ 63 - 1"] by simp

text \<open>\<open>Int32\<close> clamps an \<open>int64\<close> value to the range of \<open>int32\<close>.\<close>

theorem scriptNum_Int32_clamp:
  "- (2 ^ 63) \<le> n \<Longrightarrow> n < 2 ^ 63 \<Longrightarrow> scriptNum_Int32 n = max minInt32 (min maxInt32 n)"
proof (cases "n = - (2 ^ 31)")
  case True
  then show ?thesis by (simp add: scriptNum_Int32_def minInt32_def maxInt32_def int32_def)
qed (simp add: scriptNum_Int32_def minInt32_def maxInt32_def take_bit_int_eq_self)

theorem scriptNum_Int32_clamp_witness:
  "scriptNum_Int32 (2 ^ 40) = maxInt32 \<and> scriptNum_Int32 (- 7) = - 7"
  using scriptNum_Int32_clamp [of "2 ^ 40"] scriptNum_Int32_clamp [of "- 7"]
  by (simp add: minInt32_def maxInt32_def)

end
