(* ===== verification/Script_Stack.thy ===== *)
theory Script_Stack
  imports Script_Num
begin

text \<open>
  The data stacks of the script engine:
  \<^verbatim>\<open>src/domain/consensus/utils/txscript/stack.go\<close>. A stack is the slice of its
  elements, the top of the stack last, and each method is a procedure on it. The functional
  lemmas give each method's result on every stack, errors included; the contract lemmas say
  that no method panics, that the elements stay within their size limit, and by how much the
  stack can grow.
\<close>

section \<open>The methods\<close>

type_synonym stack = "bytes list"

type_synonym 'a stackProc = "(stack, goError, 'a) proc"

definition checkedStackSize :: "nat \<Rightarrow> (goError, int) result" where
  "checkedStackSize n = (if int n > maxInt32 then Inl GoPanic else Inr (int n))"

text \<open>\<open>asBool\<close>: the loop looks for the first non-zero byte; negative zero is false.\<close>

fun asBoolFrom :: "bytes \<Rightarrow> bool" where
  "asBoolFrom [] = False"
| "asBoolFrom (b # bs) =
     (if b \<noteq> 0 then if bs = [] \<and> b = 0x80 then False else True
      else asBoolFrom bs)"

definition asBool :: "bytes \<Rightarrow> bool" where
  "asBool t = asBoolFrom t"

definition fromBool :: "bool \<Rightarrow> bytes" where
  "fromBool v = (if v then [1] else [])"

definition Depth :: "int stackProc" where
  "Depth = bnd (gets length) (\<lambda>n. liftR (checkedStackSize n))"

definition PushByteArray :: "bytes \<Rightarrow> unit stackProc" where
  "PushByteArray so = modify (\<lambda>stk. stk @ [so])"

definition PushInt :: "int \<Rightarrow> unit stackProc" where
  "PushInt val = bnd (liftR (scriptNum_Bytes val)) PushByteArray"

definition PushBool :: "bool \<Rightarrow> unit stackProc" where
  "PushBool val = PushByteArray (fromBool val)"

definition nipN :: "int \<Rightarrow> bytes stackProc" where
  "nipN idx =
     bnd (gets (\<lambda>stk. stk)) (\<lambda>stk.
     bnd (liftR (checkedStackSize (length stk))) (\<lambda>sz.
     if idx < 0 \<or> idx > sz - 1 then raise (scriptError ErrInvalidStackOperation)
     else
       bnd (liftR (index stk (sz - idx - 1))) (\<lambda>so.
       andThen
         (modify (\<lambda>_.
            if idx = 0 then take (nat (sz - 1)) stk
            else if idx = sz - 1 then drop 1 stk
            else take (nat (sz - idx - 1)) stk @ subslice (nat (sz - idx)) (nat sz) stk))
         (ret so))))"

definition PopByteArray :: "bytes stackProc" where
  "PopByteArray = nipN 0"

definition PopInt :: "int stackProc" where
  "PopInt = bnd PopByteArray (\<lambda>so. liftR (makeScriptNum so defaultScriptNumLen))"

definition PopBool :: "bool stackProc" where
  "PopBool = bnd PopByteArray (\<lambda>so. ret (asBool so))"

definition PeekByteArray :: "int \<Rightarrow> bytes stackProc" where
  "PeekByteArray idx =
     bnd (gets (\<lambda>stk. stk)) (\<lambda>stk.
     bnd (liftR (checkedStackSize (length stk))) (\<lambda>sz.
     if idx < 0 \<or> idx \<ge> sz then raise (scriptError ErrInvalidStackOperation)
     else liftR (index stk (sz - idx - 1))))"

definition PeekInt :: "int \<Rightarrow> int stackProc" where
  "PeekInt idx = bnd (PeekByteArray idx) (\<lambda>so. liftR (makeScriptNum so defaultScriptNumLen))"

definition PeekBool :: "int \<Rightarrow> bool stackProc" where
  "PeekBool idx = bnd (PeekByteArray idx) (\<lambda>so. ret (asBool so))"

definition NipN :: "int \<Rightarrow> unit stackProc" where
  "NipN idx = andThen (nipN idx) (ret ())"

definition Tuck :: "unit stackProc" where
  "Tuck =
     bnd PopByteArray (\<lambda>so2.
     bnd PopByteArray (\<lambda>so1.
     andThen (PushByteArray so2)
     (andThen (PushByteArray so1)
     (PushByteArray so2))))"

definition DropN :: "int \<Rightarrow> unit stackProc" where
  "DropN n =
     (if n < 1 then raise (scriptError ErrInvalidStackOperation)
      else repeatM (nat n) (andThen PopByteArray (ret ())))"

definition DupN :: "int \<Rightarrow> unit stackProc" where
  "DupN n =
     (if n < 1 then raise (scriptError ErrInvalidStackOperation)
      else repeatM (nat n) (bnd (PeekByteArray (n - 1)) PushByteArray))"

definition RotN :: "int \<Rightarrow> unit stackProc" where
  "RotN n =
     (if n < 1 then raise (scriptError ErrInvalidStackOperation)
      else let entry = int32 (3 * n - 1)
           in repeatM (nat n) (bnd (nipN entry) PushByteArray))"

definition SwapN :: "int \<Rightarrow> unit stackProc" where
  "SwapN n =
     (if n < 1 then raise (scriptError ErrInvalidStackOperation)
      else let entry = int32 (2 * n - 1)
           in repeatM (nat n) (bnd (nipN entry) PushByteArray))"

definition OverN :: "int \<Rightarrow> unit stackProc" where
  "OverN n =
     (if n < 1 then raise (scriptError ErrInvalidStackOperation)
      else let entry = int32 (2 * n - 1)
           in repeatM (nat n) (bnd (PeekByteArray entry) PushByteArray))"

definition PickN :: "int \<Rightarrow> unit stackProc" where
  "PickN n = bnd (PeekByteArray n) PushByteArray"

definition RollN :: "int \<Rightarrow> unit stackProc" where
  "RollN n = bnd (nipN n) PushByteArray"

section \<open>What the methods do\<close>

text \<open>\<open>small\<close>: the depth fits in an \<open>int32\<close>, as it must for \<open>checkedStackSize\<close> not to panic.\<close>

definition small :: "stack \<Rightarrow> bool" where
  "small s \<longleftrightarrow> int (length s) \<le> maxInt32"

lemma checkedStackSize_small [simp]: "small s \<Longrightarrow> checkedStackSize (length s) = Inr (int (length s))"
  by (simp add: small_def checkedStackSize_def)

lemma Depth_eq: "small s \<Longrightarrow> Depth s = (Inr (int (length s)), s)"
  by (simp add: Depth_def proc_defs)

lemma PushByteArray_eq: "PushByteArray x s = (Inr (), s @ [x])"
  by (simp add: PushByteArray_def modify_def)

lemma nipN_err:
  "small s \<Longrightarrow> i < 0 \<or> int (length s) \<le> i \<Longrightarrow> nipN i s = (Inl (Error (scriptError ErrInvalidStackOperation)), s)"
  by (auto simp: nipN_def proc_defs)

lemma nipN_append:
  assumes "small (a @ x # b)"
  shows "nipN (int (length b)) (a @ x # b) = (Inr x, a @ b)"
proof -
  let ?s = "a @ x # b"
  have "checkedStackSize (length ?s) = Inr (int (length ?s))"
    using assms by (rule checkedStackSize_small)
  moreover have "(index ?s (int (length ?s) - int (length b) - 1) :: (goError, bytes) result) = Inr x"
    by (simp add: index_def nth_append)
  moreover have "(if int (length b) = 0 then take (nat (int (length ?s) - 1)) ?s
      else if int (length b) = int (length ?s) - 1 then drop 1 ?s
      else take (nat (int (length ?s) - int (length b) - 1)) ?s
        @ subslice (nat (int (length ?s) - int (length b))) (nat (int (length ?s))) ?s) = a @ b"
    by (auto simp: subslice_def nat_diff_distrib' nat_add_distrib)
  moreover have "\<not> (int (length b) < 0 \<or> int (length b) > int (length ?s) - 1)" by simp
  ultimately show ?thesis
    by (simp only: nipN_def proc_defs prod.case sum.case if_False)
qed

lemma PeekByteArray_err:
  "small s \<Longrightarrow> i < 0 \<or> int (length s) \<le> i \<Longrightarrow>
   PeekByteArray i s = (Inl (Error (scriptError ErrInvalidStackOperation)), s)"
  by (auto simp: PeekByteArray_def proc_defs)

lemma PeekByteArray_append:
  assumes "small (a @ x # b)"
  shows "PeekByteArray (int (length b)) (a @ x # b) = (Inr x, a @ x # b)"
proof -
  let ?s = "a @ x # b"
  have "checkedStackSize (length ?s) = Inr (int (length ?s))"
    using assms by (rule checkedStackSize_small)
  moreover have "(index ?s (int (length ?s) - int (length b) - 1) :: (goError, bytes) result) = Inr x"
    by (simp add: index_def nth_append)
  ultimately show ?thesis by (simp only: PeekByteArray_def) (simp add: proc_defs)
qed

lemma PopByteArray_snoc [simp]: "small (s @ [x]) \<Longrightarrow> PopByteArray (s @ [x]) = (Inr x, s)"
  using nipN_append [of s x "[]"] by (simp add: PopByteArray_def)

lemma PopByteArray_Nil [simp]: "PopByteArray [] = (Inl (Error (scriptError ErrInvalidStackOperation)), [])"
  by (simp add: PopByteArray_def nipN_err small_def maxInt32_def)

text \<open>Moving the bottom element of the top block up, again and again, rotates the block;
  copying it up, again and again, copies the block in order.\<close>

lemma repeat_nipN:
  "small (a @ b) \<Longrightarrow> b \<noteq> [] \<Longrightarrow>
   repeatM n (bnd (nipN (int (length b) - 1)) PushByteArray) (a @ b) = (Inr (), a @ rotate n b)"
proof (induction n arbitrary: b)
  case 0
  then show ?case by (simp add: ret_def)
next
  case (Suc n)
  then obtain x c where b: "b = x # c" by (cases b) auto
  have "bnd (nipN (int (length b) - 1)) PushByteArray (a @ b) = (Inr (), a @ c @ [x])"
    using nipN_append [of a x c] Suc.prems b by (simp add: PushByteArray_eq)
  moreover have "repeatM n (bnd (nipN (int (length b) - 1)) PushByteArray) (a @ c @ [x])
      = (Inr (), a @ rotate n (c @ [x]))"
    using Suc.IH [of "c @ [x]"] Suc.prems b by (simp add: small_def)
  ultimately show ?case using b
    by (simp add: andThen_def rotate1_rotate_swap)
qed

lemma repeat_Peek:
  "int (length a + length b + length p + n) \<le> maxInt32 \<Longrightarrow> n \<le> length b \<Longrightarrow>
   repeatM n (bnd (PeekByteArray (int (length b + length p) - 1)) PushByteArray) (a @ b @ p)
   = (Inr (), a @ b @ p @ take n b)"
proof (induction n arbitrary: a b p)
  case 0
  then show ?case by (simp add: ret_def)
next
  case (Suc n)
  then obtain x c where b: "b = x # c" by (cases b) auto
  have "bnd (PeekByteArray (int (length b + length p) - 1)) PushByteArray (a @ b @ p)
      = (Inr (), (a @ [x]) @ c @ (p @ [x]))"
    using PeekByteArray_append [of a x "c @ p"] Suc.prems b by (simp add: small_def PushByteArray_eq)
  moreover have "repeatM n (bnd (PeekByteArray (int (length b + length p) - 1)) PushByteArray)
      ((a @ [x]) @ c @ (p @ [x])) = (Inr (), (a @ [x]) @ c @ (p @ [x]) @ take n c)"
    using Suc.IH [of "a @ [x]" c "p @ [x]"] Suc.prems b by simp
  ultimately show ?case using b by (simp add: andThen_def)
qed

lemma repeat_err:
  "m s = (Inl e, s) \<Longrightarrow> 0 < n \<Longrightarrow> repeatM n m s = (Inl e, s)"
  by (cases n) (simp_all add: andThen_def)

lemma split_top: "n \<le> length s \<Longrightarrow> \<exists>a b. s = a @ b \<and> length b = n"
  by (rule exI [of _ "take (length s - n) s"], rule exI [of _ "drop (length s - n) s"]) simp

lemma DropN_all:
  "small s \<Longrightarrow> repeatM n (andThen PopByteArray (ret ())) s =
     (if n \<le> length s then (Inr (), take (length s - n) s)
      else (Inl (Error (scriptError ErrInvalidStackOperation)), []))"
proof (induction n arbitrary: s)
  case (Suc n)
  show ?case
  proof (cases s rule: rev_cases)
    case Nil
    then show ?thesis by (simp add: andThen_def bnd_def)
  next
    case (snoc t x)
    then have "small t" using Suc.prems by (simp add: small_def)
    with Suc.IH [of t] Suc.prems snoc show ?thesis
      by (simp add: andThen_def ret_def Suc_le_eq)
  qed
qed (simp add: ret_def)

section \<open>The contract of the methods\<close>

definition elemsLe :: "nat \<Rightarrow> stack \<Rightarrow> bool" where
  "elemsLe E s \<longleftrightarrow> (\<forall>x \<in> set s. length x \<le> E)"

definition stackCap :: nat where
  "stackCap = 2 ^ 31 - 1"

lemma small_cap: "length s \<le> stackCap \<Longrightarrow> small s"
  by (simp add: small_def stackCap_def maxInt32_def)

interpretation stk: contract "\<lambda>_ _. True" "elemsLe E" "elemsLe E" length stackCap "\<lambda>s. s" for E
  by unfold_locales simp_all

lemma nipN_cases:
  assumes "small s"
  obtains a x b where "s = a @ x # b" and "nipN i s = (Inr x, a @ b)"
  | "nipN i s = (Inl (Error (scriptError ErrInvalidStackOperation)), s)"
proof (cases "0 \<le> i \<and> i < int (length s)")
  case True
  then have "Suc (nat i) \<le> length s" by linarith
  then obtain a b where s: "s = a @ b" "length b = Suc (nat i)" using split_top by blast
  then obtain x c where "b = x # c" by (cases b) auto
  with s assms True nipN_append [of a x c] have "nipN i s = (Inr x, a @ c)" by simp
  with s \<open>b = x # c\<close> that(1) show ?thesis by simp
qed (use assms nipN_err [of s i] that(2) in auto)

lemma ok_nipN: "stk.ok E 0 (\<lambda>x. length x \<le> E) (nipN i)"
proof (rule stk.okI)
  fix s assume s: "elemsLe E s" and "length s + 0 \<le> stackCap"
  then have "small s" by (simp add: small_cap)
  then show "stk.okAt E 0 (\<lambda>x. length x \<le> E) (nipN i) s"
    by (rule nipN_cases [where i = i]) (use s in \<open>auto simp: stk.okAt_def elemsLe_def\<close>)
qed

lemma PeekByteArray_cases:
  assumes "small s"
  obtains x where "x \<in> set s" and "PeekByteArray i s = (Inr x, s)"
  | "PeekByteArray i s = (Inl (Error (scriptError ErrInvalidStackOperation)), s)"
proof (cases "0 \<le> i \<and> i < int (length s)")
  case True
  then have "Suc (nat i) \<le> length s" by linarith
  then obtain a b where s: "s = a @ b" "length b = Suc (nat i)" using split_top by blast
  then obtain x c where "b = x # c" by (cases b) auto
  with s assms True PeekByteArray_append [of a x c] have "PeekByteArray i s = (Inr x, s)" by simp
  with s \<open>b = x # c\<close> that(1) [of x] show ?thesis by simp
qed (use assms PeekByteArray_err [of s i] that(2) in auto)

lemma ok_PeekByteArray: "stk.ok E 0 (\<lambda>x. length x \<le> E) (PeekByteArray i)"
proof (rule stk.okI)
  fix s assume s: "elemsLe E s" and "length s + 0 \<le> stackCap"
  then have "small s" by (simp add: small_cap)
  then show "stk.okAt E 0 (\<lambda>x. length x \<le> E) (PeekByteArray i) s"
    by (rule PeekByteArray_cases [where i = i]) (use s in \<open>auto simp: stk.okAt_def elemsLe_def\<close>)
qed

lemma ok_Depth: "stk.ok E 0 (\<lambda>d. 0 \<le> d \<and> d \<le> maxInt32) Depth"
proof (rule stk.okI)
  fix s assume s: "elemsLe E s" and "length s + 0 \<le> stackCap"
  then have "small s" by (simp add: small_cap)
  with s show "stk.okAt E 0 (\<lambda>d. 0 \<le> d \<and> d \<le> maxInt32) Depth s"
    by (simp add: stk.okAt_def Depth_eq) (simp add: small_def)
qed

lemma ok_PushByteArray: "length x \<le> E \<Longrightarrow> stk.ok E 1 (\<lambda>_. True) (PushByteArray x)"
  by (rule stk.okI) (auto simp: stk.okAt_def PushByteArray_eq elemsLe_def)

lemma ok_makeScriptNum:
  "stk.ok E 0 (\<lambda>n. \<bar>n\<bar> < 2 ^ 31) (liftR (makeScriptNum x defaultScriptNumLen))"
proof (rule stk.ok_liftR)
  fix n assume "makeScriptNum x defaultScriptNumLen = Inr n"
  from makeScriptNum_bound [OF this] show "\<bar>n\<bar> < 2 ^ 31" by (simp add: defaultScriptNumLen_def)
qed (auto simp: makeScriptNum_eq split: if_splits)

lemma ok_PushInt:
  assumes "\<bar>n\<bar> < 2 ^ 63" and "8 \<le> E"
  shows "stk.ok E 1 (\<lambda>_. True) (PushInt n)"
proof -
  from scriptNum_Bytes_le8 [OF assms(1)] obtain v
    where "scriptNum_Bytes n = Inr v" "length v \<le> 8" by blast
  with assms(2) show ?thesis
    unfolding PushInt_def
    by (intro stk.ok_bnd [where V = "\<lambda>x. length x \<le> E" and ?k1.0 = 0 and ?k2.0 = 1] stk.ok_liftR
        ok_PushByteArray) auto
qed

lemma ok_PushBool: "1 \<le> E \<Longrightarrow> stk.ok E 1 (\<lambda>_. True) (PushBool b)"
  unfolding PushBool_def by (rule ok_PushByteArray) (simp add: fromBool_def)

lemma ok_PopByteArray: "stk.ok E 0 (\<lambda>x. length x \<le> E) PopByteArray"
  unfolding PopByteArray_def by (rule ok_nipN)

lemma ok_PopInt: "stk.ok E 0 (\<lambda>n. \<bar>n\<bar> < 2 ^ 31) PopInt"
  unfolding PopInt_def by (rule stk.ok_bnd [OF ok_PopByteArray ok_makeScriptNum]) simp

lemma ok_PeekInt: "stk.ok E 0 (\<lambda>n. \<bar>n\<bar> < 2 ^ 31) (PeekInt i)"
  unfolding PeekInt_def by (rule stk.ok_bnd [OF ok_PeekByteArray ok_makeScriptNum]) simp

lemma ok_PopBool: "stk.ok E 0 (\<lambda>_. True) PopBool"
  unfolding PopBool_def by (rule stk.ok_bnd [OF ok_PopByteArray stk.ok_ret [where k = 0]]) simp_all

lemma ok_PeekBool: "stk.ok E 0 (\<lambda>_. True) (PeekBool i)"
  unfolding PeekBool_def by (rule stk.ok_bnd [OF ok_PeekByteArray stk.ok_ret [where k = 0]]) simp_all

lemma ok_NipN: "stk.ok E 0 (\<lambda>_. True) (NipN i)"
  unfolding NipN_def by (rule stk.ok_andThen [OF ok_nipN stk.ok_ret [where k = 0]]) simp_all

lemma ok_Tuck: "stk.ok E 3 (\<lambda>_. True) Tuck"
  unfolding Tuck_def
  by (rule stk.ok_bnd [OF ok_PopByteArray], rule stk.ok_bnd [OF ok_PopByteArray],
      rule stk.ok_andThen [OF ok_PushByteArray], assumption,
      rule stk.ok_andThen [OF ok_PushByteArray], assumption,
      rule ok_PushByteArray, assumption, rule order_refl, rule order_refl, rule order_refl) simp

lemma ok_DropN: "stk.ok E 0 (\<lambda>_. True) (DropN n)"
proof -
  have "stk.ok E 0 (\<lambda>_. True) (andThen PopByteArray (ret ()))"
    by (rule stk.ok_andThen [OF ok_PopByteArray stk.ok_ret [where k = 0]]) simp_all
  from stk.ok_repeatM [OF this] show ?thesis
    unfolding DropN_def by (intro stk.ok_if stk.ok_raise) auto
qed

lemma ok_move: "stk.ok E 1 (\<lambda>_. True) (bnd (nipN i) PushByteArray)"
  by (rule stk.ok_bnd [OF ok_nipN ok_PushByteArray]) simp_all

lemma ok_copy: "stk.ok E 1 (\<lambda>_. True) (bnd (PeekByteArray i) PushByteArray)"
  by (rule stk.ok_bnd [OF ok_PeekByteArray ok_PushByteArray]) simp_all

lemma ok_DupN: "stk.ok E (nat n) (\<lambda>_. True) (DupN n)"
  unfolding DupN_def by (intro stk.ok_if stk.ok_raise stk.ok_repeatM [OF ok_copy]) simp

lemma ok_RotN: "stk.ok E (nat n) (\<lambda>_. True) (RotN n)"
  unfolding RotN_def Let_def by (intro stk.ok_if stk.ok_raise stk.ok_repeatM [OF ok_move]) simp

lemma ok_SwapN: "stk.ok E (nat n) (\<lambda>_. True) (SwapN n)"
  unfolding SwapN_def Let_def by (intro stk.ok_if stk.ok_raise stk.ok_repeatM [OF ok_move]) simp

lemma ok_OverN: "stk.ok E (nat n) (\<lambda>_. True) (OverN n)"
  unfolding OverN_def Let_def by (intro stk.ok_if stk.ok_raise stk.ok_repeatM [OF ok_copy]) simp

lemma ok_PickN: "stk.ok E 1 (\<lambda>_. True) (PickN n)"
  unfolding PickN_def by (rule ok_copy)

lemma ok_RollN: "stk.ok E 1 (\<lambda>_. True) (RollN n)"
  unfolding RollN_def by (rule ok_move)

lemmas stack_oks =
  ok_nipN ok_PeekByteArray ok_Depth ok_PushByteArray ok_PushInt ok_PushBool ok_PopByteArray ok_PopInt
  ok_PeekInt ok_PopBool ok_PeekBool ok_NipN ok_Tuck ok_DropN ok_DupN ok_RotN ok_SwapN ok_OverN
  ok_PickN ok_RollN

section \<open>Properties\<close>

lemma int32_block:
  assumes "0 < n" and "k * int n \<le> maxInt32" and "0 < k"
  shows "int32 (k * int n - 1) = k * int n - 1"
proof (rule int32_id)
  have "- (2 ^ 31) \<le> (0 :: int)" by simp
  also have "0 \<le> k * int n - 1" using mult_pos_pos [of k "int n"] assms by linarith
  finally show "- (2 ^ 31) \<le> k * int n - 1" .
  from assms(2) show "k * int n - 1 < 2 ^ 31" by (simp add: maxInt32_def)
qed

lemma SwapN_blocks:
  assumes "0 < n" "length x = n" "length y = n" "int (length a + 2 * n) \<le> maxInt32"
  shows "SwapN (int n) (a @ x @ y) = (Inr (), a @ y @ x)"
  using repeat_nipN [of a "x @ y" n] assms rotate_append [of x y] int32_block [of n 2]
  by (auto simp: SwapN_def Let_def small_def)

lemma RotN_blocks:
  assumes "0 < n" "length x = n" "length y = n" "length z = n" "int (length a + 3 * n) \<le> maxInt32"
  shows "RotN (int n) (a @ x @ y @ z) = (Inr (), a @ y @ z @ x)"
  using repeat_nipN [of a "x @ y @ z" n] assms rotate_append [of x "y @ z"] int32_block [of n 3]
  by (auto simp: RotN_def Let_def small_def)

lemma DupN_block:
  assumes "0 < n" "length x = n" "int (length a + 2 * n) \<le> maxInt32"
  shows "DupN (int n) (a @ x) = (Inr (), a @ x @ x)"
  using repeat_Peek [of a x "[]" n] assms by (auto simp: DupN_def)

lemma OverN_blocks:
  assumes "0 < n" "length x = n" "length y = n" "int (length a + 3 * n) \<le> maxInt32"
  shows "OverN (int n) (a @ x @ y) = (Inr (), a @ x @ y @ x)"
  using repeat_Peek [of a x y n] assms int32_block [of n 2]
  by (auto simp: OverN_def Let_def)

text \<open>C37: The block operations do what their comments draw: on a stack whose top holds blocks of n
  elements, \<open>DupN\<close> copies the top block, \<open>SwapN\<close> exchanges the top two, \<open>OverN\<close> copies the second
  one to the top and \<open>RotN\<close> brings the third one to the top, each keeping the order inside a block
  and everything below.\<close>

theorem stack_block_ops:
  assumes "0 < n" "length x = n" "length y = n" "length z = n" "int (length a + 3 * n) \<le> maxInt32"
  shows "DupN (int n) (a @ x) = (Inr (), a @ x @ x) \<and>
         SwapN (int n) (a @ x @ y) = (Inr (), a @ y @ x) \<and>
         OverN (int n) (a @ x @ y) = (Inr (), a @ x @ y @ x) \<and>
         RotN (int n) (a @ x @ y @ z) = (Inr (), a @ y @ z @ x)"
  using assms by (simp add: DupN_block SwapN_blocks OverN_blocks RotN_blocks)

theorem stack_block_ops_witness:
  "RotN 2 [[1], [2], [3], [4], [5], [6]] = (Inr (), [[3], [4], [5], [6], [1], [2]])"
  using stack_block_ops [of 2 "[[1], [2]]" "[[3], [4]]" "[[5], [6]]" "[]"]
  by (simp add: maxInt32_def)

text \<open>On a stack that is too shallow every operation returns an invalid-stack-operation
  error; \<open>DupN\<close>, \<open>SwapN\<close>, \<open>OverN\<close>, \<open>RotN\<close>, \<open>PickN\<close>, \<open>RollN\<close> and \<open>NipN\<close> then leave the
  stack as it was, and \<open>DropN\<close> leaves it empty.\<close>

theorem stack_ops_too_shallow:
  assumes "0 < n" "3 * int n \<le> maxInt32" "small s"
  shows "(length s < n \<longrightarrow> DupN (int n) s = (Inl (Error (scriptError ErrInvalidStackOperation)), s)) \<and>
         (length s < 2 * n \<longrightarrow> SwapN (int n) s = (Inl (Error (scriptError ErrInvalidStackOperation)), s)) \<and>
         (length s < 2 * n \<longrightarrow> OverN (int n) s = (Inl (Error (scriptError ErrInvalidStackOperation)), s)) \<and>
         (length s < 3 * n \<longrightarrow> RotN (int n) s = (Inl (Error (scriptError ErrInvalidStackOperation)), s)) \<and>
         (length s \<le> n \<longrightarrow> PickN (int n) s = (Inl (Error (scriptError ErrInvalidStackOperation)), s)) \<and>
         (length s \<le> n \<longrightarrow> RollN (int n) s = (Inl (Error (scriptError ErrInvalidStackOperation)), s)) \<and>
         (length s \<le> n \<longrightarrow> NipN (int n) s = (Inl (Error (scriptError ErrInvalidStackOperation)), s)) \<and>
         (length s < n \<longrightarrow> DropN (int n) s = (Inl (Error (scriptError ErrInvalidStackOperation)), []))"
proof -
  have i32: "int32 (2 * int n - 1) = 2 * int n - 1" "int32 (3 * int n - 1) = 3 * int n - 1"
    using assms by (simp_all add: int32_block)
  have copy: "bnd (PeekByteArray i) PushByteArray s = (Inl (Error (scriptError ErrInvalidStackOperation)), s)"
    and move: "bnd (nipN i) PushByteArray s = (Inl (Error (scriptError ErrInvalidStackOperation)), s)"
    and nip: "nipN i s = (Inl (Error (scriptError ErrInvalidStackOperation)), s)"
    if "int (length s) \<le> i" for i
    using assms(3) that by (simp_all add: PeekByteArray_err nipN_err)
  have drop: "length s < n \<longrightarrow> DropN (int n) s = (Inl (Error (scriptError ErrInvalidStackOperation)), [])"
    using assms by (simp add: DropN_def DropN_all)
  show ?thesis
    using assms i32 drop
    by (auto simp: DupN_def SwapN_def OverN_def RotN_def PickN_def RollN_def NipN_def andThen_def
        Let_def copy move nip repeat_err)
qed

theorem stack_ops_too_shallow_witness:
  "RotN 1 [[1], [2]] = (Inl (Error (scriptError ErrInvalidStackOperation)), [[1], [2]])"
  using stack_ops_too_shallow [of 1 "[[1], [2]]"] by (simp add: maxInt32_def small_def)

text \<open>\<open>PickN\<close> copies, \<open>RollN\<close> moves and \<open>NipN\<close> removes the element that has n elements
  above it, \<open>DropN\<close> removes the top n elements, and \<open>Tuck\<close> puts a copy of the top element
  under the second one.\<close>

theorem stack_single_ops:
  assumes "length b = n" "int (length (a @ x # b)) < maxInt32"
  shows "PickN (int n) (a @ x # b) = (Inr (), a @ x # b @ [x]) \<and>
         RollN (int n) (a @ x # b) = (Inr (), a @ b @ [x]) \<and>
         NipN (int n) (a @ x # b) = (Inr (), a @ b) \<and>
         (0 < n \<longrightarrow> DropN (int n) (a @ b) = (Inr (), a)) \<and>
         (b = [y] \<longrightarrow> Tuck (a @ x # b) = (Inr (), a @ [y, x, y]))"
proof -
  have small: "small (a @ x # b)" "small (a @ b)" "small (a @ [x])"
    using assms(2) by (auto simp: small_def)
  have tuck: "Tuck (a @ [x, y]) = (Inr (), a @ [y, x, y])" if "b = [y]"
    using PopByteArray_snoc [of "a @ [x]" y] small that
    by (simp add: Tuck_def andThen_def PushByteArray_eq del: PopByteArray_snoc)
      (simp add: PushByteArray_eq)
  have drop: "0 < n \<longrightarrow> DropN (int n) (a @ b) = (Inr (), a)"
    using assms small by (simp add: DropN_def DropN_all)
  show ?thesis
    using assms nipN_append [OF small(1)] PeekByteArray_append [OF small(1)] drop tuck
    by (auto simp: PickN_def RollN_def NipN_def andThen_def PushByteArray_eq ret_def)
qed

theorem stack_single_ops_witness:
  "RollN 1 [[1], [2], [3]] = (Inr (), [[1], [3], [2]])"
  using stack_single_ops [of "[[3]]" 1 "[[1]]" "[2]"] by (simp add: maxInt32_def)

end
