(* ===== verification/Script_Opcode.thy ===== *)
theory Script_Opcode
  imports Script_Stack
begin

text \<open>
  The opcode table and the parsed opcodes of
  \<^verbatim>\<open>src/domain/consensus/utils/txscript/opcode.go\<close>. The handler of an opcode, a function value
  in the source, is named by a constructor of \<open>opfunc\<close>; \<open>executeOp\<close> of theory
  \<open>Script_Exec\<close> maps it to the handler's definition. The names of the table are
  a list of their own, so that evaluating an opcode does not drag them along.
\<close>

section \<open>Opcodes\<close>

datatype constFn =
    F_opcodeFalse | F_opcodePushData | F_opcode1Negate | F_opcodeN | F_opcodeNop
  | F_opcodeReserved | F_opcodeInvalid | F_opcodeDisabled

datatype flowFn =
    F_opcodeIf | F_opcodeNotIf | F_opcodeElse | F_opcodeEndif | F_opcodeVerify | F_opcodeReturn
  | F_opcodeCheckLockTimeVerify | F_opcodeCheckSequenceVerify

datatype stackFn =
    F_opcodeToAltStack | F_opcodeFromAltStack | F_opcode2Drop | F_opcode2Dup | F_opcode3Dup
  | F_opcode2Over | F_opcode2Rot | F_opcode2Swap | F_opcodeIfDup | F_opcodeDepth | F_opcodeDrop
  | F_opcodeDup | F_opcodeNip | F_opcodeOver | F_opcodePick | F_opcodeRoll | F_opcodeRot
  | F_opcodeSwap | F_opcodeTuck | F_opcodeSize | F_opcodeEqual | F_opcodeEqualVerify

datatype unaryFn =
    F_opcode1Add | F_opcode1Sub | F_opcode2Mul | F_opcode2Div | F_opcodeNegate | F_opcodeAbs
  | F_opcodeNot | F_opcode0NotEqual

datatype binaryFn =
    F_opcodeAdd | F_opcodeSub | F_opcodeMul | F_opcodeDiv | F_opcodeMod | F_opcodeLShift
  | F_opcodeRShift | F_opcodeBoolAnd | F_opcodeBoolOr | F_opcodeNumEqual
  | F_opcodeNumEqualVerify | F_opcodeNumNotEqual | F_opcodeLessThan | F_opcodeGreaterThan
  | F_opcodeLessThanOrEqual | F_opcodeGreaterThanOrEqual | F_opcodeMin | F_opcodeMax
  | F_opcodeWithin

datatype cryptoFn =
    F_opcodeSha256 | F_opcodeBlake2b | F_opcodeCheckSig | F_opcodeCheckSigECDSA
  | F_opcodeCheckSigMLDSA44 | F_opcodeCheckSigVerify | F_opcodeCheckMultiSig
  | F_opcodeCheckMultiSigECDSA | F_opcodeCheckMultiSigVerify

datatype opfunc =
    FConst constFn | FFlow flowFn | FStack stackFn | FUnary unaryFn | FBinary binaryFn
  | FCrypto cryptoFn

record opcode =
  opValue :: byte
  opLength :: int
  opFunc :: opfunc

abbreviation opc :: "byte \<Rightarrow> int \<Rightarrow> opfunc \<Rightarrow> opcode" where
  "opc v l f \<equiv> \<lparr>opValue = v, opLength = l, opFunc = f\<rparr>"

text \<open>The opcode constants the other definitions refer to.\<close>

abbreviation Op0 :: byte where "Op0 \<equiv> 0x00"
abbreviation OpFalse :: byte where "OpFalse \<equiv> 0x00"
abbreviation OpData1 :: byte where "OpData1 \<equiv> 0x01"
abbreviation OpData20 :: byte where "OpData20 \<equiv> 0x14"
abbreviation OpData32 :: byte where "OpData32 \<equiv> 0x20"
abbreviation OpData33 :: byte where "OpData33 \<equiv> 0x21"
abbreviation OpData75 :: byte where "OpData75 \<equiv> 0x4b"
abbreviation OpPushData1 :: byte where "OpPushData1 \<equiv> 0x4c"
abbreviation OpPushData2 :: byte where "OpPushData2 \<equiv> 0x4d"
abbreviation OpPushData4 :: byte where "OpPushData4 \<equiv> 0x4e"
abbreviation Op1Negate :: byte where "Op1Negate \<equiv> 0x4f"
abbreviation Op1 :: byte where "Op1 \<equiv> 0x51"
abbreviation OpTrue :: byte where "OpTrue \<equiv> 0x51"
abbreviation Op16 :: byte where "Op16 \<equiv> 0x60"
abbreviation OpIf :: byte where "OpIf \<equiv> 0x63"
abbreviation OpNotIf :: byte where "OpNotIf \<equiv> 0x64"
abbreviation OpVerIf :: byte where "OpVerIf \<equiv> 0x65"
abbreviation OpVerNotIf :: byte where "OpVerNotIf \<equiv> 0x66"
abbreviation OpElse :: byte where "OpElse \<equiv> 0x67"
abbreviation OpEndIf :: byte where "OpEndIf \<equiv> 0x68"
abbreviation OpVerify :: byte where "OpVerify \<equiv> 0x69"
abbreviation OpReturn :: byte where "OpReturn \<equiv> 0x6a"
abbreviation OpCat :: byte where "OpCat \<equiv> 0x7e"
abbreviation OpSubStr :: byte where "OpSubStr \<equiv> 0x7f"
abbreviation OpLeft :: byte where "OpLeft \<equiv> 0x80"
abbreviation OpRight :: byte where "OpRight \<equiv> 0x81"
abbreviation OpInvert :: byte where "OpInvert \<equiv> 0x83"
abbreviation OpAnd :: byte where "OpAnd \<equiv> 0x84"
abbreviation OpOr :: byte where "OpOr \<equiv> 0x85"
abbreviation OpXor :: byte where "OpXor \<equiv> 0x86"
abbreviation OpEqual :: byte where "OpEqual \<equiv> 0x87"
abbreviation OpEqualVerify :: byte where "OpEqualVerify \<equiv> 0x88"
abbreviation Op2Mul :: byte where "Op2Mul \<equiv> 0x8d"
abbreviation Op2Div :: byte where "Op2Div \<equiv> 0x8e"
abbreviation OpMul :: byte where "OpMul \<equiv> 0x95"
abbreviation OpDiv :: byte where "OpDiv \<equiv> 0x96"
abbreviation OpMod :: byte where "OpMod \<equiv> 0x97"
abbreviation OpLShift :: byte where "OpLShift \<equiv> 0x98"
abbreviation OpRShift :: byte where "OpRShift \<equiv> 0x99"
abbreviation OpDup :: byte where "OpDup \<equiv> 0x76"
abbreviation OpBlake2b :: byte where "OpBlake2b \<equiv> 0xaa"
abbreviation OpCheckSig :: byte where "OpCheckSig \<equiv> 0xac"
abbreviation OpCheckSigVerify :: byte where "OpCheckSigVerify \<equiv> 0xad"
abbreviation OpCheckSigECDSA :: byte where "OpCheckSigECDSA \<equiv> 0xab"
abbreviation OpCheckMultiSig :: byte where "OpCheckMultiSig \<equiv> 0xae"
abbreviation OpCheckMultiSigVerify :: byte where "OpCheckMultiSigVerify \<equiv> 0xaf"
abbreviation OpCheckMultiSigECDSA :: byte where "OpCheckMultiSigECDSA \<equiv> 0xa9"
abbreviation OpCheckSigMLDSA44 :: byte where "OpCheckSigMLDSA44 \<equiv> 0xa6"

text \<open>The entries of \<open>opcodeArray\<close>, in the order of their index.\<close>

definition opcodeTable1 :: "opcode list" where
  "opcodeTable1 =
    [opc 0x00 1 (FConst F_opcodeFalse), opc 0x01 2 (FConst F_opcodePushData),
      opc 0x02 3 (FConst F_opcodePushData), opc 0x03 4 (FConst F_opcodePushData),
      opc 0x04 5 (FConst F_opcodePushData), opc 0x05 6 (FConst F_opcodePushData),
      opc 0x06 7 (FConst F_opcodePushData), opc 0x07 8 (FConst F_opcodePushData),
      opc 0x08 9 (FConst F_opcodePushData), opc 0x09 10 (FConst F_opcodePushData),
      opc 0x0a 11 (FConst F_opcodePushData), opc 0x0b 12 (FConst F_opcodePushData),
      opc 0x0c 13 (FConst F_opcodePushData), opc 0x0d 14 (FConst F_opcodePushData),
      opc 0x0e 15 (FConst F_opcodePushData), opc 0x0f 16 (FConst F_opcodePushData),
      opc 0x10 17 (FConst F_opcodePushData), opc 0x11 18 (FConst F_opcodePushData),
      opc 0x12 19 (FConst F_opcodePushData), opc 0x13 20 (FConst F_opcodePushData),
      opc 0x14 21 (FConst F_opcodePushData), opc 0x15 22 (FConst F_opcodePushData),
      opc 0x16 23 (FConst F_opcodePushData), opc 0x17 24 (FConst F_opcodePushData),
      opc 0x18 25 (FConst F_opcodePushData), opc 0x19 26 (FConst F_opcodePushData),
      opc 0x1a 27 (FConst F_opcodePushData), opc 0x1b 28 (FConst F_opcodePushData),
      opc 0x1c 29 (FConst F_opcodePushData), opc 0x1d 30 (FConst F_opcodePushData),
      opc 0x1e 31 (FConst F_opcodePushData), opc 0x1f 32 (FConst F_opcodePushData),
      opc 0x20 33 (FConst F_opcodePushData), opc 0x21 34 (FConst F_opcodePushData),
      opc 0x22 35 (FConst F_opcodePushData), opc 0x23 36 (FConst F_opcodePushData),
      opc 0x24 37 (FConst F_opcodePushData), opc 0x25 38 (FConst F_opcodePushData),
      opc 0x26 39 (FConst F_opcodePushData), opc 0x27 40 (FConst F_opcodePushData),
      opc 0x28 41 (FConst F_opcodePushData), opc 0x29 42 (FConst F_opcodePushData),
      opc 0x2a 43 (FConst F_opcodePushData), opc 0x2b 44 (FConst F_opcodePushData),
      opc 0x2c 45 (FConst F_opcodePushData), opc 0x2d 46 (FConst F_opcodePushData),
      opc 0x2e 47 (FConst F_opcodePushData), opc 0x2f 48 (FConst F_opcodePushData),
      opc 0x30 49 (FConst F_opcodePushData), opc 0x31 50 (FConst F_opcodePushData),
      opc 0x32 51 (FConst F_opcodePushData), opc 0x33 52 (FConst F_opcodePushData),
      opc 0x34 53 (FConst F_opcodePushData), opc 0x35 54 (FConst F_opcodePushData),
      opc 0x36 55 (FConst F_opcodePushData), opc 0x37 56 (FConst F_opcodePushData),
      opc 0x38 57 (FConst F_opcodePushData), opc 0x39 58 (FConst F_opcodePushData),
      opc 0x3a 59 (FConst F_opcodePushData), opc 0x3b 60 (FConst F_opcodePushData),
      opc 0x3c 61 (FConst F_opcodePushData), opc 0x3d 62 (FConst F_opcodePushData),
      opc 0x3e 63 (FConst F_opcodePushData), opc 0x3f 64 (FConst F_opcodePushData),
      opc 0x40 65 (FConst F_opcodePushData), opc 0x41 66 (FConst F_opcodePushData),
      opc 0x42 67 (FConst F_opcodePushData), opc 0x43 68 (FConst F_opcodePushData),
      opc 0x44 69 (FConst F_opcodePushData), opc 0x45 70 (FConst F_opcodePushData),
      opc 0x46 71 (FConst F_opcodePushData), opc 0x47 72 (FConst F_opcodePushData),
      opc 0x48 73 (FConst F_opcodePushData), opc 0x49 74 (FConst F_opcodePushData),
      opc 0x4a 75 (FConst F_opcodePushData), opc 0x4b 76 (FConst F_opcodePushData),
      opc 0x4c (- 1) (FConst F_opcodePushData), opc 0x4d (- 2) (FConst F_opcodePushData),
      opc 0x4e (- 4) (FConst F_opcodePushData), opc 0x4f 1 (FConst F_opcode1Negate),
      opc 0x50 1 (FConst F_opcodeReserved), opc 0x51 1 (FConst F_opcodeN),
      opc 0x52 1 (FConst F_opcodeN), opc 0x53 1 (FConst F_opcodeN), opc 0x54 1 (FConst F_opcodeN),
      opc 0x55 1 (FConst F_opcodeN), opc 0x56 1 (FConst F_opcodeN), opc 0x57 1 (FConst F_opcodeN),
      opc 0x58 1 (FConst F_opcodeN), opc 0x59 1 (FConst F_opcodeN), opc 0x5a 1 (FConst F_opcodeN),
      opc 0x5b 1 (FConst F_opcodeN), opc 0x5c 1 (FConst F_opcodeN), opc 0x5d 1 (FConst F_opcodeN),
      opc 0x5e 1 (FConst F_opcodeN), opc 0x5f 1 (FConst F_opcodeN), opc 0x60 1 (FConst F_opcodeN),
      opc 0x61 1 (FConst F_opcodeNop), opc 0x62 1 (FConst F_opcodeReserved),
      opc 0x63 1 (FFlow F_opcodeIf), opc 0x64 1 (FFlow F_opcodeNotIf),
      opc 0x65 1 (FConst F_opcodeReserved), opc 0x66 1 (FConst F_opcodeReserved),
      opc 0x67 1 (FFlow F_opcodeElse), opc 0x68 1 (FFlow F_opcodeEndif),
      opc 0x69 1 (FFlow F_opcodeVerify), opc 0x6a 1 (FFlow F_opcodeReturn),
      opc 0x6b 1 (FStack F_opcodeToAltStack), opc 0x6c 1 (FStack F_opcodeFromAltStack),
      opc 0x6d 1 (FStack F_opcode2Drop), opc 0x6e 1 (FStack F_opcode2Dup),
      opc 0x6f 1 (FStack F_opcode3Dup), opc 0x70 1 (FStack F_opcode2Over),
      opc 0x71 1 (FStack F_opcode2Rot), opc 0x72 1 (FStack F_opcode2Swap),
      opc 0x73 1 (FStack F_opcodeIfDup), opc 0x74 1 (FStack F_opcodeDepth),
      opc 0x75 1 (FStack F_opcodeDrop), opc 0x76 1 (FStack F_opcodeDup),
      opc 0x77 1 (FStack F_opcodeNip), opc 0x78 1 (FStack F_opcodeOver),
      opc 0x79 1 (FStack F_opcodePick), opc 0x7a 1 (FStack F_opcodeRoll),
      opc 0x7b 1 (FStack F_opcodeRot), opc 0x7c 1 (FStack F_opcodeSwap),
      opc 0x7d 1 (FStack F_opcodeTuck), opc 0x7e 1 (FConst F_opcodeDisabled),
      opc 0x7f 1 (FConst F_opcodeDisabled), opc 0x80 1 (FConst F_opcodeDisabled),
      opc 0x81 1 (FConst F_opcodeDisabled), opc 0x82 1 (FStack F_opcodeSize),
      opc 0x83 1 (FConst F_opcodeDisabled), opc 0x84 1 (FConst F_opcodeDisabled),
      opc 0x85 1 (FConst F_opcodeDisabled), opc 0x86 1 (FConst F_opcodeDisabled),
      opc 0x87 1 (FStack F_opcodeEqual), opc 0x88 1 (FStack F_opcodeEqualVerify),
      opc 0x89 1 (FConst F_opcodeReserved)]"

definition opcodeTable2 :: "opcode list" where
  "opcodeTable2 =
    [opc 0x8a 1 (FConst F_opcodeReserved), opc 0x8b 1 (FUnary F_opcode1Add),
      opc 0x8c 1 (FUnary F_opcode1Sub), opc 0x8d 1 (FUnary F_opcode2Mul),
      opc 0x8e 1 (FUnary F_opcode2Div), opc 0x8f 1 (FUnary F_opcodeNegate),
      opc 0x90 1 (FUnary F_opcodeAbs), opc 0x91 1 (FUnary F_opcodeNot),
      opc 0x92 1 (FUnary F_opcode0NotEqual), opc 0x93 1 (FBinary F_opcodeAdd),
      opc 0x94 1 (FBinary F_opcodeSub), opc 0x95 1 (FBinary F_opcodeMul),
      opc 0x96 1 (FBinary F_opcodeDiv), opc 0x97 1 (FBinary F_opcodeMod),
      opc 0x98 1 (FBinary F_opcodeLShift), opc 0x99 1 (FBinary F_opcodeRShift),
      opc 0x9a 1 (FBinary F_opcodeBoolAnd), opc 0x9b 1 (FBinary F_opcodeBoolOr),
      opc 0x9c 1 (FBinary F_opcodeNumEqual), opc 0x9d 1 (FBinary F_opcodeNumEqualVerify),
      opc 0x9e 1 (FBinary F_opcodeNumNotEqual), opc 0x9f 1 (FBinary F_opcodeLessThan),
      opc 0xa0 1 (FBinary F_opcodeGreaterThan), opc 0xa1 1 (FBinary F_opcodeLessThanOrEqual),
      opc 0xa2 1 (FBinary F_opcodeGreaterThanOrEqual), opc 0xa3 1 (FBinary F_opcodeMin),
      opc 0xa4 1 (FBinary F_opcodeMax), opc 0xa5 1 (FBinary F_opcodeWithin),
      opc 0xa6 1 (FCrypto F_opcodeCheckSigMLDSA44), opc 0xa7 1 (FConst F_opcodeInvalid),
      opc 0xa8 1 (FCrypto F_opcodeSha256), opc 0xa9 1 (FCrypto F_opcodeCheckMultiSigECDSA),
      opc 0xaa 1 (FCrypto F_opcodeBlake2b), opc 0xab 1 (FCrypto F_opcodeCheckSigECDSA),
      opc 0xac 1 (FCrypto F_opcodeCheckSig), opc 0xad 1 (FCrypto F_opcodeCheckSigVerify),
      opc 0xae 1 (FCrypto F_opcodeCheckMultiSig),
      opc 0xaf 1 (FCrypto F_opcodeCheckMultiSigVerify),
      opc 0xb0 1 (FFlow F_opcodeCheckLockTimeVerify),
      opc 0xb1 1 (FFlow F_opcodeCheckSequenceVerify), opc 0xbc 1 (FConst F_opcodeInvalid),
      opc 0xbd 1 (FConst F_opcodeInvalid), opc 0xbe 1 (FConst F_opcodeInvalid),
      opc 0xbf 1 (FConst F_opcodeInvalid), opc 0xc0 1 (FConst F_opcodeInvalid),
      opc 0xc1 1 (FConst F_opcodeInvalid), opc 0xc2 1 (FConst F_opcodeInvalid),
      opc 0xc3 1 (FConst F_opcodeInvalid), opc 0xc4 1 (FConst F_opcodeInvalid),
      opc 0xc5 1 (FConst F_opcodeInvalid), opc 0xbc 1 (FConst F_opcodeInvalid),
      opc 0xbd 1 (FConst F_opcodeInvalid), opc 0xbe 1 (FConst F_opcodeInvalid),
      opc 0xbf 1 (FConst F_opcodeInvalid), opc 0xc0 1 (FConst F_opcodeInvalid),
      opc 0xc1 1 (FConst F_opcodeInvalid), opc 0xc2 1 (FConst F_opcodeInvalid),
      opc 0xc3 1 (FConst F_opcodeInvalid), opc 0xc4 1 (FConst F_opcodeInvalid),
      opc 0xc5 1 (FConst F_opcodeInvalid), opc 0xc6 1 (FConst F_opcodeInvalid),
      opc 0xc7 1 (FConst F_opcodeInvalid), opc 0xc8 1 (FConst F_opcodeInvalid),
      opc 0xc9 1 (FConst F_opcodeInvalid), opc 0xca 1 (FConst F_opcodeInvalid),
      opc 0xcb 1 (FConst F_opcodeInvalid), opc 0xcc 1 (FConst F_opcodeInvalid),
      opc 0xcd 1 (FConst F_opcodeInvalid), opc 0xce 1 (FConst F_opcodeInvalid),
      opc 0xcf 1 (FConst F_opcodeInvalid), opc 0xd0 1 (FConst F_opcodeInvalid),
      opc 0xd1 1 (FConst F_opcodeInvalid), opc 0xd2 1 (FConst F_opcodeInvalid),
      opc 0xd3 1 (FConst F_opcodeInvalid), opc 0xd4 1 (FConst F_opcodeInvalid),
      opc 0xd5 1 (FConst F_opcodeInvalid), opc 0xd6 1 (FConst F_opcodeInvalid),
      opc 0xd7 1 (FConst F_opcodeInvalid), opc 0xd8 1 (FConst F_opcodeInvalid),
      opc 0xd9 1 (FConst F_opcodeInvalid), opc 0xda 1 (FConst F_opcodeInvalid),
      opc 0xdb 1 (FConst F_opcodeInvalid), opc 0xdc 1 (FConst F_opcodeInvalid),
      opc 0xdd 1 (FConst F_opcodeInvalid), opc 0xde 1 (FConst F_opcodeInvalid),
      opc 0xdf 1 (FConst F_opcodeInvalid), opc 0xe0 1 (FConst F_opcodeInvalid),
      opc 0xe1 1 (FConst F_opcodeInvalid), opc 0xe2 1 (FConst F_opcodeInvalid),
      opc 0xe3 1 (FConst F_opcodeInvalid), opc 0xe4 1 (FConst F_opcodeInvalid),
      opc 0xe5 1 (FConst F_opcodeInvalid), opc 0xe6 1 (FConst F_opcodeInvalid),
      opc 0xe7 1 (FConst F_opcodeInvalid), opc 0xe8 1 (FConst F_opcodeInvalid),
      opc 0xe9 1 (FConst F_opcodeInvalid), opc 0xea 1 (FConst F_opcodeInvalid),
      opc 0xeb 1 (FConst F_opcodeInvalid), opc 0xec 1 (FConst F_opcodeInvalid),
      opc 0xed 1 (FConst F_opcodeInvalid), opc 0xee 1 (FConst F_opcodeInvalid),
      opc 0xef 1 (FConst F_opcodeInvalid), opc 0xf0 1 (FConst F_opcodeInvalid),
      opc 0xf1 1 (FConst F_opcodeInvalid), opc 0xf2 1 (FConst F_opcodeInvalid),
      opc 0xf3 1 (FConst F_opcodeInvalid), opc 0xf4 1 (FConst F_opcodeInvalid),
      opc 0xf5 1 (FConst F_opcodeInvalid), opc 0xf6 1 (FConst F_opcodeInvalid),
      opc 0xf7 1 (FConst F_opcodeInvalid), opc 0xf8 1 (FConst F_opcodeInvalid),
      opc 0xf9 1 (FConst F_opcodeInvalid), opc 0xfa 1 (FConst F_opcodeInvalid),
      opc 0xfb 1 (FConst F_opcodeInvalid), opc 0xfc 1 (FConst F_opcodeInvalid),
      opc 0xfd 1 (FConst F_opcodeInvalid), opc 0xfe 1 (FConst F_opcodeInvalid),
      opc 0xff 1 (FConst F_opcodeInvalid)]"

definition opcodeTable :: "opcode list" where
  "opcodeTable = opcodeTable1 @ opcodeTable2"

definition opcodeArray :: "byte \<Rightarrow> opcode" where
  "opcodeArray b = opcodeTable ! unat b"

definition opcodeNames :: "string list" where
  "opcodeNames =
    [''OP_0'', ''OP_DATA_1'', ''OP_DATA_2'', ''OP_DATA_3'', ''OP_DATA_4'', ''OP_DATA_5'',
      ''OP_DATA_6'', ''OP_DATA_7'', ''OP_DATA_8'', ''OP_DATA_9'', ''OP_DATA_10'', ''OP_DATA_11'',
      ''OP_DATA_12'', ''OP_DATA_13'', ''OP_DATA_14'', ''OP_DATA_15'', ''OP_DATA_16'',
      ''OP_DATA_17'', ''OP_DATA_18'', ''OP_DATA_19'', ''OP_DATA_20'', ''OP_DATA_21'',
      ''OP_DATA_22'', ''OP_DATA_23'', ''OP_DATA_24'', ''OP_DATA_25'', ''OP_DATA_26'',
      ''OP_DATA_27'', ''OP_DATA_28'', ''OP_DATA_29'', ''OP_DATA_30'', ''OP_DATA_31'',
      ''OP_DATA_32'', ''OP_DATA_33'', ''OP_DATA_34'', ''OP_DATA_35'', ''OP_DATA_36'',
      ''OP_DATA_37'', ''OP_DATA_38'', ''OP_DATA_39'', ''OP_DATA_40'', ''OP_DATA_41'',
      ''OP_DATA_42'', ''OP_DATA_43'', ''OP_DATA_44'', ''OP_DATA_45'', ''OP_DATA_46'',
      ''OP_DATA_47'', ''OP_DATA_48'', ''OP_DATA_49'', ''OP_DATA_50'', ''OP_DATA_51'',
      ''OP_DATA_52'', ''OP_DATA_53'', ''OP_DATA_54'', ''OP_DATA_55'', ''OP_DATA_56'',
      ''OP_DATA_57'', ''OP_DATA_58'', ''OP_DATA_59'', ''OP_DATA_60'', ''OP_DATA_61'',
      ''OP_DATA_62'', ''OP_DATA_63'', ''OP_DATA_64'', ''OP_DATA_65'', ''OP_DATA_66'',
      ''OP_DATA_67'', ''OP_DATA_68'', ''OP_DATA_69'', ''OP_DATA_70'', ''OP_DATA_71'',
      ''OP_DATA_72'', ''OP_DATA_73'', ''OP_DATA_74'', ''OP_DATA_75'', ''OP_PUSHDATA1'',
      ''OP_PUSHDATA2'', ''OP_PUSHDATA4'', ''OP_1NEGATE'', ''OP_RESERVED'', ''OP_1'', ''OP_2'',
      ''OP_3'', ''OP_4'', ''OP_5'', ''OP_6'', ''OP_7'', ''OP_8'', ''OP_9'', ''OP_10'', ''OP_11'',
      ''OP_12'', ''OP_13'', ''OP_14'', ''OP_15'', ''OP_16'', ''OP_NOP'', ''OP_VER'', ''OP_IF'',
      ''OP_NOTIF'', ''OP_VERIF'', ''OP_VERNOTIF'', ''OP_ELSE'', ''OP_ENDIF'', ''OP_VERIFY'',
      ''OP_RETURN'', ''OP_TOALTSTACK'', ''OP_FROMALTSTACK'', ''OP_2DROP'', ''OP_2DUP'',
      ''OP_3DUP'', ''OP_2OVER'', ''OP_2ROT'', ''OP_2SWAP'', ''OP_IFDUP'', ''OP_DEPTH'',
      ''OP_DROP'', ''OP_DUP'', ''OP_NIP'', ''OP_OVER'', ''OP_PICK'', ''OP_ROLL'', ''OP_ROT'',
      ''OP_SWAP'', ''OP_TUCK'', ''OP_CAT'', ''OP_SUBSTR'', ''OP_LEFT'', ''OP_RIGHT'', ''OP_SIZE'',
      ''OP_INVERT'', ''OP_AND'', ''OP_OR'', ''OP_XOR'', ''OP_EQUAL'', ''OP_EQUALVERIFY'',
      ''OP_RESERVED1'', ''OP_RESERVED2'', ''OP_1ADD'', ''OP_1SUB'', ''OP_2MUL'', ''OP_2DIV'',
      ''OP_NEGATE'', ''OP_ABS'', ''OP_NOT'', ''OP_0NOTEQUAL'', ''OP_ADD'', ''OP_SUB'', ''OP_MUL'',
      ''OP_DIV'', ''OP_MOD'', ''OP_LSHIFT'', ''OP_RSHIFT'', ''OP_BOOLAND'', ''OP_BOOLOR'',
      ''OP_NUMEQUAL'', ''OP_NUMEQUALVERIFY'', ''OP_NUMNOTEQUAL'', ''OP_LESSTHAN'',
      ''OP_GREATERTHAN'', ''OP_LESSTHANOREQUAL'', ''OP_GREATERTHANOREQUAL'', ''OP_MIN'',
      ''OP_MAX'', ''OP_WITHIN'', ''OP_CHECKSIGMLDSA44'', ''OP_UNKNOWN167'', ''OP_SHA256'',
      ''OP_CHECKMULTISIGECDSA'', ''OP_BLAKE2B'', ''OP_CHECKSIGECDSA'', ''OP_CHECKSIG'',
      ''OP_CHECKSIGVERIFY'', ''OP_CHECKMULTISIG'', ''OP_CHECKMULTISIGVERIFY'',
      ''OP_CHECKLOCKTIMEVERIFY'', ''OP_CHECKSEQUENCEVERIFY'', ''OP_UNKNOWN178'',
      ''OP_UNKNOWN179'', ''OP_UNKNOWN180'', ''OP_UNKNOWN181'', ''OP_UNKNOWN182'',
      ''OP_UNKNOWN183'', ''OP_UNKNOWN184'', ''OP_UNKNOWN185'', ''OP_UNKNOWN186'',
      ''OP_UNKNOWN187'', ''OP_UNKNOWN188'', ''OP_UNKNOWN189'', ''OP_UNKNOWN190'',
      ''OP_UNKNOWN191'', ''OP_UNKNOWN192'', ''OP_UNKNOWN193'', ''OP_UNKNOWN194'',
      ''OP_UNKNOWN195'', ''OP_UNKNOWN196'', ''OP_UNKNOWN197'', ''OP_UNKNOWN198'',
      ''OP_UNKNOWN199'', ''OP_UNKNOWN200'', ''OP_UNKNOWN201'', ''OP_UNKNOWN202'',
      ''OP_UNKNOWN203'', ''OP_UNKNOWN204'', ''OP_UNKNOWN205'', ''OP_UNKNOWN206'',
      ''OP_UNKNOWN207'', ''OP_UNKNOWN208'', ''OP_UNKNOWN209'', ''OP_UNKNOWN210'',
      ''OP_UNKNOWN211'', ''OP_UNKNOWN212'', ''OP_UNKNOWN213'', ''OP_UNKNOWN214'',
      ''OP_UNKNOWN215'', ''OP_UNKNOWN216'', ''OP_UNKNOWN217'', ''OP_UNKNOWN218'',
      ''OP_UNKNOWN219'', ''OP_UNKNOWN220'', ''OP_UNKNOWN221'', ''OP_UNKNOWN222'',
      ''OP_UNKNOWN223'', ''OP_UNKNOWN224'', ''OP_UNKNOWN225'', ''OP_UNKNOWN226'',
      ''OP_UNKNOWN227'', ''OP_UNKNOWN228'', ''OP_UNKNOWN229'', ''OP_UNKNOWN230'',
      ''OP_UNKNOWN231'', ''OP_UNKNOWN232'', ''OP_UNKNOWN233'', ''OP_UNKNOWN234'',
      ''OP_UNKNOWN235'', ''OP_UNKNOWN236'', ''OP_UNKNOWN237'', ''OP_UNKNOWN238'',
      ''OP_UNKNOWN239'', ''OP_UNKNOWN240'', ''OP_UNKNOWN241'', ''OP_UNKNOWN242'',
      ''OP_UNKNOWN243'', ''OP_UNKNOWN244'', ''OP_UNKNOWN245'', ''OP_UNKNOWN246'',
      ''OP_UNKNOWN247'', ''OP_UNKNOWN248'', ''OP_UNKNOWN249'', ''OP_SMALLINTEGER'',
      ''OP_PUBKEYS'', ''OP_UNKNOWN252'', ''OP_PUBKEYHASH'', ''OP_PUBKEY'', ''OP_INVALIDOPCODE'']"

text \<open>The map \<open>OpcodeByName\<close> as \<open>init\<close> builds it.\<close>

definition OpcodeByName :: "string \<Rightarrow> byte option" where
  "OpcodeByName =
     (fold (\<lambda>(name, op) m. m(name \<mapsto> opValue op)) (zip opcodeNames opcodeTable) Map.empty)
       (''OP_FALSE'' \<mapsto> OpFalse, ''OP_TRUE'' \<mapsto> OpTrue)"

definition OpCondFalse :: nat where "OpCondFalse = 0"
definition OpCondTrue :: nat where "OpCondTrue = 1"
definition OpCondSkip :: nat where "OpCondSkip = 2"

section \<open>Parsed opcodes\<close>

record parsedOpcode =
  popOpcode :: opcode
  popData :: bytes

abbreviation popValue :: "parsedOpcode \<Rightarrow> byte" where
  "popValue pop \<equiv> opValue (popOpcode pop)"

definition isDisabled :: "parsedOpcode \<Rightarrow> bool" where
  "isDisabled pop \<longleftrightarrow>
     popValue pop \<in> {OpCat, OpSubStr, OpLeft, OpRight, OpInvert, OpAnd, OpOr, OpXor, Op2Mul, Op2Div,
       OpMul, OpDiv, OpMod, OpLShift, OpRShift}"

definition alwaysIllegal :: "parsedOpcode \<Rightarrow> bool" where
  "alwaysIllegal pop \<longleftrightarrow> popValue pop \<in> {OpVerIf, OpVerNotIf}"

definition isConditional :: "parsedOpcode \<Rightarrow> bool" where
  "isConditional pop \<longleftrightarrow> popValue pop \<in> {OpIf, OpNotIf, OpElse, OpEndIf}"

definition checkMinimalDataPush :: "parsedOpcode \<Rightarrow> (goError, unit) result" where
  "checkMinimalDataPush pop =
     (let data = popData pop; dataLen = length data; opcode = popValue pop
      in if dataLen = 0 \<and> opcode \<noteq> Op0 then Inl (Error (scriptError ErrMinimalData))
         else if dataLen = 1 \<and> data ! 0 \<ge> 1 \<and> data ! 0 \<le> 16
         then if opcode \<noteq> Op1 + data ! 0 - 1 then Inl (Error (scriptError ErrMinimalData)) else Inr ()
         else if dataLen = 1 \<and> data ! 0 = 0x81
         then if opcode \<noteq> Op1Negate then Inl (Error (scriptError ErrMinimalData)) else Inr ()
         else if dataLen \<le> 75
         then if unat opcode \<noteq> dataLen then Inl (Error (scriptError ErrMinimalData)) else Inr ()
         else if dataLen \<le> 255
         then if opcode \<noteq> OpPushData1 then Inl (Error (scriptError ErrMinimalData)) else Inr ()
         else if dataLen \<le> 65535
         then if opcode \<noteq> OpPushData2 then Inl (Error (scriptError ErrMinimalData)) else Inr ()
         else Inr ())"

text \<open>\<open>parsedOpcode.bytes\<close>: the opcode byte, the length prefix of the \<open>OP_PUSHDATA\<close> opcodes and
  the data, with the final consistency check of the total length.\<close>

definition lenPrefix :: "int \<Rightarrow> nat \<Rightarrow> bytes" where
  "lenPrefix len l =
     (if len = - 1 then [word_of_nat l]
      else if len = - 2 then [word_of_nat l, word_of_nat (l div 2 ^ 8)]
      else if len = - 4
      then [word_of_nat l, word_of_nat (l div 2 ^ 8), word_of_nat (l div 2 ^ 16), word_of_nat (l div 2 ^ 24)]
      else [])"

definition popBytes :: "parsedOpcode \<Rightarrow> (goError, bytes) result" where
  "popBytes pop =
     (let len = opLength (popOpcode pop); data = popData pop;
          retbytes = [popValue pop]
      in if len = 1
         then if length data \<noteq> 0 then Inl (Error (scriptError ErrInternal)) else Inr retbytes
         else
           let prefix = (if len < 0 then lenPrefix len (length data) else []);
               retbytes' = retbytes @ prefix;
               nbytes = (if len \<in> {- 1, - 2, - 4} then int (leNat prefix) + int (length retbytes')
                         else len);
               retbytes'' = retbytes' @ data
           in if int (length retbytes'') \<noteq> nbytes then Inl (Error (scriptError ErrInternal)) else Inr retbytes'')"

section \<open>Facts of the table\<close>

lemma length_opcodeTable [simp]: "length opcodeTable = 256"
  by (simp add: opcodeTable_def opcodeTable1_def opcodeTable2_def)

lemma opcodeArray_all:
  assumes "list_all P opcodeTable"
  shows "P (opcodeArray b)"
  using assms unat_byte_less [of b] by (simp add: opcodeArray_def list_all_length del: unat_byte_less)

lemma opcodeTable_values:
  "map (\<lambda>op. unat (opValue op)) opcodeTable = [0..<178] @ [188..<198] @ [188..<256]"
  by code_simp

lemma opcodeArray_value:
  assumes "\<not> (178 \<le> unat b \<and> unat b < 188)"
  shows "opValue (opcodeArray b) = b"
proof -
  have "map (\<lambda>op. unat (opValue op)) opcodeTable ! unat b = unat b"
    using assms unat_byte_less [of b] unfolding opcodeTable_values nth_append length_append length_upt
    by (cases "unat b < 178") (auto simp del: unat_byte_less upt_Suc upt_rec_numeral)
  then have "unat (opValue (opcodeArray b)) = unat b"
    using unat_byte_less [of b] by (simp add: opcodeArray_def nth_map del: unat_byte_less)
  then show ?thesis by (rule byte_eqI)
qed

lemma opcodeArray_length:
  "opLength (opcodeArray b) = 1 \<or> (2 \<le> opLength (opcodeArray b) \<and> opLength (opcodeArray b) \<le> 76) \<or>
   opLength (opcodeArray b) \<in> {- 1, - 2, - 4}"
  by (rule opcodeArray_all [where P = "\<lambda>op. opLength op = 1 \<or> (2 \<le> opLength op \<and> opLength op \<le> 76) \<or>
        opLength op \<in> {- 1, - 2, - 4}"])
    (simp add: opcodeTable_def opcodeTable1_def opcodeTable2_def)

end
