(* ===== verification/Tx_Types.thy ===== *)
theory Tx_Types
  imports HTN_Prelude
begin

text \<open>
  Transactions: the structs of
  \<^verbatim>\<open>src/domain/consensus/model/externalapi/{transaction,hash,utxoentry,subnetworkid}.go\<close>, the
  subnetwork identifiers of \<^verbatim>\<open>src/domain/consensus/utils/subnetworks/subnetworks.go\<close>
  and the constants of \<^verbatim>\<open>src/domain/consensus/utils/constants/constants.go\<close> that
  the script engine and the signature hash read. Pointers that the code never leaves nil are
  the structs themselves; the UTXO entry of an input, which is nil until the input is
  resolved, is an \<open>option\<close>.
\<close>

type_synonym DomainHash = bytes
type_synonym DomainTransactionID = bytes
type_synonym DomainSubnetworkID = bytes

definition DomainHashSize :: nat where
  "DomainHashSize = 32"

definition DomainSubnetworkIDSize :: nat where
  "DomainSubnetworkIDSize = 20"

record DomainOutpoint =
  TransactionID :: DomainTransactionID
  outIndex :: "32 word"

record ScriptPublicKey =
  Script :: bytes
  spkVersion :: "16 word"

record UTXOEntry =
  ueAmount :: "64 word"
  ueScriptPublicKey :: ScriptPublicKey
  ueBlockDAAScore :: "64 word"
  ueIsCoinbase :: bool

record DomainTransactionInput =
  PreviousOutpoint :: DomainOutpoint
  SignatureScript :: bytes
  Sequence :: "64 word"
  SigOpCount :: byte
  utxoEntry :: "UTXOEntry option"

record DomainTransactionOutput =
  outValue :: "64 word"
  outScriptPublicKey :: ScriptPublicKey

record DomainTransaction =
  txVersion :: "16 word"
  Inputs :: "DomainTransactionInput list"
  Outputs :: "DomainTransactionOutput list"
  LockTime :: "64 word"
  SubnetworkID :: DomainSubnetworkID
  Gas :: "64 word"
  Payload :: bytes
  Fee :: "64 word"
  Mass :: "64 word"
  cachedID :: "DomainTransactionID option"

definition NewZeroHash :: DomainHash where
  "NewZeroHash = replicate 32 0"

definition SubnetworkIDNative :: DomainSubnetworkID where
  "SubnetworkIDNative = replicate 20 0"

definition SubnetworkIDCoinbase :: DomainSubnetworkID where
  "SubnetworkIDCoinbase = 1 # replicate 19 0"

definition SubnetworkIDRegistry :: DomainSubnetworkID where
  "SubnetworkIDRegistry = 2 # replicate 19 0"

definition SubnetworkIDData :: DomainSubnetworkID where
  "SubnetworkIDData = 3 # replicate 19 0"

definition IsBuiltIn :: "DomainSubnetworkID \<Rightarrow> bool" where
  "IsBuiltIn sid \<longleftrightarrow> sid = SubnetworkIDCoinbase \<or> sid = SubnetworkIDRegistry \<or> sid = SubnetworkIDData"

definition IsBuiltInOrNative :: "DomainSubnetworkID \<Rightarrow> bool" where
  "IsBuiltInOrNative sid \<longleftrightarrow> sid = SubnetworkIDNative \<or> IsBuiltIn sid"

definition MaxScriptPublicKeyVersion :: "16 word" where
  "MaxScriptPublicKeyVersion = 0"

definition MaxTxInSequenceNum :: "64 word" where
  "MaxTxInSequenceNum = 0xffffffffffffffff"

definition SequenceLockTimeDisabled :: "64 word" where
  "SequenceLockTimeDisabled = push_bit 63 1"

definition SequenceLockTimeMask :: "64 word" where
  "SequenceLockTimeMask = 0x00000000ffffffff"

definition LockTimeThreshold :: "64 word" where
  "LockTimeThreshold = 500000000000"

text \<open>The fixed sizes of the array types.\<close>

definition wfInput :: "DomainTransactionInput \<Rightarrow> bool" where
  "wfInput txIn \<longleftrightarrow> length (TransactionID (PreviousOutpoint txIn)) = DomainHashSize"

definition wfTx :: "DomainTransaction \<Rightarrow> bool" where
  "wfTx tx \<longleftrightarrow> list_all wfInput (Inputs tx) \<and> length (SubnetworkID tx) = DomainSubnetworkIDSize"

end
