(* ===== verification/Script_Parse.thy ===== *)
theory Script_Parse
  imports Script_Opcode Tx_Types
begin

unbundle bit_operations_syntax

text \<open>
  Parsing, unparsing and counting: \<^verbatim>\<open>src/domain/consensus/utils/txscript/script.go\<close>. The
  parser walks over the rest of the script instead of an index into it and is
  specialised to \<open>opcodeArray\<close>, the one table the code passes. It returns the opcodes parsed
  so far together with an error, as the code does.
\<close>

section \<open>The parser\<close>

definition checkedUintToInt :: "64 word \<Rightarrow> int \<times> bool" where
  "checkedUintToInt v = (if unat v > 2 ^ 63 - 1 then (0, False) else (uint v, True))"

definition MaxOpsPerScript :: int where
  "MaxOpsPerScript = 201"

definition MaxPubKeysPerMultiSig :: int where
  "MaxPubKeysPerMultiSig = 20"

definition MaxScriptElementSize :: nat where
  "MaxScriptElementSize = 520"

text \<open>The little-endian length after \<open>OP_PUSHDATA\<close>; no other negative length is defined.\<close>

definition readLen :: "int \<Rightarrow> bytes \<Rightarrow> 64 word option" where
  "readLen len b =
     (if len = - 1 then Some (ucast (b ! 0))
      else if len = - 2 then Some (push_bit 8 (ucast (b ! 1)) OR ucast (b ! 0))
      else if len = - 4
      then Some (push_bit 24 (ucast (b ! 3)) OR push_bit 16 (ucast (b ! 2)) OR push_bit 8 (ucast (b ! 1))
             OR ucast (b ! 0))
      else None)"

text \<open>The data of an opcode and the script after it, given the script after the opcode's byte; None is a
  malformed push. A length of zero, on which the code would not advance, is not in the table.\<close>

definition parseData :: "opcode \<Rightarrow> bytes \<Rightarrow> (bytes \<times> bytes) option" where
  "parseData op rest =
     (let len = opLength op
      in if len = 1 then Some ([], rest)
         else if len > 1
         then if int (length rest) + 1 < len then None
              else Some (take (nat (len - 1)) rest, drop (nat (len - 1)) rest)
         else
           if int (length rest) < - len then None
           else
             case readLen len rest of
               None \<Rightarrow> None
             | Some l \<Rightarrow>
                 let rest' = drop (nat (- len)) rest
                 in case checkedUintToInt l of
                      (dataLen, ok) \<Rightarrow>
                        if \<not> ok \<or> dataLen > int (length rest') \<or> dataLen < 0 then None
                        else Some (take (nat dataLen) rest', drop (nat dataLen) rest'))"

lemma parseData_length: "parseData op rest = Some (d, rest') \<Longrightarrow> length rest' \<le> length rest"
  by (auto simp: parseData_def Let_def split: if_splits option.splits prod.splits)

function ParseScript :: "bytes \<Rightarrow> parsedOpcode list \<times> ErrorCode option" where
  "ParseScript [] = ([], None)"
| "ParseScript (instr # rest) =
     (let op = opcodeArray instr
      in case parseData op rest of
           None \<Rightarrow> ([], Some ErrMalformedPush)
         | Some (d, rest') \<Rightarrow>
             (case ParseScript rest' of
                (pops, err) \<Rightarrow> (\<lparr>popOpcode = op, popData = d\<rparr> # pops, err)))"
  by pat_completeness auto
termination
  by (relation "measure length") (auto dest: parseData_length)

text \<open>\<open>countScriptOpcodes\<close>, the capacity the parser allocates. It skips the data of an
  \<open>OP_DATA\<close> opcode without looking whether it is there.\<close>

definition countSkip :: "opcode \<Rightarrow> bytes \<Rightarrow> bytes option" where
  "countSkip op rest =
     (let len = opLength op
      in if len = 1 then Some rest
         else if len > 1 then Some (drop (nat (len - 1)) rest)
         else if int (length rest) < - len then None
         else
           case readLen len rest of
             None \<Rightarrow> None
           | Some l \<Rightarrow>
               let rest' = drop (nat (- len)) rest
               in case checkedUintToInt l of
                    (dataLen, ok) \<Rightarrow>
                      if \<not> ok \<or> dataLen > int (length rest') \<or> dataLen < 0 then None
                      else Some (drop (nat dataLen) rest'))"

lemma countSkip_length: "countSkip op rest = Some rest' \<Longrightarrow> length rest' \<le> length rest"
  by (auto simp: countSkip_def Let_def split: if_splits option.splits prod.splits)

function countScriptOpcodes :: "bytes \<Rightarrow> nat" where
  "countScriptOpcodes [] = 0"
| "countScriptOpcodes (instr # rest) =
     (case countSkip (opcodeArray instr) rest of None \<Rightarrow> 1 | Some rest' \<Rightarrow> 1 + countScriptOpcodes rest')"
  by pat_completeness auto
termination
  by (relation "measure length") (auto dest: countSkip_length)

fun unparseScript :: "parsedOpcode list \<Rightarrow> (goError, bytes) result" where
  "unparseScript [] = Inr []"
| "unparseScript (pop # pops) =
     (case popBytes pop of
        Inl e \<Rightarrow> Inl e
      | Inr b \<Rightarrow> (case unparseScript pops of Inl e \<Rightarrow> Inl e | Inr script \<Rightarrow> Inr (b @ script)))"

section \<open>Predicates on scripts\<close>

definition isSmallInt :: "opcode \<Rightarrow> bool" where
  "isSmallInt op \<longleftrightarrow> opValue op = Op0 \<or> (opValue op \<ge> Op1 \<and> opValue op \<le> Op16)"

definition asSmallInt :: "opcode \<Rightarrow> int" where
  "asSmallInt op = (if opValue op = Op0 then 0 else uint (opValue op - (Op1 - 1)))"

definition isScriptHash :: "parsedOpcode list \<Rightarrow> bool" where
  "isScriptHash pops \<longleftrightarrow>
     length pops = 3 \<and> popValue (pops ! 0) = OpBlake2b \<and> popValue (pops ! 1) = OpData32 \<and>
     popValue (pops ! 2) = OpEqual"

definition IsPayToScriptHash :: "ScriptPublicKey \<Rightarrow> bool" where
  "IsPayToScriptHash script =
     (case ParseScript (Script script) of (pops, err) \<Rightarrow> err = None \<and> isScriptHash pops)"

definition isPushOnly :: "parsedOpcode list \<Rightarrow> bool" where
  "isPushOnly pops \<longleftrightarrow> list_all (\<lambda>pop. popValue pop \<le> Op16) pops"

definition IsPushOnlyScript :: "bytes \<Rightarrow> (goError, bool) result" where
  "IsPushOnlyScript script =
     (case ParseScript script of
        (_, Some err) \<Rightarrow> Inl (Error (scriptError err))
      | (pops, None) \<Rightarrow> Inr (isPushOnly pops))"

definition canonicalPush :: "parsedOpcode \<Rightarrow> bool" where
  "canonicalPush pop =
     (let opcode = popValue pop; data = popData pop; dataLen = length data
      in if opcode > Op16 then True
         else if opcode < OpPushData1 \<and> opcode > Op0 \<and> dataLen = 1 \<and> data ! 0 \<le> 16 then False
         else if opcode = OpPushData1 \<and> dataLen < unat OpPushData1 then False
         else if opcode = OpPushData2 \<and> dataLen \<le> 0xff then False
         else if opcode = OpPushData4 \<and> dataLen \<le> 0xffff then False
         else True)"

definition IsUnspendable :: "bytes \<Rightarrow> bool" where
  "IsUnspendable scriptPubKey =
     (case ParseScript scriptPubKey of
        (pops, err) \<Rightarrow>
          if err \<noteq> None then True else length pops > 0 \<and> popValue (pops ! 0) = OpReturn)"

section \<open>Counting signature operations\<close>

type_synonym ScriptFlags = "32 word"

abbreviation ScriptNoFlags :: ScriptFlags where "ScriptNoFlags \<equiv> 0"
abbreviation ScriptEnableDisabledOpcodes :: ScriptFlags where "ScriptEnableDisabledOpcodes \<equiv> 1"
abbreviation ScriptEnableMLDSA44 :: ScriptFlags where "ScriptEnableMLDSA44 \<equiv> 2"

text \<open>What the opcode at index \<open>i\<close> adds to \<open>nSigs\<close>.\<close>

definition sigOpsAt :: "parsedOpcode list \<Rightarrow> bool \<Rightarrow> ScriptFlags \<Rightarrow> nat \<Rightarrow> int" where
  "sigOpsAt pops precise flags i =
     (let v = popValue (pops ! i)
      in if v \<in> {OpCheckSig, OpCheckSigVerify, OpCheckSigECDSA} then 1
         else if v = OpCheckSigMLDSA44 then if flags AND ScriptEnableMLDSA44 \<noteq> 0 then 1 else 0
         else if v \<in> {OpCheckMultiSig, OpCheckMultiSigVerify, OpCheckMultiSigECDSA}
         then if precise \<and> i > 0 \<and> popValue (pops ! (i - 1)) \<ge> Op1 \<and> popValue (pops ! (i - 1)) \<le> Op16
              then asSmallInt (popOpcode (pops ! (i - 1)))
              else MaxPubKeysPerMultiSig
         else 0)"

definition getSigOpCount :: "parsedOpcode list \<Rightarrow> bool \<Rightarrow> ScriptFlags \<Rightarrow> int" where
  "getSigOpCount pops precise flags =
     foldl (\<lambda>nSigs i. nSigs + sigOpsAt pops precise flags i) 0 [0..<length pops]"

definition GetSigOpCount :: "bytes \<Rightarrow> int" where
  "GetSigOpCount script = getSigOpCount (fst (ParseScript script)) False ScriptNoFlags"

definition getPreciseSigOpCountFromParsedScript ::
  "bytes \<Rightarrow> parsedOpcode list \<Rightarrow> ScriptFlags \<Rightarrow> int" where
  "getPreciseSigOpCountFromParsedScript scriptSig pops flags =
     (if \<not> isScriptHash pops then getSigOpCount pops True flags
      else case ParseScript scriptSig of
             (_, Some _) \<Rightarrow> 0
           | (sigPops, None) \<Rightarrow>
               if \<not> isPushOnly sigPops \<or> length sigPops = 0 then 0
               else
                 let shScript = popData (sigPops ! (length sigPops - 1))
                 in if length shScript = 0 then 0
                    else getSigOpCount (fst (ParseScript shScript)) True flags)"

definition GetPreciseSigOpCountWithFlags :: "bytes \<Rightarrow> ScriptPublicKey \<Rightarrow> ScriptFlags \<Rightarrow> int" where
  "GetPreciseSigOpCountWithFlags scriptSig scriptPubKey flags =
     getPreciseSigOpCountFromParsedScript scriptSig (fst (ParseScript (Script scriptPubKey))) flags"

definition GetPreciseSigOpCount :: "bytes \<Rightarrow> ScriptPublicKey \<Rightarrow> int" where
  "GetPreciseSigOpCount scriptSig scriptPubKey =
     GetPreciseSigOpCountWithFlags scriptSig scriptPubKey ScriptNoFlags"

definition GetPreciseSigOpCountFromParsedScript :: "bytes \<Rightarrow> parsedOpcode list \<Rightarrow> int" where
  "GetPreciseSigOpCountFromParsedScript scriptSig pops =
     getPreciseSigOpCountFromParsedScript scriptSig pops ScriptNoFlags"

section \<open>Parsing and unparsing\<close>

lemma readLen_decodeLE:
  assumes "len \<in> {- 1, - 2, - 4}" and "- len \<le> int (length b)"
  shows "readLen len b = Some (decodeLE (take (nat (- len)) b) 0 0)"
proof -
  have 1: "take 1 b = [b ! 0]" if "1 \<le> length b"
    using that by (auto simp: numeral_eq_Suc Suc_le_length_iff)
  have 2: "take 2 b = [b ! 0, b ! 1]" if "2 \<le> length b"
    using that by (auto simp: numeral_eq_Suc Suc_le_length_iff)
  have 4: "take 4 b = [b ! 0, b ! 1, b ! 2, b ! 3]" if "4 \<le> length b"
    using that by (auto simp: numeral_eq_Suc Suc_le_length_iff)
  from assms(1) consider "len = - 1" | "len = - 2" | "len = - 4" by auto
  then show ?thesis
  proof cases
    case 1
    then show ?thesis using \<open>1 \<le> length b \<Longrightarrow> take 1 b = [b ! 0]\<close> assms(2) by (simp add: readLen_def)
  next
    case 2
    then show ?thesis
      using \<open>2 \<le> length b \<Longrightarrow> take 2 b = [b ! 0, b ! 1]\<close> assms(2)
      by (simp add: readLen_def or.commute)
  next
    case 3
    then show ?thesis
      using 4 assms(2) by (simp add: readLen_def or.commute or.left_commute)
  qed
qed

lemma readLen_value:
  assumes "len \<in> {- 1, - 2, - 4}" and "- len \<le> int (length b)" and "readLen len b = Some l"
  shows "checkedUintToInt l = (int (leNat (take (nat (- len)) b)), True)"
proof -
  let ?n = "leNat (take (nat (- len)) b)"
  have "?n < 256 ^ length (take (nat (- len)) b)" by (rule leNat_less)
  also have "\<dots> \<le> 256 ^ 4" using assms(1) by (intro power_increasing) auto
  finally have n: "?n < 2 ^ 32" by simp
  have "l = word_of_nat ?n" using assms readLen_decodeLE [OF assms(1,2)] by (simp add: decodeLE_value)
  with n have l: "unat l = ?n" by (simp add: unat_of_nat)
  then have "uint l = int ?n" by (metis of_nat_unat)
  with n l show ?thesis by (simp add: checkedUintToInt_def)
qed

lemma lenPrefix_putUintLE:
  assumes "len \<in> {- 1, - 2, - 4}"
  shows "lenPrefix len l = putUintLE (nat (- len)) l"
proof -
  have k: "(2 :: nat) = Suc (Suc 0)" "(4 :: nat) = Suc (Suc (Suc (Suc 0)))" by simp_all
  have "putUintLE 2 l = [word_of_nat l, word_of_nat (l div 256)]"
    "putUintLE 4 l = [word_of_nat l, word_of_nat (l div 256), word_of_nat (l div 65536),
      word_of_nat (l div 16777216)]"
    by (simp_all only: k putUintLE.simps) (simp_all flip: div_mult2_eq)
  with assms show ?thesis by (auto simp: lenPrefix_def)
qed

text \<open>What parsing an opcode yields, in terms of the length prefix.\<close>

lemma parseData_push:
  assumes "len = opLength op" and "len \<in> {- 1, - 2, - 4}"
  shows "parseData op rest =
    (let k = nat (- len); n = leNat (take k rest)
     in if length rest < k + n then None else Some (take n (drop k rest), drop (k + n) rest))"
proof (cases "int (length rest) < - len")
  case True
  have "opLength op \<noteq> 1" "\<not> opLength op > 1" using assms by auto
  with True have "parseData op rest = None" unfolding parseData_def by (simp add: assms(1))
  moreover have "length rest < nat (- len)" using True by linarith
  ultimately show ?thesis by (simp add: Let_def)
next
  case False
  let ?k = "nat (- len)"
  let ?n = "leNat (take ?k rest)"
  let ?r = "drop ?k rest"
  from False have len: "- len \<le> int (length rest)" and k: "?k \<le> length rest" by linarith+
  let ?l = "decodeLE (take ?k rest) 0 0"
  have l: "readLen len rest = Some ?l" using assms(2) len by (rule readLen_decodeLE)
  have v: "checkedUintToInt ?l = (int ?n, True)" using assms(2) len l by (rule readLen_value)
  have "opLength op \<noteq> 1" "\<not> opLength op > 1" using assms by auto
  then have "parseData op rest = (if int ?n > int (length ?r) then None else Some (take ?n ?r, drop ?n ?r))"
    using False by (simp only: parseData_def Let_def assms(1) [symmetric] l v option.case prod.case if_False
        nat_int simp_thms of_nat_less_0_iff)
  moreover have "int ?n > int (length ?r) \<longleftrightarrow> length rest < ?k + ?n"
    unfolding of_nat_less_iff length_drop using k by (simp only: less_diff_conv2) linarith
  ultimately show ?thesis by (simp only: Let_def drop_drop add.commute)
qed

lemma parseData_fixed:
  assumes "1 \<le> opLength op"
  shows "parseData op rest =
    (let k = nat (opLength op - 1) in if length rest < k then None else Some (take k rest, drop k rest))"
  using assms by (auto simp: parseData_def Let_def)

lemma popBytes_fixed:
  assumes "1 \<le> opLength (popOpcode pop)"
  shows "popBytes pop = (if int (length (popData pop)) = opLength (popOpcode pop) - 1
    then Inr (popValue pop # popData pop) else Inl (Error (scriptError ErrInternal)))"
  using assms by (auto simp: popBytes_def Let_def)

lemma popBytes_push:
  assumes "len = opLength (popOpcode pop)" and "len \<in> {- 1, - 2, - 4}"
  shows "popBytes pop =
    (let pre = putUintLE (nat (- len)) (length (popData pop))
     in if leNat pre = length (popData pop) then Inr (popValue pop # pre @ popData pop)
        else Inl (Error (scriptError ErrInternal)))"
proof -
  have "popBytes pop =
    (let pre = lenPrefix len (length (popData pop))
     in if leNat pre = length (popData pop) then Inr (popValue pop # pre @ popData pop)
        else Inl (Error (scriptError ErrInternal)))"
    using assms by (auto simp: popBytes_def Let_def)
  then show ?thesis using assms by (simp add: lenPrefix_putUintLE)
qed

lemma popBytes_parseData:
  assumes "popBytes pop = Inr b" and "popOpcode pop = opcodeArray v"
  shows "\<exists>pre. b = popValue pop # pre \<and> parseData (popOpcode pop) (pre @ rest) = Some (popData pop, rest)"
proof (cases "1 \<le> opLength (popOpcode pop)")
  case True
  with assms(1) have "b = popValue pop # popData pop" "int (length (popData pop)) = opLength (popOpcode pop) - 1"
    by (auto simp: popBytes_fixed split: if_splits)
  then show ?thesis using True by (auto simp: parseData_fixed Let_def)
next
  case False
  then have len: "opLength (popOpcode pop) \<in> {- 1, - 2, - 4}"
    using opcodeArray_length [of v] assms(2) by auto
  let ?pre = "putUintLE (nat (- opLength (popOpcode pop))) (length (popData pop))"
  from assms(1) have "b = popValue pop # ?pre @ popData pop" "leNat ?pre = length (popData pop)"
    by (auto simp: popBytes_push [OF refl len] Let_def split: if_splits)
  then show ?thesis by (simp add: parseData_push [OF refl len] Let_def)
qed

lemma parseData_popBytes:
  assumes "parseData (opcodeArray v) rest = Some (d, rest')"
  shows "\<exists>pre. popBytes \<lparr>popOpcode = opcodeArray v, popData = d\<rparr> = Inr (opValue (opcodeArray v) # pre) \<and>
    rest = pre @ rest'"
proof (cases "1 \<le> opLength (opcodeArray v)")
  case True
  with assms show ?thesis by (auto simp: parseData_fixed popBytes_fixed Let_def split: if_splits)
next
  case False
  then have len: "opLength (opcodeArray v) \<in> {- 1, - 2, - 4}" using opcodeArray_length [of v] by auto
  let ?k = "nat (- opLength (opcodeArray v))"
  let ?n = "leNat (take ?k rest)"
  from assms have enough: "?k + ?n \<le> length rest" and d: "d = take ?n (drop ?k rest)"
    and r: "rest' = drop (?k + ?n) rest"
    by (auto simp: parseData_push [OF refl len] Let_def split: if_splits)
  from enough d have dn: "length d = ?n" by simp
  have pre: "putUintLE ?k ?n = take ?k rest" using enough by (intro putUintLE_leNat) simp
  have "popBytes \<lparr>popOpcode = opcodeArray v, popData = d\<rparr> = Inr (opValue (opcodeArray v) # take ?k rest @ d)"
    using popBytes_push [of "opLength (opcodeArray v)" "\<lparr>popOpcode = opcodeArray v, popData = d\<rparr>"] len dn pre
    by (simp add: Let_def)
  moreover have "rest = (take ?k rest @ d) @ rest'"
  proof -
    have r': "rest' = drop ?n (drop ?k rest)" using r by (simp add: add.commute)
    have "d @ rest' = drop ?k rest" unfolding d r' by (rule append_take_drop_id)
    then show ?thesis by simp
  qed
  ultimately show ?thesis by blast
qed

text \<open>The bytes of a script that the parser reads as opcodes.\<close>

function instructions :: "bytes \<Rightarrow> bytes" where
  "instructions [] = []"
| "instructions (instr # rest) =
     instr # (case parseData (opcodeArray instr) rest of None \<Rightarrow> [] | Some (d, rest') \<Rightarrow> instructions rest')"
  by pat_completeness auto
termination
  by (relation "measure length") (auto dest: parseData_length)

lemma countSkip_parseData:
  "countSkip op rest =
     (case parseData op rest of
        Some (d, rest') \<Rightarrow> Some rest'
      | None \<Rightarrow> if opLength op > 1 then Some [] else None)"
  by (auto simp: countSkip_def parseData_def Let_def simp del: length_drop split: option.split prod.split)

lemma countScriptOpcodes_eq:
  "countScriptOpcodes s = length (fst (ParseScript s)) + (if snd (ParseScript s) = None then 0 else 1)"
proof (induction s rule: ParseScript.induct)
  case (2 instr rest)
  then show ?case
    by (auto simp: Let_def countSkip_parseData split: option.split prod.split)
qed simp

lemma ParseScript_unparse:
  assumes "unparseScript pops = Inr s"
    and "\<And>pop. pop \<in> set pops \<Longrightarrow> popOpcode pop = opcodeArray (popValue pop)"
  shows "ParseScript s = (pops, None)"
  using assms
proof (induction pops arbitrary: s)
  case (Cons pop pops)
  from Cons.prems(1) obtain b t where b: "popBytes pop = Inr b" "unparseScript pops = Inr t" "s = b @ t"
    by (auto split: sum.splits)
  have op: "popOpcode pop = opcodeArray (popValue pop)" using Cons.prems(2) by simp
  obtain pre where pre: "b = popValue pop # pre"
    "parseData (popOpcode pop) (pre @ t) = Some (popData pop, t)"
    using popBytes_parseData [OF b(1) op, of t] by blast
  have "ParseScript t = (pops, None)" using Cons.IH [OF b(2)] Cons.prems(2) by simp
  moreover have "\<lparr>popOpcode = popOpcode pop, popData = popData pop\<rparr> = pop" by simp
  ultimately show ?case using b(3) pre op by (simp add: Let_def)
qed simp

lemma unparse_ParseScript:
  "ParseScript s = (pops, None) \<Longrightarrow> list_all (\<lambda>b. \<not> (178 \<le> unat b \<and> unat b < 188)) (instructions s) \<Longrightarrow>
   unparseScript pops = Inr s"
proof (induction s arbitrary: pops rule: ParseScript.induct)
  case (2 instr rest)
  from "2.prems"(1) obtain d rest' pops' where p: "parseData (opcodeArray instr) rest = Some (d, rest')"
    "ParseScript rest' = (pops', None)" "pops = \<lparr>popOpcode = opcodeArray instr, popData = d\<rparr> # pops'"
    by (auto simp: Let_def split: option.splits prod.splits)
  obtain pre where "popBytes \<lparr>popOpcode = opcodeArray instr, popData = d\<rparr> = Inr (opValue (opcodeArray instr) # pre)"
    "rest = pre @ rest'" using parseData_popBytes [OF p(1)] by blast
  moreover have "opValue (opcodeArray instr) = instr"
    using "2.prems"(2) by (intro opcodeArray_value) simp
  moreover have "unparseScript pops' = Inr rest'"
    using "2.IH" [OF refl p(1) refl] p "2.prems"(2) by simp
  ultimately show ?case using p(3) by simp
qed simp

section \<open>Properties\<close>

text \<open>C32: Unparsing a parsed script gives the script back, byte for byte, for every script that has no
  opcode byte from 178 to 187.\<close>

theorem parse_unparse_roundtrip:
  assumes "ParseScript s = (pops, None)"
    and "list_all (\<lambda>b. \<not> (178 \<le> unat b \<and> unat b < 188)) (instructions s)"
  shows "unparseScript pops = Inr s"
  using assms by (rule unparse_ParseScript)

lemma opcodeArray_0x51: "opcodeArray 0x51 = opc 0x51 1 (FConst F_opcodeN)"
  by code_simp

lemma opcodeArray_0x02: "opcodeArray 0x02 = opc 0x02 3 (FConst F_opcodePushData)"
  by code_simp

lemma opcodeArray_178: "opcodeArray 178 = opc 188 1 (FConst F_opcodeInvalid)"
  by code_simp

theorem parse_unparse_roundtrip_witness:
  "unparseScript (fst (ParseScript [0x51, 0x02, 0xb2, 0x07])) = Inr [0x51, 0x02, 0xb2, 0x07]"
  using parse_unparse_roundtrip [of "[0x51, 0x02, 0xb2, 0x07]"]
  by (simp add: Let_def opcodeArray_0x51 opcodeArray_0x02 parseData_def)

text \<open>C33: Parsing what \<open>unparseScript\<close> wrote gives the opcodes back, whenever each of
  them points to the table entry of its own value; data of every length that has an encoding
  is delimited by its length prefix alone.\<close>

theorem unparse_parse_roundtrip:
  assumes "unparseScript pops = Inr s"
    and "\<And>pop. pop \<in> set pops \<Longrightarrow> popOpcode pop = opcodeArray (popValue pop)"
  shows "ParseScript s = (pops, None)"
  using assms by (rule ParseScript_unparse)

theorem unparse_parse_roundtrip_witness:
  "ParseScript [0x02, 0xb2, 0x07] = ([\<lparr>popOpcode = opcodeArray 0x02, popData = [0xb2, 0x07]\<rparr>], None)"
  using unparse_parse_roundtrip [of "[\<lparr>popOpcode = opcodeArray 0x02, popData = [0xb2, 0x07]\<rparr>]"
      "[0x02, 0xb2, 0x07]"]
  by (simp add: opcodeArray_0x02 popBytes_def)


text \<open>C35: The capacity \<open>countScriptOpcodes\<close> computes is the number of opcodes the parser returns, plus
  one when the script is malformed: the counting pass and the parsing pass agree on every script.\<close>

theorem countScriptOpcodes_agrees:
  "countScriptOpcodes s = length (fst (ParseScript s)) + (if snd (ParseScript s) = None then 0 else 1)"
  by (rule countScriptOpcodes_eq)

lemma asSmallInt_bounds:
  assumes "Op1 \<le> opValue op" and "opValue op \<le> Op16"
  shows "1 \<le> asSmallInt op \<and> asSmallInt op \<le> 16"
proof -
  from assms have v: "81 \<le> unat (opValue op)" "unat (opValue op) \<le> 96"
    by (simp_all add: word_le_nat_alt)
  have "(0x50 :: byte) \<le> opValue op" using v(1) by (simp add: word_le_nat_alt)
  then have "unat (opValue op - 0x50) = unat (opValue op) - 80" by (simp add: unat_sub)
  then have "uint (opValue op - 0x50) = int (unat (opValue op) - 80)" by (metis of_nat_unat)
  moreover have "1 \<le> int (unat (opValue op) - 80) \<and> int (unat (opValue op) - 80) \<le> 16" using v by linarith
  moreover have "opValue op \<noteq> Op0" using v(1) by auto
  ultimately show ?thesis by (simp add: asSmallInt_def)
qed

lemma sigOpsAt_bounds:
  "0 \<le> sigOpsAt pops precise flags i \<and> sigOpsAt pops precise flags i \<le> MaxPubKeysPerMultiSig"
  "sigOpsAt pops True flags i \<le> sigOpsAt pops False flags i"
  using asSmallInt_bounds [of "popOpcode (pops ! (i - 1))"]
  by (auto simp: sigOpsAt_def Let_def MaxPubKeysPerMultiSig_def)

lemma foldl_add_sum: "foldl (\<lambda>n i. n + f i) a xs = a + (\<Sum>i\<leftarrow>xs. f i)" for f :: "nat \<Rightarrow> int"
  by (induction xs arbitrary: a) simp_all

lemma getSigOpCount_sum: "getSigOpCount pops precise flags = (\<Sum>i\<leftarrow>[0..<length pops]. sigOpsAt pops precise flags i)"
  by (simp add: getSigOpCount_def foldl_add_sum)


end
