(* ===== verification/Sig_Hash.thy ===== *)
theory Sig_Hash
  imports Script_Num Go_Sha256 Tx_Types
begin

unbundle bit_operations_syntax

text \<open>
  What a signature signs. Serialisation of elements
  (\<^verbatim>\<open>src/domain/consensus/utils/serialization/common.go\<close> over
  \<^verbatim>\<open>src/util/binaryserializer/binaryserializer.go\<close>), the domain separated hash writers
  (\<^verbatim>\<open>src/domain/consensus/utils/hashes/{domains,writers}.go\<close>) and the signature hash with its
  reused values (\<^verbatim>\<open>src/domain/consensus/utils/consensushashing/calculate_signature_hash.go\<close>).

  The keyed BLAKE3 hash is third-party code: it is the parameter \<open>blake3 key message\<close> of every
  definition that needs it. The reused values are reached through a pointer that may be nil,
  and are filled in on first use, so the functions that read them are procedures over an
  optional record.
\<close>

section \<open>Serialisation\<close>

definition PutUint8 :: "byte \<Rightarrow> bytes" where
  "PutUint8 v = [v]"

definition PutUint16 :: "16 word \<Rightarrow> bytes" where
  "PutUint16 v = putUintLE 2 (unat v)"

definition PutUint32 :: "32 word \<Rightarrow> bytes" where
  "PutUint32 v = putUintLE 4 (unat v)"

definition PutUint64 :: "64 word \<Rightarrow> bytes" where
  "PutUint64 v = putUintLE 8 (unat v)"

datatype element =
    ElBytes bytes | ElInt16 "16 word" | ElUint16 "16 word" | ElInt32 "32 word" | ElUint32 "32 word"
  | ElInt64 "64 word" | ElUint64 "64 word" | ElUint8 byte | ElBool bool | ElHash DomainHash
  | ElTransactionID DomainTransactionID | ElSubnetworkID DomainSubnetworkID

text \<open>The bytes \<open>WriteElement\<close> writes; None is an error.\<close>

fun WriteElement :: "element \<Rightarrow> bytes option" where
  "WriteElement (ElBytes e) = Some (PutUint64 (word_of_nat (length e)) @ e)"
| "WriteElement (ElInt16 e) = (if sint e < 0 then None else Some (PutUint16 e))"
| "WriteElement (ElUint16 e) = Some (PutUint16 e)"
| "WriteElement (ElInt32 e) = (if sint e < 0 then None else Some (PutUint32 e))"
| "WriteElement (ElUint32 e) = Some (PutUint32 e)"
| "WriteElement (ElInt64 e) = Some (PutUint64 e)"
| "WriteElement (ElUint64 e) = Some (PutUint64 e)"
| "WriteElement (ElUint8 e) = Some (PutUint8 e)"
| "WriteElement (ElBool e) = Some (PutUint8 (if e then 1 else 0))"
| "WriteElement (ElHash e) = Some e"
| "WriteElement (ElTransactionID e) = Some e"
| "WriteElement (ElSubnetworkID e) = Some e"

section \<open>Hash writers\<close>

type_synonym blake3 = "bytes \<Rightarrow> bytes \<Rightarrow> bytes"

datatype HashWriter = Blake3Writer bytes bytes | Sha256Writer bytes

text \<open>\<open>copy(fixedSizeKey[:], domain)\<close>: the domain's characters in a zeroed 32-byte array.\<close>

definition asBytes :: "string \<Rightarrow> bytes" where
  "asBytes s = map of_char s"

definition fixedSizeKey :: "string \<Rightarrow> bytes" where
  "fixedSizeKey domain = take 32 (asBytes domain @ replicate 32 0)"

fun InfallibleWrite :: "HashWriter \<Rightarrow> bytes \<Rightarrow> HashWriter" where
  "InfallibleWrite (Blake3Writer key buf) p = Blake3Writer key (buf @ p)"
| "InfallibleWrite (Sha256Writer buf) p = Sha256Writer (buf @ p)"

fun Finalize :: "blake3 \<Rightarrow> HashWriter \<Rightarrow> DomainHash" where
  "Finalize blake3 (Blake3Writer key buf) = blake3 key buf"
| "Finalize blake3 (Sha256Writer buf) = sha256_Sum256 buf"

definition NewTransactionSigningHashWriter :: HashWriter where
  "NewTransactionSigningHashWriter = Blake3Writer (fixedSizeKey ''TransactionSigningHash'') []"

definition NewTransactionSigningHashECDSAWriter :: HashWriter where
  "NewTransactionSigningHashECDSAWriter =
     InfallibleWrite (Sha256Writer []) (sha256_Sum256 (asBytes ''TransactionSigningHashECDSA''))"

definition NewTransactionSigningHashMLDSA44Writer :: HashWriter where
  "NewTransactionSigningHashMLDSA44Writer =
     InfallibleWrite (Sha256Writer []) (sha256_Sum256 (asBytes ''TransactionSigningHashMLDSA44''))"

definition infallibleWriteElement :: "HashWriter \<Rightarrow> element \<Rightarrow> (goError, HashWriter) result" where
  "infallibleWriteElement w element =
     (case WriteElement element of None \<Rightarrow> Inl GoPanic | Some b \<Rightarrow> Inr (InfallibleWrite w b))"

text \<open>Several elements, in order.\<close>

fun writeElements :: "HashWriter \<Rightarrow> element list \<Rightarrow> (goError, HashWriter) result" where
  "writeElements w [] = Inr w"
| "writeElements w (e # es) =
     (case infallibleWriteElement w e of Inl err \<Rightarrow> Inl err | Inr w' \<Rightarrow> writeElements w' es)"

definition hashTxOut :: "DomainTransactionOutput \<Rightarrow> element list" where
  "hashTxOut txOut =
     [ElUint64 (outValue txOut), ElUint16 (spkVersion (outScriptPublicKey txOut)),
      ElBytes (Script (outScriptPublicKey txOut))]"

definition hashOutpoint :: "DomainOutpoint \<Rightarrow> element list" where
  "hashOutpoint outpoint = [ElTransactionID (TransactionID outpoint), ElUint32 (outIndex outpoint)]"

text \<open>A fresh signing hash of a sequence of elements.\<close>

definition signingHash :: "blake3 \<Rightarrow> element list \<Rightarrow> (goError, DomainHash) result" where
  "signingHash blake3 es =
     (case writeElements NewTransactionSigningHashWriter es of
        Inl e \<Rightarrow> Inl e | Inr w \<Rightarrow> Inr (Finalize blake3 w))"

section \<open>Signature hash types\<close>

type_synonym SigHashType = byte

abbreviation SigHashAll :: SigHashType where "SigHashAll \<equiv> 1"
abbreviation SigHashNone :: SigHashType where "SigHashNone \<equiv> 2"
abbreviation SigHashSingle :: SigHashType where "SigHashSingle \<equiv> 4"
abbreviation SigHashAnyOneCanPay :: SigHashType where "SigHashAnyOneCanPay \<equiv> 0x80"
abbreviation SigHashMask :: SigHashType where "SigHashMask \<equiv> 7"

definition IsStandardSigHashType :: "SigHashType \<Rightarrow> bool" where
  "IsStandardSigHashType sht \<longleftrightarrow>
     sht \<in> {SigHashAll, SigHashNone, SigHashSingle, SigHashAll OR SigHashAnyOneCanPay,
       SigHashNone OR SigHashAnyOneCanPay, SigHashSingle OR SigHashAnyOneCanPay}"

definition isSigHashNone :: "SigHashType \<Rightarrow> bool" where
  "isSigHashNone sht \<longleftrightarrow> sht AND SigHashMask = SigHashNone"

definition isSigHashSingle :: "SigHashType \<Rightarrow> bool" where
  "isSigHashSingle sht \<longleftrightarrow> sht AND SigHashMask = SigHashSingle"

definition isSigHashAnyOneCanPay :: "SigHashType \<Rightarrow> bool" where
  "isSigHashAnyOneCanPay sht \<longleftrightarrow> sht AND SigHashAnyOneCanPay = SigHashAnyOneCanPay"

section \<open>The reused values\<close>

record SighashReusedValues =
  previousOutputsHash :: "DomainHash option"
  sequencesHash :: "DomainHash option"
  sigOpCountsHash :: "DomainHash option"
  outputsHash :: "DomainHash option"
  payloadHash :: "DomainHash option"

definition emptyReusedValues :: SighashReusedValues where
  "emptyReusedValues =
     \<lparr>previousOutputsHash = None, sequencesHash = None, sigOpCountsHash = None, outputsHash = None,
      payloadHash = None\<rparr>"

type_synonym 'a reuseProc = "(SighashReusedValues option, goError, 'a) proc"

definition previousOutputsElements :: "DomainTransaction \<Rightarrow> element list" where
  "previousOutputsElements tx = concat (map (\<lambda>txIn. hashOutpoint (PreviousOutpoint txIn)) (Inputs tx))"

definition sequencesElements :: "DomainTransaction \<Rightarrow> element list" where
  "sequencesElements tx = map (\<lambda>txIn. ElUint64 (Sequence txIn)) (Inputs tx)"

definition sigOpCountsElements :: "DomainTransaction \<Rightarrow> element list" where
  "sigOpCountsElements tx = map (\<lambda>txIn. ElUint8 (SigOpCount txIn)) (Inputs tx)"

definition outputsElements :: "DomainTransaction \<Rightarrow> element list" where
  "outputsElements tx = concat (map hashTxOut (Outputs tx))"

definition payloadElements :: "DomainTransaction \<Rightarrow> element list" where
  "payloadElements tx = [ElBytes (Payload tx)]"

definition PrecomputeSighashReusedValues ::
  "blake3 \<Rightarrow> DomainTransaction \<Rightarrow> (goError, SighashReusedValues) result" where
  "PrecomputeSighashReusedValues blake3 tx =
     fst (bnd (liftR (signingHash blake3 (previousOutputsElements tx))) (\<lambda>p.
          bnd (liftR (signingHash blake3 (sequencesElements tx))) (\<lambda>s.
          bnd (liftR (signingHash blake3 (sigOpCountsElements tx))) (\<lambda>c.
          bnd (liftR (signingHash blake3 (outputsElements tx))) (\<lambda>outs.
          bnd (if SubnetworkID tx = SubnetworkIDNative then ret NewZeroHash
               else liftR (signingHash blake3 (payloadElements tx))) (\<lambda>pl.
          ret \<lparr>previousOutputsHash = Some p, sequencesHash = Some s, sigOpCountsHash = Some c,
               outputsHash = Some outs, payloadHash = Some pl\<rparr>))))) ())"

text \<open>
  \<open>if reusedValues.f == nil { reusedValues.f = h }; return reusedValues.f\<close>: reading a field through
  a nil pointer panics.
\<close>

definition reuse ::
  "(SighashReusedValues \<Rightarrow> DomainHash option) \<Rightarrow>
   (DomainHash option \<Rightarrow> SighashReusedValues \<Rightarrow> SighashReusedValues) \<Rightarrow>
   (goError, DomainHash) result \<Rightarrow> DomainHash reuseProc" where
  "reuse field setField hash =
     bnd (gets (\<lambda>p. p)) (\<lambda>p.
     case p of
       None \<Rightarrow> panic
     | Some reusedValues \<Rightarrow>
         (case field reusedValues of
            Some h \<Rightarrow> ret h
          | None \<Rightarrow>
              bnd (liftR hash) (\<lambda>h.
              andThen (modify (map_option (setField (Some h)))) (ret h))))"

definition getPreviousOutputsHash ::
  "blake3 \<Rightarrow> DomainTransaction \<Rightarrow> SigHashType \<Rightarrow> DomainHash reuseProc" where
  "getPreviousOutputsHash blake3 tx hashType =
     (if isSigHashAnyOneCanPay hashType then ret NewZeroHash
      else reuse previousOutputsHash (\<lambda>v. previousOutputsHash_update (\<lambda>_. v))
             (signingHash blake3 (previousOutputsElements tx)))"

definition getSequencesHash ::
  "blake3 \<Rightarrow> DomainTransaction \<Rightarrow> SigHashType \<Rightarrow> DomainHash reuseProc" where
  "getSequencesHash blake3 tx hashType =
     (if isSigHashSingle hashType \<or> isSigHashAnyOneCanPay hashType \<or> isSigHashNone hashType
      then ret NewZeroHash
      else reuse sequencesHash (\<lambda>v. sequencesHash_update (\<lambda>_. v))
             (signingHash blake3 (sequencesElements tx)))"

definition getSigOpCountsHash ::
  "blake3 \<Rightarrow> DomainTransaction \<Rightarrow> SigHashType \<Rightarrow> DomainHash reuseProc" where
  "getSigOpCountsHash blake3 tx hashType =
     (if isSigHashAnyOneCanPay hashType then ret NewZeroHash
      else reuse sigOpCountsHash (\<lambda>v. sigOpCountsHash_update (\<lambda>_. v))
             (signingHash blake3 (sigOpCountsElements tx)))"

definition getOutputsHash ::
  "blake3 \<Rightarrow> DomainTransaction \<Rightarrow> int \<Rightarrow> SigHashType \<Rightarrow> DomainHash reuseProc" where
  "getOutputsHash blake3 tx inputIndex hashType =
     (if isSigHashNone hashType then ret NewZeroHash
      else if isSigHashSingle hashType
      then if inputIndex \<ge> int (length (Outputs tx)) then ret NewZeroHash
           else bnd (liftR (index (Outputs tx) inputIndex)) (\<lambda>txOut.
                liftR (signingHash blake3 (hashTxOut txOut)))
      else reuse outputsHash (\<lambda>v. outputsHash_update (\<lambda>_. v))
             (signingHash blake3 (outputsElements tx)))"

definition getPayloadHash :: "blake3 \<Rightarrow> DomainTransaction \<Rightarrow> DomainHash reuseProc" where
  "getPayloadHash blake3 tx =
     (if SubnetworkID tx = SubnetworkIDNative then ret NewZeroHash
      else reuse payloadHash (\<lambda>v. payloadHash_update (\<lambda>_. v))
             (signingHash blake3 (payloadElements tx)))"

section \<open>The signature hash\<close>

text \<open>The elements written for an input, given the five hashes.\<close>

definition sigHashElements ::
  "DomainTransaction \<Rightarrow> DomainTransactionInput \<Rightarrow> ScriptPublicKey \<Rightarrow> 64 word \<Rightarrow> SigHashType \<Rightarrow>
   DomainHash \<Rightarrow> DomainHash \<Rightarrow> DomainHash \<Rightarrow> DomainHash \<Rightarrow> DomainHash \<Rightarrow> element list" where
  "sigHashElements tx txIn prevScriptPublicKey amount hashType p s c outs pl =
     [ElUint16 (txVersion tx), ElHash p, ElHash s, ElHash c]
     @ hashOutpoint (PreviousOutpoint txIn)
     @ [ElUint16 (spkVersion prevScriptPublicKey), ElBytes (Script prevScriptPublicKey),
        ElUint64 amount, ElUint64 (Sequence txIn), ElUint8 (SigOpCount txIn), ElHash outs,
        ElUint64 (LockTime tx), ElSubnetworkID (SubnetworkID tx), ElUint64 (Gas tx), ElHash pl,
        ElUint8 hashType]"

definition calculateSignatureHash ::
  "blake3 \<Rightarrow> DomainTransaction \<Rightarrow> int \<Rightarrow> DomainTransactionInput \<Rightarrow> UTXOEntry \<Rightarrow> SigHashType \<Rightarrow>
   DomainHash reuseProc" where
  "calculateSignatureHash blake3 tx inputIndex txIn entry hashType =
     bnd (getPreviousOutputsHash blake3 tx hashType) (\<lambda>p.
     bnd (getSequencesHash blake3 tx hashType) (\<lambda>s.
     bnd (getSigOpCountsHash blake3 tx hashType) (\<lambda>c.
     bnd (getOutputsHash blake3 tx inputIndex hashType) (\<lambda>outs.
     bnd (getPayloadHash blake3 tx) (\<lambda>pl.
     liftR (signingHash blake3
       (sigHashElements tx txIn (ueScriptPublicKey entry) (ueAmount entry) hashType p s c outs pl)))))))"

text \<open>\<open>txIn.UTXOEntry.ScriptPublicKey()\<close> on a nil entry panics.\<close>

definition CalculateSignatureHashSchnorr ::
  "blake3 \<Rightarrow> DomainTransaction \<Rightarrow> int \<Rightarrow> SigHashType \<Rightarrow> DomainHash reuseProc" where
  "CalculateSignatureHashSchnorr blake3 tx inputIndex hashType =
     (if \<not> IsStandardSigHashType hashType then raise sigHashTypeError
      else
        bnd (liftR (index (Inputs tx) inputIndex)) (\<lambda>txIn.
        case utxoEntry txIn of
          None \<Rightarrow> panic
        | Some entry \<Rightarrow> calculateSignatureHash blake3 tx inputIndex txIn entry hashType))"

definition CalculateSignatureHashECDSA ::
  "blake3 \<Rightarrow> DomainTransaction \<Rightarrow> int \<Rightarrow> SigHashType \<Rightarrow> DomainHash reuseProc" where
  "CalculateSignatureHashECDSA blake3 tx inputIndex hashType =
     bnd (CalculateSignatureHashSchnorr blake3 tx inputIndex hashType) (\<lambda>hash.
     ret (Finalize blake3 (InfallibleWrite NewTransactionSigningHashECDSAWriter hash)))"

definition CalculateSignatureHashMLDSA44 ::
  "blake3 \<Rightarrow> DomainTransaction \<Rightarrow> int \<Rightarrow> SigHashType \<Rightarrow> DomainHash reuseProc" where
  "CalculateSignatureHashMLDSA44 blake3 tx inputIndex hashType =
     bnd (CalculateSignatureHashSchnorr blake3 tx inputIndex hashType) (\<lambda>hash.
     ret (Finalize blake3 (InfallibleWrite NewTransactionSigningHashMLDSA44Writer hash)))"

section \<open>The bytes that are hashed\<close>

fun elementBytes :: "element list \<Rightarrow> bytes option" where
  "elementBytes [] = Some []"
| "elementBytes (e # es) =
     (case (WriteElement e, elementBytes es) of (Some b, Some bs) \<Rightarrow> Some (b @ bs) | _ \<Rightarrow> None)"

lemma writeElements_eq:
  "writeElements w es = (case elementBytes es of None \<Rightarrow> Inl GoPanic | Some b \<Rightarrow> Inr (InfallibleWrite w b))"
proof (induction es arbitrary: w)
  case Nil
  then show ?case by (cases w) simp_all
next
  case (Cons e es)
  have app: "InfallibleWrite (InfallibleWrite w b) c = InfallibleWrite w (b @ c)" for b c
    by (cases w) simp_all
  show ?case
    by (simp add: Cons infallibleWriteElement_def app split: option.split)
qed

definition signingKey :: bytes where
  "signingKey = fixedSizeKey ''TransactionSigningHash''"

lemma signingHash_eq:
  "signingHash blake3 es =
     (case elementBytes es of None \<Rightarrow> Inl GoPanic | Some b \<Rightarrow> Inr (blake3 signingKey b))"
  by (simp add: signingHash_def writeElements_eq NewTransactionSigningHashWriter_def signingKey_def
      split: option.split)

lemma elementBytes_append:
  "elementBytes (xs @ ys) =
     (case (elementBytes xs, elementBytes ys) of (Some a, Some b) \<Rightarrow> Some (a @ b) | _ \<Rightarrow> None)"
  by (induction xs) (auto split: option.splits)

text \<open>Elements of the unsigned kinds always have bytes, so the code's panic cannot happen.\<close>

definition unsignedElement :: "element \<Rightarrow> bool" where
  "unsignedElement e \<longleftrightarrow> (case e of ElInt16 _ \<Rightarrow> False | ElInt32 _ \<Rightarrow> False | _ \<Rightarrow> True)"

lemma elementBytes_unsigned: "list_all unsignedElement es \<Longrightarrow> \<exists>b. elementBytes es = Some b"
proof (induction es)
  case (Cons e es)
  then show ?case by (cases e) (auto simp: unsignedElement_def)
qed simp

definition bytesOf :: "element list \<Rightarrow> bytes" where
  "bytesOf es = (case elementBytes es of None \<Rightarrow> [] | Some b \<Rightarrow> b)"

lemma signingHash_unsigned:
  "list_all unsignedElement es \<Longrightarrow> signingHash blake3 es = Inr (blake3 signingKey (bytesOf es))"
  using elementBytes_unsigned [of es] by (auto simp: signingHash_eq bytesOf_def)

lemma unsigned_kinds [simp]:
  "unsignedElement (ElBytes b)" "unsignedElement (ElUint16 u)" "unsignedElement (ElUint32 v)"
  "unsignedElement (ElUint64 w)" "unsignedElement (ElUint8 x)" "unsignedElement (ElHash h)"
  "unsignedElement (ElTransactionID h)" "unsignedElement (ElSubnetworkID h)"
  by (simp_all add: unsignedElement_def)

lemma unsigned_hashTxOut [simp]: "list_all unsignedElement (hashTxOut t)"
  by (simp add: hashTxOut_def)

lemma unsigned_hashOutpoint [simp]: "list_all unsignedElement (hashOutpoint t)"
  by (simp add: hashOutpoint_def)

lemma list_all_concat: "(\<And>x. list_all P (f x)) \<Longrightarrow> list_all P (concat (map f xs))"
  by (induction xs) simp_all

lemma unsigned_parts [simp]:
  "list_all unsignedElement (previousOutputsElements tx)"
  "list_all unsignedElement (sequencesElements tx)"
  "list_all unsignedElement (sigOpCountsElements tx)"
  "list_all unsignedElement (outputsElements tx)"
  "list_all unsignedElement (payloadElements tx)"
  "list_all unsignedElement (sigHashElements tx txIn spk amount ht p s c outs pl)"
  by (simp add: previousOutputsElements_def list_all_concat, simp add: sequencesElements_def list_all_iff,
      simp add: sigOpCountsElements_def list_all_iff, simp add: outputsElements_def list_all_concat,
      simp add: payloadElements_def, simp add: sigHashElements_def)

section \<open>Reuse is transparent\<close>

text \<open>\<open>sigHashOf\<close> is the hash computed from the transaction alone.\<close>

definition signing :: "blake3 \<Rightarrow> element list \<Rightarrow> DomainHash" where
  "signing blake3 es = blake3 signingKey (bytesOf es)"

definition previousOutputsOf :: "blake3 \<Rightarrow> DomainTransaction \<Rightarrow> SigHashType \<Rightarrow> DomainHash" where
  "previousOutputsOf blake3 tx hashType =
     (if isSigHashAnyOneCanPay hashType then NewZeroHash else signing blake3 (previousOutputsElements tx))"

definition sequencesOf :: "blake3 \<Rightarrow> DomainTransaction \<Rightarrow> SigHashType \<Rightarrow> DomainHash" where
  "sequencesOf blake3 tx hashType =
     (if isSigHashSingle hashType \<or> isSigHashAnyOneCanPay hashType \<or> isSigHashNone hashType
      then NewZeroHash else signing blake3 (sequencesElements tx))"

definition sigOpCountsOf :: "blake3 \<Rightarrow> DomainTransaction \<Rightarrow> SigHashType \<Rightarrow> DomainHash" where
  "sigOpCountsOf blake3 tx hashType =
     (if isSigHashAnyOneCanPay hashType then NewZeroHash else signing blake3 (sigOpCountsElements tx))"

definition outputsOf :: "blake3 \<Rightarrow> DomainTransaction \<Rightarrow> int \<Rightarrow> SigHashType \<Rightarrow> DomainHash" where
  "outputsOf blake3 tx i hashType =
     (if isSigHashNone hashType then NewZeroHash
      else if isSigHashSingle hashType
      then if i \<ge> int (length (Outputs tx)) then NewZeroHash
           else signing blake3 (hashTxOut (Outputs tx ! nat i))
      else signing blake3 (outputsElements tx))"

definition payloadOf :: "blake3 \<Rightarrow> DomainTransaction \<Rightarrow> DomainHash" where
  "payloadOf blake3 tx =
     (if SubnetworkID tx = SubnetworkIDNative then NewZeroHash else signing blake3 (payloadElements tx))"

definition sigHashMessage ::
  "blake3 \<Rightarrow> DomainTransaction \<Rightarrow> nat \<Rightarrow> UTXOEntry \<Rightarrow> SigHashType \<Rightarrow> bytes" where
  "sigHashMessage blake3 tx i entry ht =
     bytesOf (sigHashElements tx (Inputs tx ! i) (ueScriptPublicKey entry) (ueAmount entry) ht
       (previousOutputsOf blake3 tx ht) (sequencesOf blake3 tx ht) (sigOpCountsOf blake3 tx ht)
       (outputsOf blake3 tx (int i) ht) (payloadOf blake3 tx))"

text \<open>The entries of the reused values that are filled in are those of the transaction.\<close>

definition reusedSound :: "blake3 \<Rightarrow> DomainTransaction \<Rightarrow> SighashReusedValues \<Rightarrow> bool" where
  "reusedSound blake3 tx rv \<longleftrightarrow>
     previousOutputsHash rv \<in> {None, Some (signing blake3 (previousOutputsElements tx))} \<and>
     sequencesHash rv \<in> {None, Some (signing blake3 (sequencesElements tx))} \<and>
     sigOpCountsHash rv \<in> {None, Some (signing blake3 (sigOpCountsElements tx))} \<and>
     outputsHash rv \<in> {None, Some (signing blake3 (outputsElements tx))} \<and>
     (SubnetworkID tx = SubnetworkIDNative \<or>
      payloadHash rv \<in> {None, Some (signing blake3 (payloadElements tx))})"

text \<open>All of them filled in, as \<open>PrecomputeSighashReusedValues\<close> does.\<close>

definition fullReused :: "blake3 \<Rightarrow> DomainTransaction \<Rightarrow> SighashReusedValues" where
  "fullReused blake3 tx =
     \<lparr>previousOutputsHash = Some (signing blake3 (previousOutputsElements tx)),
      sequencesHash = Some (signing blake3 (sequencesElements tx)),
      sigOpCountsHash = Some (signing blake3 (sigOpCountsElements tx)),
      outputsHash = Some (signing blake3 (outputsElements tx)),
      payloadHash = Some (payloadOf blake3 tx)\<rparr>"

lemma reusedSound_full [simp]: "reusedSound blake3 tx (fullReused blake3 tx)"
  by (simp add: reusedSound_def fullReused_def payloadOf_def)

lemma reusedSound_empty [simp]: "reusedSound blake3 tx emptyReusedValues"
  by (simp add: reusedSound_def emptyReusedValues_def)

lemma Precompute_eq: "PrecomputeSighashReusedValues blake3 tx = Inr (fullReused blake3 tx)"
  by (simp add: PrecomputeSighashReusedValues_def signingHash_unsigned proc_defs fullReused_def signing_def
      payloadOf_def)

lemma reuse_Some:
  assumes "field rv \<in> {None, Some h}" and "field rv = Some h \<Longrightarrow> upd (Some h) rv = rv"
  shows "reuse field upd (Inr h) (Some rv) = (Inr h, Some (upd (Some h) rv))"
  using assms by (auto simp: reuse_def proc_defs)

lemma signingHash_parts:
  "signingHash blake3 (previousOutputsElements tx) = Inr (signing blake3 (previousOutputsElements tx))"
  "signingHash blake3 (sequencesElements tx) = Inr (signing blake3 (sequencesElements tx))"
  "signingHash blake3 (sigOpCountsElements tx) = Inr (signing blake3 (sigOpCountsElements tx))"
  "signingHash blake3 (outputsElements tx) = Inr (signing blake3 (outputsElements tx))"
  "signingHash blake3 (payloadElements tx) = Inr (signing blake3 (payloadElements tx))"
  "signingHash blake3 (hashTxOut t) = Inr (signing blake3 (hashTxOut t))"
  "signingHash blake3 (sigHashElements tx txIn spk amount ht p s c outs pl) =
     Inr (signing blake3 (sigHashElements tx txIn spk amount ht p s c outs pl))"
  by (simp_all add: signingHash_unsigned signing_def)

text \<open>
  \<open>reuseGives blake3 tx v m\<close>: on reused values that are sound for the transaction \<open>m\<close> returns \<open>v\<close>
  and leaves sound values, and on the precomputed ones it changes nothing.
\<close>

definition reuseGives :: "blake3 \<Rightarrow> DomainTransaction \<Rightarrow> 'a \<Rightarrow> 'a reuseProc \<Rightarrow> bool" where
  "reuseGives blake3 tx v m \<longleftrightarrow>
     (\<forall>rv. reusedSound blake3 tx rv \<longrightarrow>
        (\<exists>rv'. reusedSound blake3 tx rv' \<and> m (Some rv) = (Inr v, Some rv'))) \<and>
     m (Some (fullReused blake3 tx)) = (Inr v, Some (fullReused blake3 tx))"

lemma reuseGives_ret: "reuseGives blake3 tx v (ret v)"
  by (simp add: reuseGives_def ret_def)

lemma reuseGives_liftR: "r = Inr v \<Longrightarrow> reuseGives blake3 tx v (liftR r)"
  by (simp add: reuseGives_def liftR_def)

lemma reuseGives_bnd:
  assumes m: "reuseGives blake3 tx v m" and f: "reuseGives blake3 tx w (f v)"
  shows "reuseGives blake3 tx w (bnd m f)"
  unfolding reuseGives_def
proof (intro conjI allI impI)
  fix rv assume "reusedSound blake3 tx rv"
  with m obtain rv1 where 1: "reusedSound blake3 tx rv1" "m (Some rv) = (Inr v, Some rv1)"
    by (auto simp: reuseGives_def)
  with f obtain rv2 where "reusedSound blake3 tx rv2" "f v (Some rv1) = (Inr w, Some rv2)"
    by (auto simp: reuseGives_def)
  with 1 show "\<exists>rv'. reusedSound blake3 tx rv' \<and> bnd m f (Some rv) = (Inr w, Some rv')" by auto
qed (use m f in \<open>auto simp: reuseGives_def\<close>)

lemma reuseGives_reuse:
  assumes "\<And>rv. reusedSound blake3 tx rv \<Longrightarrow> field rv \<in> {None, Some h}"
    and "\<And>rv. reusedSound blake3 tx rv \<Longrightarrow> reusedSound blake3 tx (upd (Some h) rv)"
    and "\<And>rv. field rv = Some h \<Longrightarrow> upd (Some h) rv = rv"
    and "field (fullReused blake3 tx) = Some h"
  shows "reuseGives blake3 tx h (reuse field upd (Inr h))"
  unfolding reuseGives_def using assms reuse_Some [of field _ h upd] by auto

lemma reuseGives_parts:
  "reuseGives blake3 tx (previousOutputsOf blake3 tx ht) (getPreviousOutputsHash blake3 tx ht)"
  "reuseGives blake3 tx (sequencesOf blake3 tx ht) (getSequencesHash blake3 tx ht)"
  "reuseGives blake3 tx (sigOpCountsOf blake3 tx ht) (getSigOpCountsHash blake3 tx ht)"
  "0 \<le> i \<Longrightarrow> reuseGives blake3 tx (outputsOf blake3 tx i ht) (getOutputsHash blake3 tx i ht)"
  "reuseGives blake3 tx (payloadOf blake3 tx) (getPayloadHash blake3 tx)"
  by (auto simp: previousOutputsOf_def getPreviousOutputsHash_def sequencesOf_def getSequencesHash_def
      sigOpCountsOf_def getSigOpCountsHash_def outputsOf_def getOutputsHash_def payloadOf_def
      getPayloadHash_def signingHash_parts reuseGives_ret reusedSound_def fullReused_def
      intro!: reuseGives_reuse reuseGives_liftR reuseGives_bnd [OF reuseGives_liftR reuseGives_liftR])

definition sigHashOf :: "blake3 \<Rightarrow> DomainTransaction \<Rightarrow> nat \<Rightarrow> UTXOEntry \<Rightarrow> SigHashType \<Rightarrow> DomainHash" where
  "sigHashOf blake3 tx i entry ht = blake3 signingKey (sigHashMessage blake3 tx i entry ht)"

lemma reuseGives_schnorr:
  assumes "IsStandardSigHashType ht" and "0 \<le> i" and "i < int (length (Inputs tx))"
    and "utxoEntry (Inputs tx ! nat i) = Some entry"
  shows "reuseGives blake3 tx (sigHashOf blake3 tx (nat i) entry ht)
    (CalculateSignatureHashSchnorr blake3 tx i ht)"
proof -
  have "reuseGives blake3 tx (sigHashOf blake3 tx (nat i) entry ht)
      (calculateSignatureHash blake3 tx i (Inputs tx ! nat i) entry ht)"
    unfolding calculateSignatureHash_def
    by (rule reuseGives_bnd [OF reuseGives_parts(1)], rule reuseGives_bnd [OF reuseGives_parts(2)],
        rule reuseGives_bnd [OF reuseGives_parts(3)],
        rule reuseGives_bnd [OF reuseGives_parts(4)], rule assms(2),
        rule reuseGives_bnd [OF reuseGives_parts(5)], rule reuseGives_liftR)
      (use assms(2) in \<open>simp add: signingHash_parts sigHashOf_def sigHashMessage_def signing_def\<close>)
  with assms show ?thesis
    unfolding CalculateSignatureHashSchnorr_def
    by (auto intro!: reuseGives_bnd [OF reuseGives_liftR])
qed

lemma reuseGives_ecdsa:
  assumes "IsStandardSigHashType ht" and "0 \<le> i" and "i < int (length (Inputs tx))"
    and "utxoEntry (Inputs tx ! nat i) = Some entry"
  shows "\<exists>h. reuseGives blake3 tx h (CalculateSignatureHashECDSA blake3 tx i ht)"
    and "\<exists>h. reuseGives blake3 tx h (CalculateSignatureHashMLDSA44 blake3 tx i ht)"
  unfolding CalculateSignatureHashECDSA_def CalculateSignatureHashMLDSA44_def
  by (rule exI, rule reuseGives_bnd [OF reuseGives_schnorr [OF assms] reuseGives_ret])+

section \<open>The message determines what is signed\<close>

lemma putUint_lengths [simp]:
  "length (PutUint8 v8) = 1" "length (PutUint16 v16) = 2" "length (PutUint32 v32) = 4"
  "length (PutUint64 v64) = 8"
  by (simp_all add: PutUint8_def PutUint16_def PutUint32_def PutUint64_def)

lemma PutUint8_inj [simp]: "PutUint8 a = PutUint8 b \<longleftrightarrow> a = b"
  by (simp add: PutUint8_def)

lemma putUintLE_inj:
  assumes "n < 256 ^ k" and "m < 256 ^ k"
  shows "putUintLE k n = putUintLE k m \<longleftrightarrow> n = m"
  using leNat_putUintLE [OF assms(1)] leNat_putUintLE [OF assms(2)] by metis

lemma PutUint16_inj [simp]: "PutUint16 a = PutUint16 b \<longleftrightarrow> a = b"
proof -
  have "unat a < 256 ^ 2" "unat b < 256 ^ 2"
    using unsigned_less [of a, where ?'a = nat] unsigned_less [of b, where ?'a = nat] by simp_all
  then show ?thesis by (simp only: PutUint16_def putUintLE_inj word_unat_eq_iff)
qed

lemma PutUint32_inj [simp]: "PutUint32 a = PutUint32 b \<longleftrightarrow> a = b"
proof -
  have "unat a < 256 ^ 4" "unat b < 256 ^ 4"
    using unsigned_less [of a, where ?'a = nat] unsigned_less [of b, where ?'a = nat] by simp_all
  then show ?thesis by (simp only: PutUint32_def putUintLE_inj word_unat_eq_iff)
qed

lemma PutUint64_inj [simp]: "PutUint64 a = PutUint64 b \<longleftrightarrow> a = b"
proof -
  have "unat a < 256 ^ 8" "unat b < 256 ^ 8"
    using unsigned_less [of a, where ?'a = nat] unsigned_less [of b, where ?'a = nat] by simp_all
  then show ?thesis by (simp only: PutUint64_def putUintLE_inj word_unat_eq_iff)
qed

lemma app_inj: "xs @ us = ys @ vs \<Longrightarrow> length xs = length ys \<Longrightarrow> xs = ys \<and> us = vs"
  by simp

lemma PutBytes_inj:
  assumes "PutUint64 (word_of_nat (length a)) @ a @ us = PutUint64 (word_of_nat (length b)) @ b @ vs"
    and "length a < 2 ^ 64" and "length b < 2 ^ 64"
  shows "a = b \<and> us = vs"
proof -
  from assms(1) have w: "(word_of_nat (length a) :: 64 word) = word_of_nat (length b)"
    and r: "a @ us = b @ vs" by (auto dest: app_inj)
  from w have "length a mod 2 ^ 64 = length b mod 2 ^ 64"
    by (simp add: word_unat_eq_iff unat_of_nat)
  with assms(2,3) have "length a = length b" by simp
  with r show ?thesis by simp
qed

lemma sigHashElements_bytes:
  "bytesOf (sigHashElements tx txIn spk amount ht p s c outs pl) =
     PutUint16 (txVersion tx) @ p @ s @ c @ TransactionID (PreviousOutpoint txIn)
     @ PutUint32 (outIndex (PreviousOutpoint txIn)) @ PutUint16 (spkVersion spk)
     @ PutUint64 (word_of_nat (length (Script spk))) @ Script spk @ PutUint64 amount
     @ PutUint64 (Sequence txIn) @ PutUint8 (SigOpCount txIn) @ outs @ PutUint64 (LockTime tx)
     @ SubnetworkID tx @ PutUint64 (Gas tx) @ pl @ PutUint8 ht"
  by (simp add: sigHashElements_def bytesOf_def hashOutpoint_def)

lemma sigHashElements_inj:
  assumes eq: "bytesOf (sigHashElements tx txIn spk amount ht p s c outs pl)
      = bytesOf (sigHashElements tx' txIn' spk' amount' ht' p' s' c' outs' pl')"
    and len: "length p = 32" "length s = 32" "length c = 32" "length outs = 32" "length pl = 32"
      "length p' = 32" "length s' = 32" "length c' = 32" "length outs' = 32" "length pl' = 32"
      "length (TransactionID (PreviousOutpoint txIn)) = 32" "length (SubnetworkID tx) = 20"
      "length (TransactionID (PreviousOutpoint txIn')) = 32" "length (SubnetworkID tx') = 20"
      "length (Script spk) < 2 ^ 64" "length (Script spk') < 2 ^ 64"
  shows "txVersion tx = txVersion tx' \<and> p = p' \<and> s = s' \<and> c = c' \<and>
    PreviousOutpoint txIn = PreviousOutpoint txIn' \<and> spk = spk' \<and> amount = amount' \<and>
    Sequence txIn = Sequence txIn' \<and> SigOpCount txIn = SigOpCount txIn' \<and> outs = outs' \<and>
    LockTime tx = LockTime tx' \<and> SubnetworkID tx = SubnetworkID tx' \<and> Gas tx = Gas tx' \<and>
    pl = pl' \<and> ht = ht'"
proof -
  let ?tail = "\<lambda>tx txIn amount ht outs pl. PutUint64 amount @ PutUint64 (Sequence txIn)
     @ PutUint8 (SigOpCount txIn) @ outs @ PutUint64 (LockTime tx)
     @ SubnetworkID tx @ PutUint64 (Gas tx) @ pl @ PutUint8 ht"
  from eq len have head: "txVersion tx = txVersion tx'" "p = p'" "s = s'" "c = c'"
      "TransactionID (PreviousOutpoint txIn) = TransactionID (PreviousOutpoint txIn')"
      "outIndex (PreviousOutpoint txIn) = outIndex (PreviousOutpoint txIn')"
      "spkVersion spk = spkVersion spk'"
    and rest: "PutUint64 (word_of_nat (length (Script spk))) @ Script spk @ ?tail tx txIn amount ht outs pl
      = PutUint64 (word_of_nat (length (Script spk'))) @ Script spk' @ ?tail tx' txIn' amount' ht' outs' pl'"
    unfolding sigHashElements_bytes by auto
  from PutBytes_inj [OF rest len(15,16)] have "Script spk = Script spk'"
    and tail: "?tail tx txIn amount ht outs pl = ?tail tx' txIn' amount' ht' outs' pl'" by auto
  moreover from tail len have "amount = amount'" "Sequence txIn = Sequence txIn'"
      "SigOpCount txIn = SigOpCount txIn'" "outs = outs'" "LockTime tx = LockTime tx'"
      "SubnetworkID tx = SubnetworkID tx'" "Gas tx = Gas tx'" "pl = pl'" "ht = ht'" by auto
  ultimately show ?thesis using head by simp
qed

definition hash32 :: "blake3 \<Rightarrow> bool" where
  "hash32 blake3 \<longleftrightarrow> (\<forall>key m. length (blake3 key m) = 32)"

lemma length_parts [simp]:
  assumes "hash32 blake3"
  shows "length (previousOutputsOf blake3 tx ht) = 32" "length (sequencesOf blake3 tx ht) = 32"
    "length (sigOpCountsOf blake3 tx ht) = 32" "length (outputsOf blake3 tx i ht) = 32"
    "length (payloadOf blake3 tx) = 32"
  using assms
  by (auto simp: hash32_def previousOutputsOf_def sequencesOf_def sigOpCountsOf_def outputsOf_def
      payloadOf_def signing_def NewZeroHash_def)

lemma schnorr_fresh:
  assumes "IsStandardSigHashType ht" and "i < length (Inputs tx)"
    and "utxoEntry (Inputs tx ! i) = Some entry"
  shows "fst (CalculateSignatureHashSchnorr blake3 tx (int i) ht (Some emptyReusedValues))
    = Inr (sigHashOf blake3 tx i entry ht)"
proof -
  have "reuseGives blake3 tx (sigHashOf blake3 tx i entry ht) (CalculateSignatureHashSchnorr blake3 tx (int i) ht)"
    using reuseGives_schnorr [of ht "int i" tx entry blake3] assms by simp
  then obtain r where "CalculateSignatureHashSchnorr blake3 tx (int i) ht (Some emptyReusedValues)
      = (Inr (sigHashOf blake3 tx i entry ht), r)"
    using reusedSound_empty unfolding reuseGives_def by blast
  then show ?thesis by simp
qed

section \<open>Properties\<close>

text \<open>C29: Reusing hashes across the inputs of a transaction changes no signature hash. Values that are
  right for the transaction stay right, the hash returned does not depend on which of them are
  already filled in, and with the values \<open>PrecomputeSighashReusedValues\<close> returns nothing is
  written any more, so they can be shared.\<close>

theorem sighash_reuse_transparent:
  assumes "IsStandardSigHashType ht" and "i < length (Inputs tx)"
    and "utxoEntry (Inputs tx ! i) = Some entry" and "reusedSound blake3 tx rv"
  shows "(\<exists>rv'. reusedSound blake3 tx rv' \<and>
           CalculateSignatureHashSchnorr blake3 tx (int i) ht (Some rv) =
             (fst (CalculateSignatureHashSchnorr blake3 tx (int i) ht (Some emptyReusedValues)), Some rv')) \<and>
         (\<exists>pre. PrecomputeSighashReusedValues blake3 tx = Inr pre \<and> reusedSound blake3 tx pre \<and>
           CalculateSignatureHashSchnorr blake3 tx (int i) ht (Some pre) =
             (fst (CalculateSignatureHashSchnorr blake3 tx (int i) ht (Some emptyReusedValues)), Some pre))"
proof -
  let ?calc = "CalculateSignatureHashSchnorr blake3 tx (int i) ht"
  let ?h = "sigHashOf blake3 tx i entry ht"
  have gives: "reuseGives blake3 tx ?h ?calc"
    using reuseGives_schnorr [of ht "int i" tx entry blake3] assms by simp
  have g: "\<exists>r'. reusedSound blake3 tx r' \<and> ?calc (Some r) = (Inr ?h, Some r')"
    if "reusedSound blake3 tx r" for r
    using gives that unfolding reuseGives_def by blast
  have f: "?calc (Some (fullReused blake3 tx)) = (Inr ?h, Some (fullReused blake3 tx))"
    using gives unfolding reuseGives_def by blast
  have "fst (?calc (Some emptyReusedValues)) = Inr ?h" using assms by (simp add: schnorr_fresh)
  with g [OF assms(4)] f show ?thesis by (simp add: Precompute_eq)
qed

definition exampleEntry :: UTXOEntry where
  "exampleEntry =
     \<lparr>ueAmount = 5, ueScriptPublicKey = \<lparr>Script = [0x51], spkVersion = 0\<rparr>, ueBlockDAAScore = 0,
      ueIsCoinbase = False\<rparr>"

definition exampleTx :: DomainTransaction where
  "exampleTx =
     \<lparr>txVersion = 0,
      Inputs = [\<lparr>PreviousOutpoint = \<lparr>TransactionID = replicate 32 7, outIndex = 1\<rparr>, SignatureScript = [0x51],
        Sequence = 0, SigOpCount = 1, utxoEntry = Some exampleEntry\<rparr>],
      Outputs = [], LockTime = 0, SubnetworkID = SubnetworkIDNative, Gas = 0, Payload = [], Fee = 0,
      Mass = 0, cachedID = None\<rparr>"

lemma exampleTx_facts [simp]:
  "length (Inputs exampleTx) = 1" "utxoEntry (Inputs exampleTx ! 0) = Some exampleEntry"
  "wfTx exampleTx" "wfTx (exampleTx\<lparr>Fee := 9\<rparr>)" "Fee exampleTx = 0"
  "length (Script (ueScriptPublicKey exampleEntry)) < 2 ^ 64"
  "IsStandardSigHashType 1" "IsStandardSigHashType 2" "isSigHashNone 2"
  by (simp_all add: exampleTx_def exampleEntry_def wfTx_def wfInput_def DomainHashSize_def
      DomainSubnetworkIDSize_def SubnetworkIDNative_def IsStandardSigHashType_def isSigHashNone_def)

theorem sighash_reuse_transparent_witness:
  "\<exists>pre. PrecomputeSighashReusedValues (\<lambda>key m. replicate 32 1) exampleTx = Inr pre \<and>
     CalculateSignatureHashSchnorr (\<lambda>key m. replicate 32 1) exampleTx 0 1 (Some pre) =
       (fst (CalculateSignatureHashSchnorr (\<lambda>key m. replicate 32 1) exampleTx 0 1 (Some emptyReusedValues)),
        Some pre)"
  using sighash_reuse_transparent [of 1 0 exampleTx exampleEntry "\<lambda>key m. replicate 32 1" emptyReusedValues]
  by auto


lemma sigHashMessage_Fee: "sigHashMessage blake3 (tx\<lparr>Fee := f\<rparr>) i e ht = sigHashMessage blake3 tx i e ht"
  by (simp add: sigHashMessage_def sigHashElements_def previousOutputsOf_def sequencesOf_def sigOpCountsOf_def
      outputsOf_def payloadOf_def previousOutputsElements_def sequencesElements_def sigOpCountsElements_def
      outputsElements_def payloadElements_def)




end
