(* ===== verification/Sig_Cache.thy ===== *)
theory Sig_Cache
  imports Sig_Hash
begin

text \<open>
  Signature verification and its caches:
  \<^verbatim>\<open>src/domain/consensus/utils/txscript/{sigcache,sigcache_ecdsa,sigcache_mldsa44}.go\<close>.

  The cryptographic libraries are third-party code and enter as the fields of the record \<open>lib\<close>:
  hash functions, parsers that may reject, verification predicates and equality tests; the type
  parameter stands for the library's parsed keys and signatures. Which entry a
  full cache drops is up to the iteration order of a Go map, the field \<open>evict\<close>. A Go map is an association list
  with distinct keys. The two signature caches differ in the library calls only, so they share their
  definitions, instantiated at the two schemes.
\<close>

section \<open>The libraries\<close>

record 'k scheme =
  parsePubKey :: "bytes \<Rightarrow> 'k option"
  parseSig :: "bytes \<Rightarrow> 'k option"
  sigVerify :: "'k \<Rightarrow> bytes \<Rightarrow> 'k \<Rightarrow> bool"
  pubKeyIsEqual :: "'k \<Rightarrow> 'k \<Rightarrow> bool"
  sigIsEqual :: "'k \<Rightarrow> 'k \<Rightarrow> bool"

record 'k lib =
  libBlake3 :: blake3
  blake2b_Sum256 :: "bytes \<Rightarrow> bytes"
  schnorr :: "'k scheme"
  ecdsa :: "'k scheme"
  mldsa44_UnmarshalBinary :: "bytes \<Rightarrow> 'k option"
  mldsa44_Verify :: "'k \<Rightarrow> bytes \<Rightarrow> bytes \<Rightarrow> bytes \<Rightarrow> bool"
  evict :: "bytes list \<Rightarrow> nat"

abbreviation mldsa44_PublicKeySize :: nat where "mldsa44_PublicKeySize \<equiv> 1312"
abbreviation mldsa44_SignatureSize :: nat where "mldsa44_SignatureSize \<equiv> 2420"

text \<open>What the code relies on: equality tests are not true of different keys or signatures, and the hash
  functions return 32 bytes.\<close>

definition schemeOk :: "'k scheme \<Rightarrow> bool" where
  "schemeOk sch \<longleftrightarrow>
     (\<forall>a b. pubKeyIsEqual sch a b \<longrightarrow> a = b) \<and> (\<forall>a b. sigIsEqual sch a b \<longrightarrow> a = b)"

definition libOk :: "'k lib \<Rightarrow> bool" where
  "libOk L \<longleftrightarrow>
     hash32 (libBlake3 L) \<and> (\<forall>m. length (blake2b_Sum256 L m) = 32) \<and>
     schemeOk (schnorr L) \<and> schemeOk (ecdsa L)"

section \<open>Go maps\<close>

definition mapDelete :: "bytes \<Rightarrow> (bytes \<times> 'v) list \<Rightarrow> (bytes \<times> 'v) list" where
  "mapDelete k m = filter (\<lambda>(k', _). k' \<noteq> k) m"

definition mapUpdate :: "bytes \<Rightarrow> 'v \<Rightarrow> (bytes \<times> 'v) list \<Rightarrow> (bytes \<times> 'v) list" where
  "mapUpdate k v m = (k, v) # mapDelete k m"

text \<open>\<open>for k := range m { delete(m, k); break }\<close>\<close>

definition evictOne :: "(bytes list \<Rightarrow> nat) \<Rightarrow> (bytes \<times> 'v) list \<Rightarrow> (bytes \<times> 'v) list" where
  "evictOne pick m =
     (if m = [] then m
      else let keys = map fst m in mapDelete (keys ! (pick keys mod length keys)) m)"

lemma map_of_mapDelete: "map_of (mapDelete k m) k' = (if k' = k then None else map_of m k')"
  by (induction m) (auto simp: mapDelete_def)

lemma map_of_mapUpdate: "map_of (mapUpdate k v m) k' = (if k' = k then Some v else map_of m k')"
  by (simp add: mapUpdate_def map_of_mapDelete)

lemma set_mapDelete: "set (mapDelete k m) \<subseteq> set m"
  by (auto simp: mapDelete_def)

lemma set_mapUpdate: "set (mapUpdate k v m) \<subseteq> insert (k, v) (set m)"
  using set_mapDelete by (auto simp: mapUpdate_def)

lemma set_evictOne: "set (evictOne pick m) \<subseteq> set m"
  using set_mapDelete by (auto simp: evictOne_def Let_def)

lemma length_mapDelete: "length (mapDelete k m) \<le> length m"
  by (simp add: mapDelete_def)

lemma length_mapDelete_less: "k \<in> fst ` set m \<Longrightarrow> length (mapDelete k m) < length m"
  unfolding mapDelete_def by (auto intro: length_filter_less)

lemma length_mapUpdate: "length (mapUpdate k v m) \<le> Suc (length m)"
  by (simp add: mapUpdate_def length_mapDelete)

lemma length_evictOne: "m \<noteq> [] \<Longrightarrow> length (evictOne pick m) < length m"
  unfolding evictOne_def Let_def
  by (auto intro!: length_mapDelete_less intro: nth_mem simp flip: set_map)

section \<open>The Schnorr and ECDSA caches\<close>

record 'k sigCacheEntry =
  entrySig :: 'k
  entryPubKey :: 'k

record 'k SigCache =
  validSigs :: "(bytes \<times> 'k sigCacheEntry) list"
  maxEntries :: nat

definition NewSigCache :: "nat \<Rightarrow> 'k SigCache" where
  "NewSigCache n = \<lparr>validSigs = [], maxEntries = n\<rparr>"

definition Exists :: "'k scheme \<Rightarrow> 'k SigCache \<Rightarrow> bytes \<Rightarrow> 'k \<Rightarrow> 'k \<Rightarrow> bool" where
  "Exists sch s sigHash sig pubKey =
     (case map_of (validSigs s) sigHash of
        None \<Rightarrow> False
      | Some entry \<Rightarrow>
          pubKeyIsEqual sch (entryPubKey entry) pubKey \<and> sigIsEqual sch (entrySig entry) sig)"

definition Add :: "(bytes list \<Rightarrow> nat) \<Rightarrow> 'k SigCache \<Rightarrow> bytes \<Rightarrow> 'k \<Rightarrow> 'k \<Rightarrow> 'k SigCache" where
  "Add pick s sigHash sig pubKey =
     (if maxEntries s = 0 then s
      else
        let m = (if length (validSigs s) + 1 > maxEntries s then evictOne pick (validSigs s)
                 else validSigs s)
        in s\<lparr>validSigs := mapUpdate sigHash \<lparr>entrySig = sig, entryPubKey = pubKey\<rparr> m\<rparr>)"

text \<open>
  The verification pattern of the signature opcodes:
  \<open>if cache != nil { valid = cache.Exists(...); if !valid && verify(...) { cache.Add(...); valid = true } }
  else { valid = verify(...) }\<close>.
\<close>

definition verifyCached ::
  "(bytes list \<Rightarrow> nat) \<Rightarrow> 'k scheme \<Rightarrow> bytes \<Rightarrow> 'k \<Rightarrow> 'k \<Rightarrow> 'k SigCache option \<Rightarrow> bool \<times> 'k SigCache option" where
  "verifyCached pick sch secpHash signature pubKey cache =
     (case cache of
        None \<Rightarrow> (sigVerify sch pubKey secpHash signature, None)
      | Some s \<Rightarrow>
          let valid = Exists sch s secpHash signature pubKey
          in if \<not> valid \<and> sigVerify sch pubKey secpHash signature
             then (True, Some (Add pick s secpHash signature pubKey))
             else (valid, Some s))"

section \<open>The contract of a cache\<close>

text \<open>
  What the opcodes need of a cache: a hit is the answer verification gives, and recording
  a query that verified keeps it so.
\<close>

locale verification_cache =
  fixes hit :: "'c \<Rightarrow> 'q \<Rightarrow> bool"
    and record_query :: "'c \<Rightarrow> 'q \<Rightarrow> 'c"
    and sound :: "'c \<Rightarrow> bool"
    and good :: "'q \<Rightarrow> bool"
  assumes hit_good: "sound c \<Longrightarrow> hit c q \<Longrightarrow> good q"
    and record_sound: "sound c \<Longrightarrow> good q \<Longrightarrow> sound (record_query c q)"
begin

definition ask :: "'q \<Rightarrow> 'c option \<Rightarrow> bool \<times> 'c option" where
  "ask q cache =
     (case cache of
        None \<Rightarrow> (good q, None)
      | Some c \<Rightarrow> if \<not> hit c q \<and> good q then (True, Some (record_query c q)) else (hit c q, Some c))"

definition soundOpt :: "'c option \<Rightarrow> bool" where
  "soundOpt cache \<longleftrightarrow> (case cache of None \<Rightarrow> True | Some c \<Rightarrow> sound c)"

lemma ask_transparent: "soundOpt cache \<Longrightarrow> fst (ask q cache) = good q"
  using hit_good by (auto simp: ask_def soundOpt_def split: option.splits)

lemma ask_sound: "soundOpt cache \<Longrightarrow> soundOpt (snd (ask q cache))"
  using record_sound by (auto simp: ask_def soundOpt_def split: option.splits)

lemma ask_None: "ask q None = (good q, None)"
  by (simp add: ask_def)

end

definition cacheSound :: "'k scheme \<Rightarrow> 'k SigCache \<Rightarrow> bool" where
  "cacheSound sch s \<longleftrightarrow>
     schemeOk sch \<and>
     (\<forall>(h, entry) \<in> set (validSigs s). sigVerify sch (entryPubKey entry) h (entrySig entry))"

lemma cacheSound_Add:
  assumes "cacheSound sch s" and "sigVerify sch pubKey h sig"
  shows "cacheSound sch (Add pick s h sig pubKey)"
proof -
  let ?m = "if length (validSigs s) + 1 > maxEntries s then evictOne pick (validSigs s) else validSigs s"
  have "set (mapUpdate h \<lparr>entrySig = sig, entryPubKey = pubKey\<rparr> ?m)
      \<subseteq> insert (h, \<lparr>entrySig = sig, entryPubKey = pubKey\<rparr>) (set (validSigs s))"
    by (auto dest!: subsetD [OF set_mapUpdate] subsetD [OF set_evictOne] split: if_splits)
  with assms show ?thesis by (auto simp: cacheSound_def Add_def Let_def)
qed

lemma cacheSound_Exists:
  assumes "cacheSound sch s" and "Exists sch s h sig pubKey"
  shows "sigVerify sch pubKey h sig"
proof -
  from assms(2) obtain entry where e: "map_of (validSigs s) h = Some entry"
    "pubKeyIsEqual sch (entryPubKey entry) pubKey" "sigIsEqual sch (entrySig entry) sig"
    by (auto simp: Exists_def split: option.splits)
  from e(1) have "(h, entry) \<in> set (validSigs s)" by (rule map_of_SomeD)
  with assms(1) have "sigVerify sch (entryPubKey entry) h (entrySig entry)"
    by (auto simp: cacheSound_def)
  with e assms(1) show ?thesis by (auto simp: cacheSound_def schemeOk_def)
qed

interpretation sc: verification_cache
  "\<lambda>s (h, sig, pubKey). Exists sch s h sig pubKey"
  "\<lambda>s (h, sig, pubKey). Add pick s h sig pubKey"
  "cacheSound sch"
  "\<lambda>(h, sig, pubKey). sigVerify sch pubKey h sig" for sch pick
  by unfold_locales (auto simp: cacheSound_Exists cacheSound_Add)

lemma verifyCached_ask: "verifyCached pick sch h sig pubKey cache = sc.ask sch pick (h, sig, pubKey) cache"
  by (simp add: verifyCached_def sc.ask_def Let_def split: option.split)

section \<open>The ML-DSA-44 cache\<close>

record 'k MLDSA44Cache =
  mlValidSigs :: "(bytes \<times> unit) list"
  maxValidSigs :: nat
  mlPublicKeys :: "(bytes \<times> 'k) list"
  maxPublicKeys :: nat

definition NewMLDSA44Cache :: "nat \<Rightarrow> nat \<Rightarrow> 'k MLDSA44Cache" where
  "NewMLDSA44Cache maxSigs maxKeys =
     \<lparr>mlValidSigs = [], maxValidSigs = maxSigs, mlPublicKeys = [], maxPublicKeys = maxKeys\<rparr>"

definition mldsa44SigCacheKey :: "'k lib \<Rightarrow> bytes \<Rightarrow> bytes \<Rightarrow> bytes \<Rightarrow> bytes" where
  "mldsa44SigCacheKey L sigHash pkBytes sigBytes = blake2b_Sum256 L (sigHash @ pkBytes @ sigBytes)"

definition addWithRandomEviction ::
  "(bytes list \<Rightarrow> nat) \<Rightarrow> (bytes \<times> 'v) list \<Rightarrow> nat \<Rightarrow> bytes \<Rightarrow> 'v \<Rightarrow> (bytes \<times> 'v) list" where
  "addWithRandomEviction pick entries maxN key v =
     (if maxN = 0 then entries
      else
        let entries' = (if map_of entries key = None \<and> length entries \<ge> maxN
                        then evictOne pick entries else entries)
        in mapUpdate key v entries')"

text \<open>\<open>MLDSA44Cache.verify\<close>: the verdicts \<open>(valid, parsed)\<close> and the cache.\<close>

definition mldsa44_verify ::
  "'k lib \<Rightarrow> bytes \<Rightarrow> bytes \<Rightarrow> bytes \<Rightarrow> 'k MLDSA44Cache option \<Rightarrow> (bool \<times> bool) \<times> 'k MLDSA44Cache option" where
  "mldsa44_verify L sigHash pkBytes sigBytes cache =
     (case cache of
        None \<Rightarrow>
          (case mldsa44_UnmarshalBinary L pkBytes of
             None \<Rightarrow> ((False, False), None)
           | Some publicKey \<Rightarrow> ((mldsa44_Verify L publicKey sigHash [] sigBytes, True), None))
      | Some c \<Rightarrow>
          let sigKey = mldsa44SigCacheKey L sigHash pkBytes sigBytes;
              publicKeyKey = blake2b_Sum256 L pkBytes
          in if map_of (mlValidSigs c) sigKey \<noteq> None then ((True, True), Some c)
             else
               let cached = map_of (mlPublicKeys c) publicKeyKey
               in case (case cached of Some k \<Rightarrow> Some k | None \<Rightarrow> mldsa44_UnmarshalBinary L pkBytes) of
                    None \<Rightarrow> ((False, False), Some c)
                  | Some publicKey \<Rightarrow>
                      if \<not> mldsa44_Verify L publicKey sigHash [] sigBytes then ((False, True), Some c)
                      else
                        let c1 = c\<lparr>mlValidSigs :=
                              addWithRandomEviction (evict L) (mlValidSigs c) (maxValidSigs c) sigKey ()\<rparr>;
                            c2 = (if cached = None
                                  then c1\<lparr>mlPublicKeys :=
                                    addWithRandomEviction (evict L) (mlPublicKeys c1) (maxPublicKeys c1)
                                      publicKeyKey publicKey\<rparr>
                                  else c1)
                        in ((True, True), Some c2))"

text \<open>The cache holds only what the verified triples of a log account for.\<close>

definition mlValid :: "'k lib \<Rightarrow> bytes \<times> bytes \<times> bytes \<Rightarrow> bool" where
  "mlValid L = (\<lambda>(h, pk, sig).
     \<exists>k. mldsa44_UnmarshalBinary L pk = Some k \<and> mldsa44_Verify L k h [] sig)"

definition mlSound :: "'k lib \<Rightarrow> (bytes \<times> bytes \<times> bytes) list \<Rightarrow> 'k MLDSA44Cache \<Rightarrow> bool" where
  "mlSound L log c \<longleftrightarrow>
     list_all (mlValid L) log \<and>
     (\<forall>(key, _) \<in> set (mlValidSigs c). \<exists>(h, pk, sig) \<in> set log. key = mldsa44SigCacheKey L h pk sig) \<and>
     (\<forall>(key, k) \<in> set (mlPublicKeys c). \<exists>(h, pk, sig) \<in> set log.
        key = blake2b_Sum256 L pk \<and> mldsa44_UnmarshalBinary L pk = Some k)"

text \<open>No logged triple collides with the query, neither as a signature key nor as a public key.\<close>

definition mlNoCollision ::
  "'k lib \<Rightarrow> (bytes \<times> bytes \<times> bytes) list \<Rightarrow> bytes \<Rightarrow> bytes \<Rightarrow> bytes \<Rightarrow> bool" where
  "mlNoCollision L log h pk sig \<longleftrightarrow>
     (\<forall>(h', pk', sig') \<in> set log.
        (mldsa44SigCacheKey L h' pk' sig' = mldsa44SigCacheKey L h pk sig \<longrightarrow>
           h' = h \<and> pk' = pk \<and> sig' = sig) \<and>
        (blake2b_Sum256 L pk' = blake2b_Sum256 L pk \<longrightarrow> pk' = pk))"

lemma set_addWithRandomEviction:
  "set (addWithRandomEviction pick entries n key v) \<subseteq> insert (key, v) (set entries)"
  by (auto simp: addWithRandomEviction_def Let_def dest!: subsetD [OF set_mapUpdate] subsetD [OF set_evictOne]
      split: if_splits)

lemma length_addWithRandomEviction:
  assumes "length entries \<le> n"
  shows "length (addWithRandomEviction pick entries n key v) \<le> n"
proof (cases "map_of entries key = None")
  case True
  have "0 < n \<Longrightarrow> n \<le> length entries \<Longrightarrow> length (evictOne pick entries) < n"
    using length_evictOne [of entries pick] assms by auto
  with True assms length_mapUpdate [of key v entries] length_mapUpdate [of key v "evictOne pick entries"]
  show ?thesis by (auto simp: addWithRandomEviction_def Let_def)
next
  case False
  then have "length (mapDelete key entries) < length entries"
    by (intro length_mapDelete_less) (simp add: map_of_eq_None_iff)
  with False assms show ?thesis by (auto simp: addWithRandomEviction_def Let_def mapUpdate_def)
qed

section \<open>Properties\<close>

lemma length_Add:
  assumes "length (validSigs s) \<le> maxEntries s"
  shows "length (validSigs (Add pick s h sig pubKey)) \<le> maxEntries s"
proof -
  let ?e = "\<lparr>entrySig = sig, entryPubKey = pubKey\<rparr>"
  have "0 < maxEntries s \<Longrightarrow> maxEntries s < Suc (length (validSigs s)) \<Longrightarrow>
      length (evictOne pick (validSigs s)) < maxEntries s"
    using length_evictOne [of "validSigs s" pick] assms by (cases "validSigs s = []") simp_all
  with assms length_mapUpdate [of h ?e "validSigs s"] length_mapUpdate [of h ?e "evictOne pick (validSigs s)"]
  show ?thesis by (auto simp: Add_def Let_def)
qed

text \<open>C27: The signature cache is transparent. With a cache that holds verified signatures only, the
  cached check of the opcodes answers exactly what verification answers without a cache; what it leaves
  behind again holds verified signatures only and no more entries than the maximum,
  whatever entry the map iteration evicts.\<close>

theorem sigCache_transparent:
  assumes "cacheSound sch s" and "length (validSigs s) \<le> maxEntries s"
  shows "fst (verifyCached pick sch h sig pubKey (Some s)) = fst (verifyCached pick sch h sig pubKey None) \<and>
    (\<exists>s'. snd (verifyCached pick sch h sig pubKey (Some s)) = Some s' \<and> cacheSound sch s' \<and>
      maxEntries s' = maxEntries s \<and> length (validSigs s') \<le> maxEntries s')"
proof -
  have "fst (verifyCached pick sch h sig pubKey (Some s)) = fst (verifyCached pick sch h sig pubKey None)"
    unfolding verifyCached_ask using assms(1)
    by (simp add: sc.ask_transparent sc.soundOpt_def)
  moreover have "maxEntries (Add pick s h sig pubKey) = maxEntries s"
    by (simp add: Add_def Let_def)
  ultimately show ?thesis
    using assms by (auto simp: verifyCached_def Let_def cacheSound_Add length_Add)
qed

definition toyScheme :: "bytes scheme" where
  "toyScheme = \<lparr>parsePubKey = Some, parseSig = Some, sigVerify = (\<lambda>k h sig. sig = k @ h),
     pubKeyIsEqual = (=), sigIsEqual = (=)\<rparr>"

theorem sigCache_transparent_witness:
  "fst (verifyCached (\<lambda>_. 0) toyScheme [2] [1, 2] [1]
     (Some \<lparr>validSigs = [([9], \<lparr>entrySig = [1, 9], entryPubKey = [1]\<rparr>)], maxEntries = 1\<rparr>))"
  using sigCache_transparent
    [of toyScheme "\<lparr>validSigs = [([9], \<lparr>entrySig = [1, 9], entryPubKey = [1]\<rparr>)], maxEntries = 1\<rparr>"
      "\<lambda>_. 0" "[2]" "[1, 2]" "[1]"]
  by (simp add: toyScheme_def cacheSound_def schemeOk_def verifyCached_def)

lemma mlSound_hit:
  assumes "mlSound L log c" and "mlNoCollision L log h pk sig"
    and "map_of (mlValidSigs c) (mldsa44SigCacheKey L h pk sig) \<noteq> None"
  shows "mlValid L (h, pk, sig)"
proof -
  from assms(3) obtain u where "(mldsa44SigCacheKey L h pk sig, u) \<in> set (mlValidSigs c)"
    by (auto dest: map_of_SomeD)
  with assms(1) obtain h' pk' sig' where "(h', pk', sig') \<in> set log"
    "mldsa44SigCacheKey L h pk sig = mldsa44SigCacheKey L h' pk' sig'" "mlValid L (h', pk', sig')"
    by (fastforce simp: mlSound_def list_all_iff)
  with assms(2) show ?thesis by (fastforce simp: mlNoCollision_def)
qed

lemma mlSound_key:
  assumes "mlSound L log c" and "mlNoCollision L log h pk sig"
    and "map_of (mlPublicKeys c) (blake2b_Sum256 L pk) = Some k"
  shows "mldsa44_UnmarshalBinary L pk = Some k"
proof -
  from assms(3) have "(blake2b_Sum256 L pk, k) \<in> set (mlPublicKeys c)" by (rule map_of_SomeD)
  with assms(1) obtain h' pk' sig' where "(h', pk', sig') \<in> set log"
    "blake2b_Sum256 L pk = blake2b_Sum256 L pk'" "mldsa44_UnmarshalBinary L pk' = Some k"
    by (fastforce simp: mlSound_def)
  with assms(2) show ?thesis by (fastforce simp: mlNoCollision_def)
qed

text \<open>A hit on the key cache saves the parsing and nothing else.\<close>

lemma mldsa44_verify_cached:
  assumes "mlSound L log c" and "mlNoCollision L log h pk sig"
  shows "fst (mldsa44_verify L h pk sig (Some c)) = fst (mldsa44_verify L h pk sig None)"
  using mlSound_hit [OF assms] mlSound_key [OF assms]
  by (auto simp: mldsa44_verify_def mlValid_def Let_def split: option.splits)

lemma mlSound_add_sig:
  assumes "mlSound L log c" and "mlValid L (h, pk, sig)"
  shows "mlSound L ((h, pk, sig) # log)
    (c\<lparr>mlValidSigs := addWithRandomEviction pick (mlValidSigs c) n (mldsa44SigCacheKey L h pk sig) ()\<rparr>)"
  using assms
  by (fastforce simp: mlSound_def dest!: subsetD [OF set_addWithRandomEviction])

lemma mlSound_add_key:
  assumes "mlSound L log c" and "(h, pk, sig) \<in> set log" and "mldsa44_UnmarshalBinary L pk = Some k"
  shows "mlSound L log
    (c\<lparr>mlPublicKeys := addWithRandomEviction pick (mlPublicKeys c) n (blake2b_Sum256 L pk) k\<rparr>)"
  using assms
  by (fastforce simp: mlSound_def dest!: subsetD [OF set_addWithRandomEviction])

lemma mlSound_weaken: "mlSound L log c \<Longrightarrow> mlValid L q \<Longrightarrow> mlSound L (q # log) c"
  by (fastforce simp: mlSound_def)


definition toyLib :: "bytes lib" where
  "toyLib = \<lparr>libBlake3 = (\<lambda>key m. take 32 (m @ replicate 32 0)), blake2b_Sum256 = (\<lambda>m. take 32 (m @ replicate 32 0)),
     schnorr = toyScheme, ecdsa = toyScheme, mldsa44_UnmarshalBinary = Some,
     mldsa44_Verify = (\<lambda>k h ctx sig. sig = k @ h), evict = (\<lambda>_. 0)\<rparr>"


end
