(* ===== verification/Script_Engine.thy ===== *)
theory Script_Engine
  imports Script_Parse Sig_Cache
begin

text \<open>
  The state of the script engine, \<^verbatim>\<open>src/domain/consensus/utils/txscript/engine.go\<close>:
  the record \<open>Engine\<close> has the fields of the struct, a handler is a procedure on it. The caches and the
  reused hash values, which the struct points to, are part of the state, \<open>None\<close> for a nil pointer.
  The contract of the engine fixes what every handler keeps: the size limit of the stack elements,
  the operation count, the soundness of the caches and of the reused values; it also says that neither the
  caches nor the reused values influence a result.
\<close>

section \<open>The engine\<close>

abbreviation MaxStackSize :: int where "MaxStackSize \<equiv> 244"
abbreviation MaxScriptSize :: nat where "MaxScriptSize \<equiv> 10000"

record 'k Engine =
  scriptVersion :: "16 word"
  scripts :: "parsedOpcode list list"
  scriptIdx :: nat
  scriptOff :: nat
  dstack :: stack
  astack :: stack
  vtx :: DomainTransaction
  vtxIdx :: int
  condStack :: "nat list"
  numOps :: int
  vflags :: ScriptFlags
  sigCache :: "'k SigCache option"
  sigCacheECDSA :: "'k SigCache option"
  mldsa44Cache :: "'k MLDSA44Cache option"
  sigHashReusedValues :: "SighashReusedValues option"
  isP2SH :: bool
  savedFirstStack :: "bytes list"

type_synonym ('k, 'a) engineProc = "('k Engine, goError, 'a) proc"

definition dstackDo :: "'a stackProc \<Rightarrow> ('k, 'a) engineProc" where
  "dstackDo = onField dstack (\<lambda>t vm. vm\<lparr>dstack := t\<rparr>)"

definition astackDo :: "'a stackProc \<Rightarrow> ('k, 'a) engineProc" where
  "astackDo = onField astack (\<lambda>t vm. vm\<lparr>astack := t\<rparr>)"

definition isBranchExecuting :: "'k Engine \<Rightarrow> bool" where
  "isBranchExecuting vm =
     (if length (condStack vm) = 0 then True
      else condStack vm ! (length (condStack vm) - 1) = OpCondTrue)"

text \<open>\<open>vm.numOps += n\<close> and the check that follows it.\<close>

definition addOps :: "int \<Rightarrow> ('k, unit) engineProc" where
  "addOps n =
     andThen (modify (\<lambda>vm. vm\<lparr>numOps := numOps vm + n\<rparr>))
     (bnd (gets numOps) (\<lambda>k.
     if k > MaxOpsPerScript then raise (scriptError ErrTooManyOperations) else ret ()))"

definition checkPubKeyEncoding :: "bytes \<Rightarrow> (goError, unit) result" where
  "checkPubKeyEncoding pubKey =
     (if length pubKey = 32 then Inr () else Inl (Error (scriptError ErrPubKeyFormat)))"

definition checkPubKeyEncodingECDSA :: "bytes \<Rightarrow> (goError, unit) result" where
  "checkPubKeyEncodingECDSA pubKey =
     (if length pubKey = 33 then Inr () else Inl (Error (scriptError ErrPubKeyFormat)))"

definition checkSignatureLength :: "bytes \<Rightarrow> (goError, unit) result" where
  "checkSignatureLength sig =
     (if length sig \<noteq> 64 then Inl (Error (scriptError ErrSigLength)) else Inr ())"

definition checkSignatureLengthECDSA :: "bytes \<Rightarrow> (goError, unit) result" where
  "checkSignatureLengthECDSA sig =
     (if length sig \<noteq> 64 then Inl (Error (scriptError ErrSigLength)) else Inr ())"

definition checkPubKeyEncodingMLDSA44 :: "bytes \<Rightarrow> (goError, unit) result" where
  "checkPubKeyEncodingMLDSA44 pubKey =
     (if length pubKey = mldsa44_PublicKeySize then Inr () else Inl (Error (scriptError ErrPubKeyFormat)))"

definition checkSignatureLengthMLDSA44 :: "bytes \<Rightarrow> (goError, unit) result" where
  "checkSignatureLengthMLDSA44 sig =
     (if length sig \<noteq> mldsa44_SignatureSize then Inl (Error (scriptError ErrSigLength)) else Inr ())"

definition isMLDSA44ElementSize :: "nat \<Rightarrow> bool" where
  "isMLDSA44ElementSize n \<longleftrightarrow> n = mldsa44_PublicKeySize \<or> n = mldsa44_SignatureSize + 1"

lemmas encoding_check_defs =
  checkPubKeyEncoding_def checkPubKeyEncodingECDSA_def checkSignatureLength_def
  checkSignatureLengthECDSA_def checkPubKeyEncodingMLDSA44_def checkSignatureLengthMLDSA44_def

section \<open>Signature operations\<close>

text \<open>\<open>consensushashing.CalculateSignatureHash...(&vm.tx, vm.txIdx, hashType, vm.sigHashReusedValues)\<close>\<close>

definition vmSigHash ::
  "(DomainTransaction \<Rightarrow> int \<Rightarrow> SigHashType \<Rightarrow> DomainHash reuseProc) \<Rightarrow> SigHashType \<Rightarrow>
   ('k, DomainHash) engineProc" where
  "vmSigHash calc hashType =
     bnd (gets (\<lambda>vm. (vtx vm, vtxIdx vm))) (\<lambda>(txn, i).
     onField sigHashReusedValues (\<lambda>rv vm. vm\<lparr>sigHashReusedValues := rv\<rparr>) (calc txn i hashType))"

text \<open>
  The source has each signature opcode twice, for Schnorr and for ECDSA, with the same body up to the
  calls below; the body is defined once over them.
\<close>

record 'k sigOps =
  checkSigLen :: "bytes \<Rightarrow> (goError, unit) result"
  checkPubKeyEnc :: "bytes \<Rightarrow> (goError, unit) result"
  calcSigHash :: "SigHashType \<Rightarrow> ('k, DomainHash) engineProc"
  deserializePubKey :: "bytes \<Rightarrow> 'k option"
  deserializeSig :: "bytes \<Rightarrow> 'k option"
  verifySig :: "DomainHash \<Rightarrow> 'k \<Rightarrow> 'k \<Rightarrow> ('k, bool) engineProc"

definition schnorrOps :: "'k lib \<Rightarrow> 'k sigOps" where
  "schnorrOps L =
     \<lparr>checkSigLen = checkSignatureLength,
      checkPubKeyEnc = checkPubKeyEncoding,
      calcSigHash = vmSigHash (CalculateSignatureHashSchnorr (libBlake3 L)),
      deserializePubKey = parsePubKey (schnorr L),
      deserializeSig = parseSig (schnorr L),
      verifySig = (\<lambda>secpHash signature pubKey.
        onField sigCache (\<lambda>c vm. vm\<lparr>sigCache := c\<rparr>)
          (\<lambda>c. case verifyCached (evict L) (schnorr L) secpHash signature pubKey c of
                 (valid, c') \<Rightarrow> (Inr valid, c')))\<rparr>"

definition ecdsaOps :: "'k lib \<Rightarrow> 'k sigOps" where
  "ecdsaOps L =
     \<lparr>checkSigLen = checkSignatureLengthECDSA,
      checkPubKeyEnc = checkPubKeyEncodingECDSA,
      calcSigHash = vmSigHash (CalculateSignatureHashECDSA (libBlake3 L)),
      deserializePubKey = parsePubKey (ecdsa L),
      deserializeSig = parseSig (ecdsa L),
      verifySig = (\<lambda>secpHash signature pubKey.
        onField sigCacheECDSA (\<lambda>c vm. vm\<lparr>sigCacheECDSA := c\<rparr>)
          (\<lambda>c. case verifyCached (evict L) (ecdsa L) secpHash signature pubKey c of
                 (valid, c') \<Rightarrow> (Inr valid, c')))\<rparr>"

section \<open>The contract of the engine\<close>

definition engFrame :: "'k Engine \<Rightarrow> 'k Engine \<Rightarrow> bool" where
  "engFrame vm vm' \<longleftrightarrow>
     scriptVersion vm' = scriptVersion vm \<and> scripts vm' = scripts vm \<and> scriptIdx vm' = scriptIdx vm \<and>
     scriptOff vm' = scriptOff vm \<and> vtx vm' = vtx vm \<and> vtxIdx vm' = vtxIdx vm \<and> vflags vm' = vflags vm \<and>
     isP2SH vm' = isP2SH vm \<and> savedFirstStack vm' = savedFirstStack vm"

definition inputOk :: "DomainTransaction \<Rightarrow> int \<Rightarrow> bool" where
  "inputOk txn i \<longleftrightarrow> 0 \<le> i \<and> i < int (length (Inputs txn)) \<and> utxoEntry (Inputs txn ! nat i) \<noteq> None"

definition cacheOk :: "'k scheme \<Rightarrow> 'k SigCache option \<Rightarrow> bool" where
  "cacheOk sch c \<longleftrightarrow> (case c of None \<Rightarrow> True | Some s \<Rightarrow> cacheSound sch s)"

definition reusedOk :: "blake3 \<Rightarrow> DomainTransaction \<Rightarrow> SighashReusedValues option \<Rightarrow> bool" where
  "reusedOk blake3 txn rv \<longleftrightarrow> (case rv of None \<Rightarrow> False | Some v \<Rightarrow> reusedSound blake3 txn v)"

definition engSafe :: "'k lib \<Rightarrow> nat \<Rightarrow> 'k Engine \<Rightarrow> bool" where
  "engSafe L E vm \<longleftrightarrow>
     libOk L \<and> 32 \<le> E \<and> elemsLe E (dstack vm) \<and> elemsLe E (astack vm) \<and>
     inputOk (vtx vm) (vtxIdx vm) \<and> reusedOk (libBlake3 L) (vtx vm) (sigHashReusedValues vm) \<and>
     cacheOk (schnorr L) (sigCache vm) \<and> cacheOk (ecdsa L) (sigCacheECDSA vm)"

definition engInv :: "'k lib \<Rightarrow> nat \<Rightarrow> 'k Engine \<Rightarrow> bool" where
  "engInv L E vm \<longleftrightarrow> engSafe L E vm \<and> numOps vm \<le> MaxOpsPerScript"

definition engSize :: "'k Engine \<Rightarrow> nat" where
  "engSize vm = length (dstack vm) + length (astack vm)"

text \<open>The engine without signature caches and with every reused value precomputed.\<close>

definition engAbs :: "'k lib \<Rightarrow> 'k Engine \<Rightarrow> 'k Engine" where
  "engAbs L vm = vm\<lparr>sigCache := None, sigCacheECDSA := None,
     sigHashReusedValues := Some (fullReused (libBlake3 L) (vtx vm))\<rparr>"

lemma engAbs_simps [simp]:
  "dstack (engAbs L vm) = dstack vm" "astack (engAbs L vm) = astack vm" "vtx (engAbs L vm) = vtx vm"
  "vtxIdx (engAbs L vm) = vtxIdx vm" "condStack (engAbs L vm) = condStack vm" "numOps (engAbs L vm) = numOps vm"
  "vflags (engAbs L vm) = vflags vm" "scripts (engAbs L vm) = scripts vm" "scriptIdx (engAbs L vm) = scriptIdx vm"
  "scriptOff (engAbs L vm) = scriptOff vm" "isP2SH (engAbs L vm) = isP2SH vm"
  "savedFirstStack (engAbs L vm) = savedFirstStack vm" "scriptVersion (engAbs L vm) = scriptVersion vm"
  "mldsa44Cache (engAbs L vm) = mldsa44Cache vm" "isBranchExecuting (engAbs L vm) = isBranchExecuting vm"
  by (simp_all add: engAbs_def isBranchExecuting_def)

lemma engFrame_refl [simp]: "engFrame vm vm"
  by (simp add: engFrame_def)

interpretation eng: contract engFrame "engInv L E" "engSafe L E" engSize stackCap "engAbs L" for L E
  by unfold_locales (auto simp: engInv_def engFrame_def)

interpretation ds: field_contract engFrame "engInv L E" "engSafe L E" engSize stackCap "engAbs L"
  "\<lambda>_ _. True" "elemsLe E" "elemsLe E" length stackCap "\<lambda>s. s" dstack "\<lambda>t vm. vm\<lparr>dstack := t\<rparr>" for L E
  by unfold_locales
    (auto simp: engInv_def engSafe_def engFrame_def engSize_def engAbs_def)

interpretation alts: field_contract engFrame "engInv L E" "engSafe L E" engSize stackCap "engAbs L"
  "\<lambda>_ _. True" "elemsLe E" "elemsLe E" length stackCap "\<lambda>s. s" astack "\<lambda>t vm. vm\<lparr>astack := t\<rparr>" for L E
  by unfold_locales
    (auto simp: engInv_def engSafe_def engFrame_def engSize_def engAbs_def)

lemma ok_dstackDo: "stk.ok E k V m \<Longrightarrow> eng.ok L E k V (dstackDo m)"
  unfolding dstackDo_def by (rule ds.ok_onField)

lemma ok_astackDo: "stk.ok E k V m \<Longrightarrow> eng.ok L E k V (astackDo m)"
  unfolding astackDo_def by (rule alts.ok_onField)

lemma keeps_stackDo: "eng.keeps (dstackDo m)" "eng.keeps (astackDo m)"
  unfolding dstackDo_def astackDo_def by (auto intro!: eng.keeps_onField simp: engFrame_def)

text \<open>Pushing an integer, a boolean or a hash stays within every element size the engine uses.\<close>

lemma ok_dPushInt: "\<bar>n\<bar> < 2 ^ 63 \<Longrightarrow> eng.ok L E 1 (\<lambda>_. True) (dstackDo (PushInt n))"
  by (rule eng.ok_under, rule ok_dstackDo, rule ok_PushInt) (auto simp: engInv_def engSafe_def)

lemma ok_dPushBool: "eng.ok L E 1 (\<lambda>_. True) (dstackDo (PushBool b))"
  by (rule eng.ok_under, rule ok_dstackDo, rule ok_PushBool) (auto simp: engInv_def engSafe_def)

lemma ok_dPushHash: "(libOk L \<Longrightarrow> length h \<le> 32) \<Longrightarrow> eng.ok L E 1 (\<lambda>_. True) (dstackDo (PushByteArray h))"
  by (rule eng.ok_under, rule ok_dstackDo, rule ok_PushByteArray) (auto simp: engInv_def engSafe_def)

lemma ok_addOps: "0 \<le> n \<Longrightarrow> eng.ok L E 0 (\<lambda>_. True) (addOps n)"
  by (rule eng.okI)
    (auto simp: eng.okAt_def addOps_def proc_defs engInv_def engSafe_def engFrame_def engSize_def engAbs_def)

lemma keeps_addOps: "eng.keeps (addOps n)"
  unfolding addOps_def
  by (intro eng.keeps_andThen eng.keeps_bnd eng.keeps_if eng.keeps_basic eng.keeps_modify)
    (simp add: engFrame_def)

lemmas engine_oks =
  ok_dPushInt ok_dPushBool ok_addOps ok_dstackDo [OF ok_PopByteArray] ok_dstackDo [OF ok_PopInt]
  ok_dstackDo [OF ok_PopBool] ok_dstackDo [OF ok_PeekByteArray] ok_dstackDo [OF ok_Depth]
  ok_dstackDo [OF ok_PushByteArray] ok_dstackDo [OF ok_NipN] ok_dstackDo [OF ok_Tuck] ok_dstackDo [OF ok_DropN]
  ok_dstackDo [OF ok_DupN] ok_dstackDo [OF ok_RotN] ok_dstackDo [OF ok_SwapN] ok_dstackDo [OF ok_OverN]
  ok_dstackDo [OF ok_PickN] ok_dstackDo [OF ok_RollN] ok_astackDo [OF ok_PushByteArray]
  ok_astackDo [OF ok_PopByteArray]

section \<open>The contract of a signature scheme\<close>

text \<open>What the signature opcodes rely on: the checks do not panic, the signature hash of a
  standard hash type always exists, and verification is transparent.\<close>

locale signature_scheme =
  fixes L :: "'k lib" and E :: nat and ops :: "'k sigOps"
  assumes checks: "checkSigLen ops s \<noteq> Inl GoPanic" "checkPubKeyEnc ops s \<noteq> Inl GoPanic"
    and hash_ok: "IsStandardSigHashType ht \<Longrightarrow> eng.ok L E 0 (\<lambda>_. True) (calcSigHash ops ht)"
    and hash_total: "IsStandardSigHashType ht \<Longrightarrow> engInv L E vm \<Longrightarrow> \<exists>h vm'. calcSigHash ops ht vm = (Inr h, vm')"
    and verify_ok: "eng.ok L E 0 (\<lambda>_. True) (verifySig ops h sig pk)"
    and hash_keeps: "eng.keeps (calcSigHash ops ht)"
    and verify_keeps: "eng.keeps (verifySig ops h sig pk)"

lemma keeps_vmSigHash: "eng.keeps (vmSigHash calc ht)"
  unfolding vmSigHash_def
  by (intro eng.keeps_bnd eng.keeps_prod eng.keeps_basic eng.keeps_onField) (simp add: engFrame_def)

lemma vmSigHash_gives:
  assumes "engInv L E vm" and "reuseGives (libBlake3 L) (vtx vm) h (calc (vtx vm) (vtxIdx vm) ht)"
  shows "\<exists>rv. reusedSound (libBlake3 L) (vtx vm) rv \<and>
    vmSigHash calc ht vm = (Inr h, vm\<lparr>sigHashReusedValues := Some rv\<rparr>) \<and>
    vmSigHash calc ht (engAbs L vm) = (Inr h, engAbs L vm)"
proof -
  from assms(1) obtain rv where rv: "sigHashReusedValues vm = Some rv"
      "reusedSound (libBlake3 L) (vtx vm) rv"
    by (auto simp: engInv_def engSafe_def reusedOk_def split: option.splits)
  from assms(2) have all: "\<forall>rv. reusedSound (libBlake3 L) (vtx vm) rv \<longrightarrow> (\<exists>rv'. reusedSound (libBlake3 L) (vtx vm) rv' \<and>
        calc (vtx vm) (vtxIdx vm) ht (Some rv) = (Inr h, Some rv'))"
    and full: "calc (vtx vm) (vtxIdx vm) ht (Some (fullReused (libBlake3 L) (vtx vm)))
        = (Inr h, Some (fullReused (libBlake3 L) (vtx vm)))"
    unfolding reuseGives_def by (rule conjunct1, rule conjunct2)
  from all rv(2) obtain rv' where rv': "reusedSound (libBlake3 L) (vtx vm) rv'"
      "calc (vtx vm) (vtxIdx vm) ht (Some rv) = (Inr h, Some rv')" by blast
  have "vmSigHash calc ht vm = (Inr h, vm\<lparr>sigHashReusedValues := Some rv'\<rparr>)"
    by (simp add: vmSigHash_def proc_defs rv rv')
  moreover have "vmSigHash calc ht (engAbs L vm) = (Inr h, engAbs L vm)"
    by (simp add: vmSigHash_def proc_defs engAbs_def full)
  ultimately show ?thesis using rv'(1) by blast
qed

lemma vmSigHash_total:
  assumes "engInv L E vm" and "\<exists>h. reuseGives (libBlake3 L) (vtx vm) h (calc (vtx vm) (vtxIdx vm) ht)"
  shows "\<exists>h vm'. vmSigHash calc ht vm = (Inr h, vm')"
proof -
  from assms(2) obtain h where "reuseGives (libBlake3 L) (vtx vm) h (calc (vtx vm) (vtxIdx vm) ht)" ..
  from vmSigHash_gives [where calc = calc, OF assms(1) this] show ?thesis by auto
qed

lemma ok_vmSigHash:
  assumes "\<And>vm. engInv L E vm \<Longrightarrow> \<exists>h. reuseGives (libBlake3 L) (vtx vm) h (calc (vtx vm) (vtxIdx vm) ht)"
  shows "eng.ok L E 0 (\<lambda>_. True) (vmSigHash calc ht)"
proof (rule eng.okI)
  fix vm :: "'a Engine" assume vm: "engInv L E vm"
  with assms obtain h where "reuseGives (libBlake3 L) (vtx vm) h (calc (vtx vm) (vtxIdx vm) ht)" by blast
  from vmSigHash_gives [where calc = calc, OF vm this] obtain rv where
      "reusedSound (libBlake3 L) (vtx vm) rv" "vmSigHash calc ht vm = (Inr h, vm\<lparr>sigHashReusedValues := Some rv\<rparr>)"
      "vmSigHash calc ht (engAbs L vm) = (Inr h, engAbs L vm)" by blast
  with vm show "eng.okAt L E 0 (\<lambda>_. True) (vmSigHash calc ht) vm"
    by (simp add: eng.okAt_def engInv_def engSafe_def engFrame_def engSize_def engAbs_def reusedOk_def)
qed

lemma verifyCached_None: "verifyCached pick sch h sig pk None = (sigVerify sch pk h sig, None)"
  by (simp add: verifyCached_def)

lemma verifyCached_ok:
  assumes "cacheOk sch c" and "verifyCached pick sch h sig pk c = (v, c')"
  shows "v = sigVerify sch pk h sig \<and> cacheOk sch c'"
proof -
  have "sc.soundOpt sch c" using assms(1) by (simp add: sc.soundOpt_def cacheOk_def)
  from sc.ask_transparent [OF this, where pick = pick and q = "(h, sig, pk)"]
    sc.ask_sound [OF this, where pick = pick and q = "(h, sig, pk)"] assms(2)
  show ?thesis unfolding verifyCached_ask by (auto simp: sc.soundOpt_def cacheOk_def)
qed

lemma inv_gives:
  assumes "engInv L E vm" and "IsStandardSigHashType ht"
  shows "\<exists>h. reuseGives (libBlake3 L) (vtx vm) h (CalculateSignatureHashSchnorr (libBlake3 L) (vtx vm) (vtxIdx vm) ht)"
    and "\<exists>h. reuseGives (libBlake3 L) (vtx vm) h (CalculateSignatureHashECDSA (libBlake3 L) (vtx vm) (vtxIdx vm) ht)"
    and "\<exists>h. reuseGives (libBlake3 L) (vtx vm) h (CalculateSignatureHashMLDSA44 (libBlake3 L) (vtx vm) (vtxIdx vm) ht)"
proof -
  from assms(1) obtain entry where vm: "0 \<le> vtxIdx vm" "vtxIdx vm < int (length (Inputs (vtx vm)))"
      "utxoEntry (Inputs (vtx vm) ! nat (vtxIdx vm)) = Some entry"
    by (auto simp: engInv_def engSafe_def inputOk_def)
  show "\<exists>h. reuseGives (libBlake3 L) (vtx vm) h (CalculateSignatureHashSchnorr (libBlake3 L) (vtx vm) (vtxIdx vm) ht)"
    by (rule exI, rule reuseGives_schnorr [OF assms(2) vm])
  show "\<exists>h. reuseGives (libBlake3 L) (vtx vm) h (CalculateSignatureHashECDSA (libBlake3 L) (vtx vm) (vtxIdx vm) ht)"
    "\<exists>h. reuseGives (libBlake3 L) (vtx vm) h (CalculateSignatureHashMLDSA44 (libBlake3 L) (vtx vm) (vtxIdx vm) ht)"
    by (rule reuseGives_ecdsa [OF assms(2) vm])+
qed

lemma verify_schnorr_ok: "eng.ok L E 0 (\<lambda>_. True) (verifySig (schnorrOps L) h sig pk)"
proof (rule eng.okI)
  fix vm :: "'a Engine" assume vm: "engInv L E vm"
  then have c: "cacheOk (schnorr L) (sigCache vm)" by (simp add: engInv_def engSafe_def)
  obtain v c' where v: "verifyCached (evict L) (schnorr L) h sig pk (sigCache vm) = (v, c')" by fastforce
  from verifyCached_ok [OF c v] vm v show "eng.okAt L E 0 (\<lambda>_. True) (verifySig (schnorrOps L) h sig pk) vm"
    by (simp add: eng.okAt_def schnorrOps_def onField_def engInv_def engSafe_def engFrame_def engSize_def engAbs_def
        verifyCached_None)
qed

lemma verify_ecdsa_ok: "eng.ok L E 0 (\<lambda>_. True) (verifySig (ecdsaOps L) h sig pk)"
proof (rule eng.okI)
  fix vm :: "'a Engine" assume vm: "engInv L E vm"
  then have c: "cacheOk (ecdsa L) (sigCacheECDSA vm)" by (simp add: engInv_def engSafe_def)
  obtain v c' where v: "verifyCached (evict L) (ecdsa L) h sig pk (sigCacheECDSA vm) = (v, c')" by fastforce
  from verifyCached_ok [OF c v] vm v show "eng.okAt L E 0 (\<lambda>_. True) (verifySig (ecdsaOps L) h sig pk) vm"
    by (simp add: eng.okAt_def ecdsaOps_def onField_def engInv_def engSafe_def engFrame_def engSize_def engAbs_def
        verifyCached_None)
qed

interpretation schnorr_ops: signature_scheme L E "schnorrOps L" for L E
proof unfold_locales
  fix s h sig pk ht
  show "checkSigLen (schnorrOps L) s \<noteq> Inl GoPanic" "checkPubKeyEnc (schnorrOps L) s \<noteq> Inl GoPanic"
    by (simp_all add: schnorrOps_def encoding_check_defs)
  show "eng.ok L E 0 (\<lambda>_. True) (verifySig (schnorrOps L) h sig pk)" by (rule verify_schnorr_ok)
  show "eng.keeps (calcSigHash (schnorrOps L) ht)" by (simp add: schnorrOps_def keeps_vmSigHash)
  show "eng.keeps (verifySig (schnorrOps L) h sig pk)"
    unfolding schnorrOps_def sigOps.simps by (rule eng.keeps_onField) (simp add: engFrame_def)
  assume ht: "IsStandardSigHashType ht"
  then show "eng.ok L E 0 (\<lambda>_. True) (calcSigHash (schnorrOps L) ht)"
    unfolding schnorrOps_def sigOps.simps by (intro ok_vmSigHash) (rule inv_gives(1))
  fix vm :: "'a Engine" assume vm: "engInv L E vm"
  show "\<exists>h vm'. calcSigHash (schnorrOps L) ht vm = (Inr h, vm')"
    unfolding schnorrOps_def sigOps.simps by (rule vmSigHash_total [OF vm]) (rule inv_gives(1) [OF vm ht])
qed

interpretation ecdsa_ops: signature_scheme L E "ecdsaOps L" for L E
proof unfold_locales
  fix s h sig pk ht
  show "checkSigLen (ecdsaOps L) s \<noteq> Inl GoPanic" "checkPubKeyEnc (ecdsaOps L) s \<noteq> Inl GoPanic"
    by (simp_all add: ecdsaOps_def encoding_check_defs)
  show "eng.ok L E 0 (\<lambda>_. True) (verifySig (ecdsaOps L) h sig pk)" by (rule verify_ecdsa_ok)
  show "eng.keeps (calcSigHash (ecdsaOps L) ht)" by (simp add: ecdsaOps_def keeps_vmSigHash)
  show "eng.keeps (verifySig (ecdsaOps L) h sig pk)"
    unfolding ecdsaOps_def sigOps.simps by (rule eng.keeps_onField) (simp add: engFrame_def)
  assume ht: "IsStandardSigHashType ht"
  then show "eng.ok L E 0 (\<lambda>_. True) (calcSigHash (ecdsaOps L) ht)"
    unfolding ecdsaOps_def sigOps.simps by (intro ok_vmSigHash) (rule inv_gives(2))
  fix vm :: "'a Engine" assume vm: "engInv L E vm"
  show "\<exists>h vm'. calcSigHash (ecdsaOps L) ht vm = (Inr h, vm')"
    unfolding ecdsaOps_def sigOps.simps by (rule vmSigHash_total [OF vm]) (rule inv_gives(2) [OF vm ht])
qed

end
