(* ===== verification/Script_Ops.thy ===== *)
theory Script_Ops
  imports Script_Engine Go_Sha256
begin

text \<open>
  The opcode handlers of \<^verbatim>\<open>src/domain/consensus/utils/txscript/opcode.go\<close> up to the hash
  opcodes, in the order of the source; the signature opcodes are in theory \<open>Script_Sigs\<close>. A handler that uses its
  parsed opcode only for an error message does not take it as an argument. Script numbers are
  Go's \<open>int64\<close>, so the results of arithmetic are wrapped by \<open>int64\<close>. Each handler has
  two lemmas at the end: its frame and its contract.
\<close>

section \<open>Constants and flow control\<close>

definition opcodeDisabled :: "('k, unit) engineProc" where
  "opcodeDisabled = raise (scriptError ErrDisabledOpcode)"

definition opcodeReserved :: "('k, unit) engineProc" where
  "opcodeReserved = raise (scriptError ErrReservedOpcode)"

definition opcodeInvalid :: "('k, unit) engineProc" where
  "opcodeInvalid = raise (scriptError ErrReservedOpcode)"

definition opcodeFalse :: "('k, unit) engineProc" where
  "opcodeFalse = dstackDo (PushByteArray [])"

definition opcodePushData :: "parsedOpcode \<Rightarrow> ('k, unit) engineProc" where
  "opcodePushData op = dstackDo (PushByteArray (popData op))"

definition opcode1Negate :: "('k, unit) engineProc" where
  "opcode1Negate = dstackDo (PushInt (- 1))"

definition opcodeN :: "parsedOpcode \<Rightarrow> ('k, unit) engineProc" where
  "opcodeN op = dstackDo (PushInt (uint (popValue op - (Op1 - 1))))"

definition opcodeNop :: "('k, unit) engineProc" where
  "opcodeNop = ret ()"

definition popIfBool :: "('k, bool) engineProc" where
  "popIfBool =
     bnd (dstackDo PopByteArray) (\<lambda>so.
     if length so = 1 \<and> so ! 0 = 0x01 then ret True
     else if length so = 0 then ret False
     else raise (scriptError ErrMinimalIf))"

definition opcodeIf :: "('k, unit) engineProc" where
  "opcodeIf =
     bnd (gets isBranchExecuting) (\<lambda>executing.
     bnd (if executing
          then bnd popIfBool (\<lambda>ok. ret (if ok then OpCondTrue else OpCondFalse))
          else ret OpCondSkip) (\<lambda>condVal.
     modify (\<lambda>vm. vm\<lparr>condStack := condStack vm @ [condVal]\<rparr>)))"

definition opcodeNotIf :: "('k, unit) engineProc" where
  "opcodeNotIf =
     bnd (gets isBranchExecuting) (\<lambda>executing.
     bnd (if executing
          then bnd popIfBool (\<lambda>ok. ret (if \<not> ok then OpCondTrue else OpCondFalse))
          else ret OpCondSkip) (\<lambda>condVal.
     modify (\<lambda>vm. vm\<lparr>condStack := condStack vm @ [condVal]\<rparr>)))"

definition opcodeElse :: "('k, unit) engineProc" where
  "opcodeElse =
     bnd (gets condStack) (\<lambda>cs.
     if length cs = 0 then raise (scriptError ErrUnbalancedConditional)
     else
       let conditionalIdx = length cs - 1; c = cs ! conditionalIdx
       in if c = OpCondTrue then modify (\<lambda>vm. vm\<lparr>condStack := cs[conditionalIdx := OpCondFalse]\<rparr>)
          else if c = OpCondFalse then modify (\<lambda>vm. vm\<lparr>condStack := cs[conditionalIdx := OpCondTrue]\<rparr>)
          else ret ())"

definition opcodeEndif :: "('k, unit) engineProc" where
  "opcodeEndif =
     bnd (gets condStack) (\<lambda>cs.
     if length cs = 0 then raise (scriptError ErrUnbalancedConditional)
     else modify (\<lambda>vm. vm\<lparr>condStack := take (length cs - 1) cs\<rparr>))"

definition abstractVerify :: "ErrorCode \<Rightarrow> ('k, unit) engineProc" where
  "abstractVerify c =
     bnd (dstackDo PopBool) (\<lambda>verified.
     if \<not> verified then raise (scriptError c) else ret ())"

definition opcodeVerify :: "('k, unit) engineProc" where
  "opcodeVerify = abstractVerify ErrVerify"

definition opcodeReturn :: "('k, unit) engineProc" where
  "opcodeReturn = raise (scriptError ErrEarlyReturn)"

section \<open>Lock times\<close>

definition verifyLockTime :: "64 word \<Rightarrow> 64 word \<Rightarrow> (goError, unit) result" where
  "verifyLockTime txLockTime lockTime =
     (if lockTime > txLockTime then Inl (Error (scriptError ErrUnsatisfiedLockTime)) else Inr ())"

definition verifyLockTimeThreshold :: "64 word \<Rightarrow> 64 word \<Rightarrow> 64 word \<Rightarrow> (goError, unit) result" where
  "verifyLockTimeThreshold txLockTime threshold lockTime =
     (if \<not> ((txLockTime < threshold \<and> lockTime < threshold) \<or> (txLockTime \<ge> threshold \<and> lockTime \<ge> threshold))
      then Inl (Error (scriptError ErrUnsatisfiedLockTime)) else Inr ())"

definition verifyLockTimeWithThreshold :: "64 word \<Rightarrow> 64 word \<Rightarrow> 64 word \<Rightarrow> (goError, unit) result" where
  "verifyLockTimeWithThreshold txLockTime threshold lockTime =
     (case verifyLockTimeThreshold txLockTime threshold lockTime of
        Inl e \<Rightarrow> Inl e
      | Inr _ \<Rightarrow> verifyLockTime txLockTime lockTime)"

text \<open>The padding of at most 8 bytes and \<open>binary.LittleEndian.Uint64\<close>.\<close>

definition paddedUint64 :: "bytes \<Rightarrow> 64 word" where
  "paddedUint64 bs = word_of_nat (leNat (bs @ replicate (8 - length bs) 0))"

text \<open>\<open>vm.tx.Inputs[vm.txIdx].Sequence\<close>\<close>

definition inputSequence :: "('k, 64 word) engineProc" where
  "inputSequence =
     bnd (gets (\<lambda>vm. index (Inputs (vtx vm)) (vtxIdx vm))) (\<lambda>r. bnd (liftR r) (\<lambda>txIn. ret (Sequence txIn)))"

definition opcodeCheckLockTimeVerify :: "('k, unit) engineProc" where
  "opcodeCheckLockTimeVerify =
     bnd (dstackDo PopByteArray) (\<lambda>lockTimeBytes.
     if length lockTimeBytes > 8 then raise (scriptError ErrNumberTooBig)
     else
       let stackLockTime = paddedUint64 lockTimeBytes
       in bnd (gets (\<lambda>vm. LockTime (vtx vm))) (\<lambda>txLockTime.
          andThen (liftR (verifyLockTimeWithThreshold txLockTime LockTimeThreshold stackLockTime))
          (bnd inputSequence (\<lambda>sq.
          if sq = MaxTxInSequenceNum then raise (scriptError ErrUnsatisfiedLockTime) else ret ()))))"

definition opcodeCheckSequenceVerify :: "('k, unit) engineProc" where
  "opcodeCheckSequenceVerify =
     bnd (dstackDo PopByteArray) (\<lambda>sequenceBytes.
     if length sequenceBytes > 8 then raise (scriptError ErrNumberTooBig)
     else
       let stackSequence = paddedUint64 sequenceBytes
       in if stackSequence AND SequenceLockTimeDisabled \<noteq> 0 then ret ()
          else bnd inputSequence (\<lambda>txSequence.
            if txSequence AND SequenceLockTimeDisabled \<noteq> 0 then raise (scriptError ErrUnsatisfiedLockTime)
            else
              let maskedTxSequence = txSequence AND SequenceLockTimeMask;
                  maskedStackSequence = stackSequence AND SequenceLockTimeMask
              in liftR (verifyLockTime maskedTxSequence maskedStackSequence)))"

section \<open>Stack manipulation\<close>

definition opcodeToAltStack :: "('k, unit) engineProc" where
  "opcodeToAltStack = bnd (dstackDo PopByteArray) (\<lambda>so. astackDo (PushByteArray so))"

definition opcodeFromAltStack :: "('k, unit) engineProc" where
  "opcodeFromAltStack = bnd (astackDo PopByteArray) (\<lambda>so. dstackDo (PushByteArray so))"

definition opcode2Drop :: "('k, unit) engineProc" where
  "opcode2Drop = dstackDo (DropN 2)"

definition opcode2Dup :: "('k, unit) engineProc" where
  "opcode2Dup = dstackDo (DupN 2)"

definition opcode3Dup :: "('k, unit) engineProc" where
  "opcode3Dup = dstackDo (DupN 3)"

definition opcode2Over :: "('k, unit) engineProc" where
  "opcode2Over = dstackDo (OverN 2)"

definition opcode2Rot :: "('k, unit) engineProc" where
  "opcode2Rot = dstackDo (RotN 2)"

definition opcode2Swap :: "('k, unit) engineProc" where
  "opcode2Swap = dstackDo (SwapN 2)"

definition opcodeIfDup :: "('k, unit) engineProc" where
  "opcodeIfDup =
     bnd (dstackDo (PeekByteArray 0)) (\<lambda>so.
     if asBool so then dstackDo (PushByteArray so) else ret ())"

definition opcodeDepth :: "('k, unit) engineProc" where
  "opcodeDepth = bnd (dstackDo Depth) (\<lambda>d. dstackDo (PushInt d))"

definition opcodeDrop :: "('k, unit) engineProc" where
  "opcodeDrop = dstackDo (DropN 1)"

definition opcodeDup :: "('k, unit) engineProc" where
  "opcodeDup = dstackDo (DupN 1)"

definition opcodeNip :: "('k, unit) engineProc" where
  "opcodeNip = dstackDo (NipN 1)"

definition opcodeOver :: "('k, unit) engineProc" where
  "opcodeOver = dstackDo (OverN 1)"

definition opcodePick :: "('k, unit) engineProc" where
  "opcodePick = bnd (dstackDo PopInt) (\<lambda>val. dstackDo (PickN (scriptNum_Int32 val)))"

definition opcodeRoll :: "('k, unit) engineProc" where
  "opcodeRoll = bnd (dstackDo PopInt) (\<lambda>val. dstackDo (RollN (scriptNum_Int32 val)))"

definition opcodeRot :: "('k, unit) engineProc" where
  "opcodeRot = dstackDo (RotN 1)"

definition opcodeSwap :: "('k, unit) engineProc" where
  "opcodeSwap = dstackDo (SwapN 1)"

definition opcodeTuck :: "('k, unit) engineProc" where
  "opcodeTuck = dstackDo Tuck"

definition opcodeSize :: "('k, unit) engineProc" where
  "opcodeSize = bnd (dstackDo (PeekByteArray 0)) (\<lambda>so. dstackDo (PushInt (int64 (int (length so)))))"

definition opcodeEqual :: "('k, unit) engineProc" where
  "opcodeEqual =
     bnd (dstackDo PopByteArray) (\<lambda>a.
     bnd (dstackDo PopByteArray) (\<lambda>b.
     dstackDo (PushBool (a = b))))"

definition opcodeEqualVerify :: "('k, unit) engineProc" where
  "opcodeEqualVerify = andThen opcodeEqual (abstractVerify ErrEqualVerify)"

section \<open>Arithmetic\<close>

definition opcode1Add :: "('k, unit) engineProc" where
  "opcode1Add = bnd (dstackDo PopInt) (\<lambda>m. dstackDo (PushInt (int64 (m + 1))))"

definition opcode2Mul :: "('k, unit) engineProc" where
  "opcode2Mul = bnd (dstackDo PopInt) (\<lambda>v. dstackDo (PushInt (int64 (v * 2))))"

definition opcode2Div :: "('k, unit) engineProc" where
  "opcode2Div = bnd (dstackDo PopInt) (\<lambda>v. dstackDo (PushInt (int64 (quot v 2))))"

definition opcode1Sub :: "('k, unit) engineProc" where
  "opcode1Sub = bnd (dstackDo PopInt) (\<lambda>m. dstackDo (PushInt (int64 (m - 1))))"

definition opcodeNegate :: "('k, unit) engineProc" where
  "opcodeNegate = bnd (dstackDo PopInt) (\<lambda>m. dstackDo (PushInt (int64 (- m))))"

definition opcodeAbs :: "('k, unit) engineProc" where
  "opcodeAbs = bnd (dstackDo PopInt) (\<lambda>m. dstackDo (PushInt (if m < 0 then int64 (- m) else m)))"

definition opcodeNot :: "('k, unit) engineProc" where
  "opcodeNot = bnd (dstackDo PopInt) (\<lambda>m. dstackDo (PushInt (if m = 0 then 1 else 0)))"

definition opcode0NotEqual :: "('k, unit) engineProc" where
  "opcode0NotEqual = bnd (dstackDo PopInt) (\<lambda>m. dstackDo (PushInt (if m \<noteq> 0 then 1 else m)))"

definition opcodeAdd :: "('k, unit) engineProc" where
  "opcodeAdd =
     bnd (dstackDo PopInt) (\<lambda>v0. bnd (dstackDo PopInt) (\<lambda>v1. dstackDo (PushInt (int64 (v0 + v1)))))"

definition opcodeSub :: "('k, unit) engineProc" where
  "opcodeSub =
     bnd (dstackDo PopInt) (\<lambda>v0. bnd (dstackDo PopInt) (\<lambda>v1. dstackDo (PushInt (int64 (v1 - v0)))))"

definition opcodeMul :: "('k, unit) engineProc" where
  "opcodeMul =
     bnd (dstackDo PopInt) (\<lambda>v0. bnd (dstackDo PopInt) (\<lambda>v1. dstackDo (PushInt (int64 (v0 * v1)))))"

definition opcodeDiv :: "('k, unit) engineProc" where
  "opcodeDiv =
     bnd (dstackDo PopInt) (\<lambda>denom. bnd (dstackDo PopInt) (\<lambda>numer.
     if denom = 0 then raise (scriptError ErrInvalidStackOperation)
     else dstackDo (PushInt (int64 (quot numer denom)))))"

definition opcodeMod :: "('k, unit) engineProc" where
  "opcodeMod =
     bnd (dstackDo PopInt) (\<lambda>denom. bnd (dstackDo PopInt) (\<lambda>numer.
     if denom = 0 then raise (scriptError ErrInvalidStackOperation)
     else dstackDo (PushInt (int64 (rem numer denom)))))"

definition opcodeLShift :: "('k, unit) engineProc" where
  "opcodeLShift =
     bnd (dstackDo PopInt) (\<lambda>shiftBy. bnd (dstackDo PopInt) (\<lambda>val.
     if shiftBy < 0 \<or> shiftBy > 63 then raise (scriptError ErrInvalidStackOperation)
     else dstackDo (PushInt (int64 (val * 2 ^ nat shiftBy)))))"

definition opcodeRShift :: "('k, unit) engineProc" where
  "opcodeRShift =
     bnd (dstackDo PopInt) (\<lambda>shiftBy. bnd (dstackDo PopInt) (\<lambda>val.
     if shiftBy < 0 \<or> shiftBy > 63 then raise (scriptError ErrInvalidStackOperation)
     else dstackDo (PushInt (int64 (val div 2 ^ nat shiftBy)))))"

definition opcodeBoolAnd :: "('k, unit) engineProc" where
  "opcodeBoolAnd =
     bnd (dstackDo PopInt) (\<lambda>v0. bnd (dstackDo PopInt) (\<lambda>v1.
     dstackDo (PushInt (if v0 \<noteq> 0 \<and> v1 \<noteq> 0 then 1 else 0))))"

definition opcodeBoolOr :: "('k, unit) engineProc" where
  "opcodeBoolOr =
     bnd (dstackDo PopInt) (\<lambda>v0. bnd (dstackDo PopInt) (\<lambda>v1.
     dstackDo (PushInt (if v0 \<noteq> 0 \<or> v1 \<noteq> 0 then 1 else 0))))"

definition opcodeNumEqual :: "('k, unit) engineProc" where
  "opcodeNumEqual =
     bnd (dstackDo PopInt) (\<lambda>v0. bnd (dstackDo PopInt) (\<lambda>v1.
     dstackDo (PushInt (if v0 = v1 then 1 else 0))))"

definition opcodeNumEqualVerify :: "('k, unit) engineProc" where
  "opcodeNumEqualVerify = andThen opcodeNumEqual (abstractVerify ErrNumEqualVerify)"

definition opcodeNumNotEqual :: "('k, unit) engineProc" where
  "opcodeNumNotEqual =
     bnd (dstackDo PopInt) (\<lambda>v0. bnd (dstackDo PopInt) (\<lambda>v1.
     dstackDo (PushInt (if v0 \<noteq> v1 then 1 else 0))))"

definition opcodeLessThan :: "('k, unit) engineProc" where
  "opcodeLessThan =
     bnd (dstackDo PopInt) (\<lambda>v0. bnd (dstackDo PopInt) (\<lambda>v1.
     dstackDo (PushInt (if v1 < v0 then 1 else 0))))"

definition opcodeGreaterThan :: "('k, unit) engineProc" where
  "opcodeGreaterThan =
     bnd (dstackDo PopInt) (\<lambda>v0. bnd (dstackDo PopInt) (\<lambda>v1.
     dstackDo (PushInt (if v1 > v0 then 1 else 0))))"

definition opcodeLessThanOrEqual :: "('k, unit) engineProc" where
  "opcodeLessThanOrEqual =
     bnd (dstackDo PopInt) (\<lambda>v0. bnd (dstackDo PopInt) (\<lambda>v1.
     dstackDo (PushInt (if v1 \<le> v0 then 1 else 0))))"

definition opcodeGreaterThanOrEqual :: "('k, unit) engineProc" where
  "opcodeGreaterThanOrEqual =
     bnd (dstackDo PopInt) (\<lambda>v0. bnd (dstackDo PopInt) (\<lambda>v1.
     dstackDo (PushInt (if v1 \<ge> v0 then 1 else 0))))"

definition opcodeMin :: "('k, unit) engineProc" where
  "opcodeMin =
     bnd (dstackDo PopInt) (\<lambda>v0. bnd (dstackDo PopInt) (\<lambda>v1.
     dstackDo (PushInt (if v1 < v0 then v1 else v0))))"

definition opcodeMax :: "('k, unit) engineProc" where
  "opcodeMax =
     bnd (dstackDo PopInt) (\<lambda>v0. bnd (dstackDo PopInt) (\<lambda>v1.
     dstackDo (PushInt (if v1 > v0 then v1 else v0))))"

definition opcodeWithin :: "('k, unit) engineProc" where
  "opcodeWithin =
     bnd (dstackDo PopInt) (\<lambda>maxVal. bnd (dstackDo PopInt) (\<lambda>minVal. bnd (dstackDo PopInt) (\<lambda>x.
     dstackDo (PushInt (if x \<ge> minVal \<and> x < maxVal then 1 else 0)))))"

section \<open>Hashes\<close>

definition opcodeSha256 :: "('k, unit) engineProc" where
  "opcodeSha256 = bnd (dstackDo PopByteArray) (\<lambda>buf. dstackDo (PushByteArray (sha256_Sum256 buf)))"

definition opcodeBlake2b :: "'k lib \<Rightarrow> ('k, unit) engineProc" where
  "opcodeBlake2b L = bnd (dstackDo PopByteArray) (\<lambda>buf. dstackDo (PushByteArray (blake2b_Sum256 L buf)))"

lemmas const_handler_defs =
  opcodeDisabled_def opcodeReserved_def opcodeInvalid_def opcodeFalse_def opcodePushData_def opcode1Negate_def
  opcodeN_def opcodeNop_def

lemmas flow_handler_defs =
  popIfBool_def opcodeIf_def opcodeNotIf_def opcodeElse_def opcodeEndif_def abstractVerify_def opcodeVerify_def
  opcodeReturn_def inputSequence_def opcodeCheckLockTimeVerify_def opcodeCheckSequenceVerify_def

lemmas stack_handler_defs =
  opcodeToAltStack_def opcodeFromAltStack_def opcode2Drop_def opcode2Dup_def opcode3Dup_def opcode2Over_def
  opcode2Rot_def opcode2Swap_def opcodeIfDup_def opcodeDepth_def opcodeDrop_def opcodeDup_def opcodeNip_def
  opcodeOver_def opcodePick_def opcodeRoll_def opcodeRot_def opcodeSwap_def opcodeTuck_def opcodeSize_def
  opcodeEqual_def opcodeEqualVerify_def

lemmas unary_handler_defs =
  opcode1Add_def opcode2Mul_def opcode2Div_def opcode1Sub_def opcodeNegate_def opcodeAbs_def opcodeNot_def
  opcode0NotEqual_def

lemmas binary_handler_defs =
  opcodeAdd_def opcodeSub_def opcodeMul_def opcodeDiv_def opcodeMod_def opcodeLShift_def opcodeRShift_def
  opcodeBoolAnd_def opcodeBoolOr_def opcodeNumEqual_def opcodeNumEqualVerify_def opcodeNumNotEqual_def
  opcodeLessThan_def opcodeGreaterThan_def opcodeLessThanOrEqual_def opcodeGreaterThanOrEqual_def
  opcodeMin_def opcodeMax_def opcodeWithin_def

section \<open>Frames\<close>

lemmas handler_keeps_intros =
  eng.keeps_intros keeps_stackDo eng.keeps_modify

lemma keeps_const_handlers:
  "eng.keeps opcodeDisabled" "eng.keeps opcodeReserved" "eng.keeps opcodeInvalid" "eng.keeps opcodeFalse"
  "eng.keeps (opcodePushData op)" "eng.keeps opcode1Negate" "eng.keeps (opcodeN op)" "eng.keeps opcodeNop"
  unfolding const_handler_defs by (intro handler_keeps_intros)+

lemma keeps_flow_handlers:
  "eng.keeps opcodeIf" "eng.keeps opcodeNotIf" "eng.keeps opcodeElse" "eng.keeps opcodeEndif"
  "eng.keeps (abstractVerify c)" "eng.keeps opcodeVerify" "eng.keeps opcodeReturn"
  "eng.keeps opcodeCheckLockTimeVerify" "eng.keeps opcodeCheckSequenceVerify"
  unfolding flow_handler_defs Let_def by (intro handler_keeps_intros; simp add: engFrame_def)+

lemma keeps_stack_handlers:
  "eng.keeps opcodeToAltStack" "eng.keeps opcodeFromAltStack" "eng.keeps opcode2Drop" "eng.keeps opcode2Dup"
  "eng.keeps opcode3Dup" "eng.keeps opcode2Over" "eng.keeps opcode2Rot" "eng.keeps opcode2Swap"
  "eng.keeps opcodeIfDup" "eng.keeps opcodeDepth" "eng.keeps opcodeDrop" "eng.keeps opcodeDup"
  "eng.keeps opcodeNip" "eng.keeps opcodeOver" "eng.keeps opcodePick" "eng.keeps opcodeRoll"
  "eng.keeps opcodeRot" "eng.keeps opcodeSwap" "eng.keeps opcodeTuck" "eng.keeps opcodeSize"
  "eng.keeps opcodeEqual" "eng.keeps opcodeEqualVerify"
  unfolding stack_handler_defs by (intro handler_keeps_intros keeps_flow_handlers)+

lemma keeps_unary_handlers:
  "eng.keeps opcode1Add" "eng.keeps opcode2Mul" "eng.keeps opcode2Div" "eng.keeps opcode1Sub"
  "eng.keeps opcodeNegate" "eng.keeps opcodeAbs" "eng.keeps opcodeNot" "eng.keeps opcode0NotEqual"
  unfolding unary_handler_defs by (intro handler_keeps_intros)+

lemma keeps_binary_handlers:
  "eng.keeps opcodeAdd" "eng.keeps opcodeSub" "eng.keeps opcodeMul" "eng.keeps opcodeDiv" "eng.keeps opcodeMod"
  "eng.keeps opcodeLShift" "eng.keeps opcodeRShift" "eng.keeps opcodeBoolAnd" "eng.keeps opcodeBoolOr"
  "eng.keeps opcodeNumEqual" "eng.keeps opcodeNumEqualVerify" "eng.keeps opcodeNumNotEqual"
  "eng.keeps opcodeLessThan" "eng.keeps opcodeGreaterThan" "eng.keeps opcodeLessThanOrEqual"
  "eng.keeps opcodeGreaterThanOrEqual" "eng.keeps opcodeMin" "eng.keeps opcodeMax" "eng.keeps opcodeWithin"
  unfolding binary_handler_defs by (intro handler_keeps_intros keeps_flow_handlers)+

lemma keeps_hash_handlers: "eng.keeps opcodeSha256" "eng.keeps (opcodeBlake2b L)"
  unfolding opcodeSha256_def opcodeBlake2b_def by (intro handler_keeps_intros)+

section \<open>Contracts\<close>

lemma ok_weaken: "eng.ok L E j V m \<Longrightarrow> j \<le> k \<Longrightarrow> eng.ok L E k (\<lambda>_. True) m"
  by (rule eng.ok_mono) auto

lemma ok_getsAbs: "(\<And>vm. g (engAbs L vm) = g vm) \<Longrightarrow> eng.ok L E 0 (\<lambda>_. True) (gets g)"
  by (rule eng.ok_gets) auto

lemma ok_setCond:
  assumes "\<And>vm. f (engAbs L vm) = f vm"
  shows "eng.ok L E k (\<lambda>_. True) (modify (\<lambda>vm. vm\<lparr>condStack := f vm\<rparr>))"
  by (rule eng.okI)
    (use assms in \<open>auto simp: eng.okAt_def modify_def engInv_def engSafe_def engFrame_def engSize_def engAbs_def\<close>)

lemma ok_const_handlers:
  "eng.ok L E 3 (\<lambda>_. True) opcodeDisabled" "eng.ok L E 3 (\<lambda>_. True) opcodeReserved"
  "eng.ok L E 3 (\<lambda>_. True) opcodeInvalid" "eng.ok L E 3 (\<lambda>_. True) opcodeFalse"
  "length (popData op) \<le> E \<Longrightarrow> eng.ok L E 3 (\<lambda>_. True) (opcodePushData op)"
  "eng.ok L E 3 (\<lambda>_. True) opcode1Negate" "eng.ok L E 3 (\<lambda>_. True) (opcodeN op)"
  "eng.ok L E 3 (\<lambda>_. True) opcodeNop"
proof -
  have "uint (popValue op - (Op1 - 1)) < 2 ^ 8" "0 \<le> uint (popValue op - (Op1 - 1))"
    using uint_lt2p [of "popValue op - (Op1 - 1)"] by simp_all
  moreover have "(2 :: int) ^ 8 < 2 ^ 63" by simp
  ultimately have "\<bar>uint (popValue op - (Op1 - 1))\<bar> < 2 ^ 63" by linarith
  then show "eng.ok L E 3 (\<lambda>_. True) (opcodeN op)"
    unfolding opcodeN_def by (intro ok_weaken [OF ok_dPushInt]) simp_all
  show "eng.ok L E 3 (\<lambda>_. True) opcodeFalse" "eng.ok L E 3 (\<lambda>_. True) opcode1Negate"
    unfolding opcodeFalse_def opcode1Negate_def
    by (rule ok_weaken [OF ok_dstackDo [OF ok_PushByteArray]] ok_weaken [OF ok_dPushInt]; simp)+
  show "length (popData op) \<le> E \<Longrightarrow> eng.ok L E 3 (\<lambda>_. True) (opcodePushData op)"
    unfolding opcodePushData_def by (rule ok_weaken [OF ok_dstackDo [OF ok_PushByteArray]]) simp_all
qed (simp_all add: const_handler_defs eng.ok_raise eng.ok_ret)

lemma ok_popIfBool: "eng.ok L E 0 (\<lambda>_. True) popIfBool"
  unfolding popIfBool_def
  by (rule eng.ok_bnd0 [OF ok_dstackDo [OF ok_PopByteArray]]) (intro eng.ok_if eng.ok_ret eng.ok_raise TrueI)

lemma ok_abstractVerify: "eng.ok L E 0 (\<lambda>_. True) (abstractVerify c)"
  unfolding abstractVerify_def
  by (rule eng.ok_bnd0 [OF ok_dstackDo [OF ok_PopBool]]) (intro eng.ok_if eng.ok_ret eng.ok_raise TrueI)

lemma ok_lockTime:
  "eng.ok L E k (\<lambda>_. True) (liftR (verifyLockTime a b))"
  "eng.ok L E k (\<lambda>_. True) (liftR (verifyLockTimeWithThreshold a t b))"
  by (rule eng.ok_liftR; auto simp: verifyLockTime_def verifyLockTimeThreshold_def verifyLockTimeWithThreshold_def
      split: if_splits)+

lemma ok_inputSequence: "eng.ok L E 0 (\<lambda>_. True) inputSequence"
  by (rule eng.okI)
    (auto simp: eng.okAt_def inputSequence_def proc_defs index_def engInv_def engSafe_def inputOk_def)

lemma ok_if_cond:
  "eng.ok L E 3 (\<lambda>_. True) (bnd (gets isBranchExecuting) (\<lambda>executing.
     bnd (if executing then bnd popIfBool (\<lambda>ok. ret (f ok)) else ret OpCondSkip) (\<lambda>condVal.
     modify (\<lambda>vm. vm\<lparr>condStack := condStack vm @ [condVal]\<rparr>))))"
  by (rule eng.ok_bnd0 [OF ok_getsAbs], simp,
      rule eng.ok_bnd0 [where V = "\<lambda>_. True"], rule eng.ok_if, rule eng.ok_bnd0 [OF ok_popIfBool])
    (auto intro!: eng.ok_ret ok_setCond)

lemma ok_flow_handlers:
  "eng.ok L E 3 (\<lambda>_. True) opcodeIf" "eng.ok L E 3 (\<lambda>_. True) opcodeNotIf"
  "eng.ok L E 3 (\<lambda>_. True) opcodeElse" "eng.ok L E 3 (\<lambda>_. True) opcodeEndif"
  "eng.ok L E 3 (\<lambda>_. True) opcodeVerify" "eng.ok L E 3 (\<lambda>_. True) opcodeReturn"
  "eng.ok L E 3 (\<lambda>_. True) opcodeCheckLockTimeVerify" "eng.ok L E 3 (\<lambda>_. True) opcodeCheckSequenceVerify"
proof -
  show "eng.ok L E 3 (\<lambda>_. True) opcodeIf" "eng.ok L E 3 (\<lambda>_. True) opcodeNotIf"
    unfolding opcodeIf_def opcodeNotIf_def by (rule ok_if_cond)+
  show "eng.ok L E 3 (\<lambda>_. True) opcodeElse" "eng.ok L E 3 (\<lambda>_. True) opcodeEndif"
    unfolding opcodeElse_def opcodeEndif_def Let_def
    by (rule eng.ok_bnd0 [OF ok_getsAbs], simp, intro eng.ok_if eng.ok_ret eng.ok_raise ok_setCond TrueI refl)+
  show "eng.ok L E 3 (\<lambda>_. True) opcodeVerify" "eng.ok L E 3 (\<lambda>_. True) opcodeReturn"
    unfolding opcodeVerify_def opcodeReturn_def by (rule ok_weaken [OF ok_abstractVerify], simp, rule eng.ok_raise)
  show "eng.ok L E 3 (\<lambda>_. True) opcodeCheckLockTimeVerify"
    unfolding opcodeCheckLockTimeVerify_def Let_def
    by (rule eng.ok_bnd0 [OF ok_dstackDo [OF ok_PopByteArray]], rule eng.ok_if, rule eng.ok_raise,
        rule eng.ok_bnd0 [OF ok_getsAbs], simp, rule eng.ok_andThen0 [OF ok_lockTime(2)],
        rule eng.ok_bnd0 [OF ok_inputSequence], intro eng.ok_if eng.ok_ret eng.ok_raise TrueI)
  show "eng.ok L E 3 (\<lambda>_. True) opcodeCheckSequenceVerify"
    unfolding opcodeCheckSequenceVerify_def Let_def
    by (rule eng.ok_bnd0 [OF ok_dstackDo [OF ok_PopByteArray]], rule eng.ok_if, rule eng.ok_raise,
        rule eng.ok_if, rule eng.ok_ret, rule TrueI,
        rule eng.ok_bnd0 [OF ok_inputSequence], intro eng.ok_if eng.ok_raise ok_lockTime)
qed

lemma ok_equal: "eng.ok L E 1 (\<lambda>_. True) opcodeEqual"
  unfolding opcodeEqual_def
  by (rule eng.ok_bnd0 [OF ok_dstackDo [OF ok_PopByteArray]])+ (rule ok_dPushBool)

lemma ok_thenVerify: "eng.ok L E 1 (\<lambda>_. True) m \<Longrightarrow> eng.ok L E 3 (\<lambda>_. True) (andThen m (abstractVerify c))"
  by (rule eng.ok_andThen [OF _ ok_abstractVerify]) auto

lemma ok_stack_handlers:
  "eng.ok L E 3 (\<lambda>_. True) opcodeToAltStack" "eng.ok L E 3 (\<lambda>_. True) opcodeFromAltStack"
  "eng.ok L E 3 (\<lambda>_. True) opcode2Drop" "eng.ok L E 3 (\<lambda>_. True) opcode2Dup"
  "eng.ok L E 3 (\<lambda>_. True) opcode3Dup" "eng.ok L E 3 (\<lambda>_. True) opcode2Over"
  "eng.ok L E 3 (\<lambda>_. True) opcode2Rot" "eng.ok L E 3 (\<lambda>_. True) opcode2Swap"
  "eng.ok L E 3 (\<lambda>_. True) opcodeIfDup" "eng.ok L E 3 (\<lambda>_. True) opcodeDepth"
  "eng.ok L E 3 (\<lambda>_. True) opcodeDrop" "eng.ok L E 3 (\<lambda>_. True) opcodeDup"
  "eng.ok L E 3 (\<lambda>_. True) opcodeNip" "eng.ok L E 3 (\<lambda>_. True) opcodeOver"
  "eng.ok L E 3 (\<lambda>_. True) opcodePick" "eng.ok L E 3 (\<lambda>_. True) opcodeRoll"
  "eng.ok L E 3 (\<lambda>_. True) opcodeRot" "eng.ok L E 3 (\<lambda>_. True) opcodeSwap"
  "eng.ok L E 3 (\<lambda>_. True) opcodeTuck" "eng.ok L E 3 (\<lambda>_. True) opcodeEqual"
  "eng.ok L E 3 (\<lambda>_. True) opcodeEqualVerify"
proof -
  note weak = ok_weaken [OF ok_dstackDo [OF ok_DropN]] ok_weaken [OF ok_dstackDo [OF ok_DupN]]
    ok_weaken [OF ok_dstackDo [OF ok_OverN]] ok_weaken [OF ok_dstackDo [OF ok_RotN]]
    ok_weaken [OF ok_dstackDo [OF ok_SwapN]] ok_weaken [OF ok_dstackDo [OF ok_NipN]]
    ok_weaken [OF ok_dstackDo [OF ok_Tuck]] ok_weaken [OF ok_equal]
  show "eng.ok L E 3 (\<lambda>_. True) opcode2Drop" "eng.ok L E 3 (\<lambda>_. True) opcode2Dup"
    "eng.ok L E 3 (\<lambda>_. True) opcode3Dup" "eng.ok L E 3 (\<lambda>_. True) opcode2Over"
    "eng.ok L E 3 (\<lambda>_. True) opcode2Rot" "eng.ok L E 3 (\<lambda>_. True) opcode2Swap"
    "eng.ok L E 3 (\<lambda>_. True) opcodeDrop" "eng.ok L E 3 (\<lambda>_. True) opcodeDup"
    "eng.ok L E 3 (\<lambda>_. True) opcodeNip" "eng.ok L E 3 (\<lambda>_. True) opcodeOver"
    "eng.ok L E 3 (\<lambda>_. True) opcodeRot" "eng.ok L E 3 (\<lambda>_. True) opcodeSwap"
    "eng.ok L E 3 (\<lambda>_. True) opcodeTuck" "eng.ok L E 3 (\<lambda>_. True) opcodeEqual"
    unfolding opcode2Drop_def opcode2Dup_def opcode3Dup_def opcode2Over_def opcode2Rot_def opcode2Swap_def
      opcodeDrop_def opcodeDup_def opcodeNip_def opcodeOver_def opcodeRot_def opcodeSwap_def opcodeTuck_def
    by (rule weak; simp)+
  show "eng.ok L E 3 (\<lambda>_. True) opcodeEqualVerify"
    unfolding opcodeEqualVerify_def by (rule ok_thenVerify [OF ok_equal])
  show "eng.ok L E 3 (\<lambda>_. True) opcodeToAltStack" "eng.ok L E 3 (\<lambda>_. True) opcodeFromAltStack"
    unfolding opcodeToAltStack_def opcodeFromAltStack_def
    by (rule eng.ok_bnd0 [OF ok_dstackDo [OF ok_PopByteArray]] eng.ok_bnd0 [OF ok_astackDo [OF ok_PopByteArray]],
        rule ok_weaken [OF ok_astackDo [OF ok_PushByteArray]] ok_weaken [OF ok_dstackDo [OF ok_PushByteArray]];
        simp)+
  show "eng.ok L E 3 (\<lambda>_. True) opcodePick" "eng.ok L E 3 (\<lambda>_. True) opcodeRoll"
    unfolding opcodePick_def opcodeRoll_def
    by (rule eng.ok_bnd0 [OF ok_dstackDo [OF ok_PopInt]],
        rule ok_weaken [OF ok_dstackDo [OF ok_PickN]] ok_weaken [OF ok_dstackDo [OF ok_RollN]], simp)+
  show "eng.ok L E 3 (\<lambda>_. True) opcodeIfDup"
    unfolding opcodeIfDup_def
    by (rule eng.ok_bnd0 [OF ok_dstackDo [OF ok_PeekByteArray]], rule eng.ok_if,
        rule ok_weaken [OF ok_dstackDo [OF ok_PushByteArray]]) (auto intro: eng.ok_ret)
  show "eng.ok L E 3 (\<lambda>_. True) opcodeDepth"
    unfolding opcodeDepth_def
    by (rule eng.ok_bnd0 [OF ok_dstackDo [OF ok_Depth]], rule ok_weaken [OF ok_dPushInt])
      (auto simp: maxInt32_def)
qed

text \<open>The size of an element is a number the engine can encode as long as the limit on element sizes is.\<close>

lemma ok_opcodeSize: "E < 2 ^ 63 \<Longrightarrow> eng.ok L E 3 (\<lambda>_. True) opcodeSize"
  unfolding opcodeSize_def
  by (rule eng.ok_bnd0 [OF ok_dstackDo [OF ok_PeekByteArray]], rule ok_weaken [OF ok_dPushInt])
    (auto simp: less_le_trans)

lemma ok_unary:
  assumes "\<And>m. \<bar>m\<bar> < 2 ^ 31 \<Longrightarrow> \<bar>f m\<bar> < 2 ^ 63"
  shows "eng.ok L E 3 (\<lambda>_. True) (bnd (dstackDo PopInt) (\<lambda>m. dstackDo (PushInt (f m))))"
  by (rule eng.ok_bnd0 [OF ok_dstackDo [OF ok_PopInt]], rule ok_weaken [OF ok_dPushInt], rule assms) simp_all

lemma int64_small: "\<bar>x\<bar> < 2 ^ 63 \<Longrightarrow> \<bar>int64 x\<bar> < 2 ^ 63"
  by (subst int64_id) auto

lemma div_abs_le: "\<bar>a\<bar> div \<bar>b\<bar> \<le> \<bar>a\<bar>" for a b :: int
proof (cases "b = 0")
  case False
  then have "\<bar>a\<bar> div \<bar>b\<bar> \<le> \<bar>a\<bar> div 1" by (intro zdiv_mono2) auto
  then show ?thesis by simp
qed simp

lemma quot_abs_le: "\<bar>quot a b\<bar> \<le> \<bar>a\<bar>"
proof -
  have "0 \<le> \<bar>a\<bar> div \<bar>b\<bar>" by (cases "b = 0") (auto simp: pos_imp_zdiv_nonneg_iff)
  with div_abs_le [of a b] show ?thesis by (auto simp: quot_def abs_mult abs_sgn_eq)
qed

lemma rem_abs_le: "\<bar>rem a b\<bar> \<le> \<bar>a\<bar>"
proof -
  have "b * quot a b = sgn a * (\<bar>b\<bar> * (\<bar>a\<bar> div \<bar>b\<bar>))"
    by (simp add: quot_def abs_sgn mult_ac)
  moreover have "a = sgn a * \<bar>a\<bar>" by (simp add: mult_sgn_abs)
  ultimately have "rem a b = sgn a * (\<bar>a\<bar> - \<bar>b\<bar> * (\<bar>a\<bar> div \<bar>b\<bar>))"
    by (simp add: rem_def right_diff_distrib)
  also have "\<dots> = sgn a * (\<bar>a\<bar> mod \<bar>b\<bar>)" by (simp add: minus_mult_div_eq_mod)
  finally have "\<bar>rem a b\<bar> = \<bar>sgn a\<bar> * \<bar>\<bar>a\<bar> mod \<bar>b\<bar>\<bar>" by (simp add: abs_mult)
  moreover have "0 \<le> \<bar>a\<bar> mod \<bar>b\<bar>" "\<bar>a\<bar> mod \<bar>b\<bar> \<le> \<bar>a\<bar>"
    by (cases "b = 0", auto, cases "b = 0", auto intro: zmod_le_nonneg_dividend)
  ultimately show ?thesis by (auto simp: abs_sgn_eq)
qed

lemma shift_abs_le:
  fixes v :: int
  assumes "0 < d"
  shows "\<bar>v div d\<bar> \<le> \<bar>v\<bar>"
proof (cases "0 \<le> v")
  case True
  with div_abs_le [of v d] assms show ?thesis by (simp add: pos_imp_zdiv_nonneg_iff)
next
  case False
  from zdiv_mono2_neg [of v 1 d] False assms have "v \<le> v div d" by simp
  moreover have "v div d < 0" using False assms by (simp add: div_neg_pos_less0)
  ultimately show ?thesis using False by linarith
qed

lemma ok_unary_handlers:
  "eng.ok L E 3 (\<lambda>_. True) opcode1Add" "eng.ok L E 3 (\<lambda>_. True) opcode2Mul"
  "eng.ok L E 3 (\<lambda>_. True) opcode2Div" "eng.ok L E 3 (\<lambda>_. True) opcode1Sub"
  "eng.ok L E 3 (\<lambda>_. True) opcodeNegate" "eng.ok L E 3 (\<lambda>_. True) opcodeAbs"
  "eng.ok L E 3 (\<lambda>_. True) opcodeNot" "eng.ok L E 3 (\<lambda>_. True) opcode0NotEqual"
proof -
  have "eng.ok L E 3 (\<lambda>_. True) opcode2Div"
    unfolding opcode2Div_def
    by (rule ok_unary, rule int64_small, rule le_less_trans [OF quot_abs_le]) simp
  then show "eng.ok L E 3 (\<lambda>_. True) opcode2Div" .
qed (unfold unary_handler_defs, (rule ok_unary; auto intro!: int64_small)+)

lemma ok_binary1:
  assumes "\<And>a b. \<bar>a\<bar> < 2 ^ 31 \<Longrightarrow> \<bar>b\<bar> < 2 ^ 31 \<Longrightarrow> \<bar>f a b\<bar> < 2 ^ 63"
  shows "eng.ok L E 1 (\<lambda>_. True) (bnd (dstackDo PopInt) (\<lambda>a. bnd (dstackDo PopInt) (\<lambda>b. dstackDo (PushInt (f a b)))))"
  by (rule eng.ok_bnd0 [OF ok_dstackDo [OF ok_PopInt]], rule eng.ok_bnd0 [OF ok_dstackDo [OF ok_PopInt]],
      rule ok_dPushInt, rule assms) simp_all

lemmas ok_binary = ok_weaken [OF ok_binary1, where k = 3]

lemma ok_binary_guarded:
  assumes "\<And>a b. \<bar>a\<bar> < 2 ^ 31 \<Longrightarrow> \<bar>b\<bar> < 2 ^ 31 \<Longrightarrow> \<bar>f a b\<bar> < 2 ^ 63"
  shows "eng.ok L E 3 (\<lambda>_. True) (bnd (dstackDo PopInt) (\<lambda>a. bnd (dstackDo PopInt) (\<lambda>b.
    if g a then raise e else dstackDo (PushInt (f a b)))))"
  by (rule eng.ok_bnd0 [OF ok_dstackDo [OF ok_PopInt]], rule eng.ok_bnd0 [OF ok_dstackDo [OF ok_PopInt]],
      rule eng.ok_if, rule eng.ok_raise, rule ok_weaken [OF ok_dPushInt], rule assms) simp_all

lemma mul_bound: "\<bar>a\<bar> < 2 ^ 31 \<Longrightarrow> \<bar>b\<bar> < 2 ^ 31 \<Longrightarrow> \<bar>a * b\<bar> < (2 :: int) ^ 63"
  using abs_mult_less [of a "2 ^ 31" b "2 ^ 31"] by (simp add: abs_mult)

lemma ok_binary_handlers:
  "eng.ok L E 3 (\<lambda>_. True) opcodeAdd" "eng.ok L E 3 (\<lambda>_. True) opcodeSub"
  "eng.ok L E 3 (\<lambda>_. True) opcodeMul" "eng.ok L E 3 (\<lambda>_. True) opcodeDiv"
  "eng.ok L E 3 (\<lambda>_. True) opcodeMod" "eng.ok L E 3 (\<lambda>_. True) opcodeRShift"
  "eng.ok L E 3 (\<lambda>_. True) opcodeBoolAnd" "eng.ok L E 3 (\<lambda>_. True) opcodeBoolOr"
  "eng.ok L E 3 (\<lambda>_. True) opcodeNumEqual" "eng.ok L E 3 (\<lambda>_. True) opcodeNumEqualVerify"
  "eng.ok L E 3 (\<lambda>_. True) opcodeNumNotEqual" "eng.ok L E 3 (\<lambda>_. True) opcodeLessThan"
  "eng.ok L E 3 (\<lambda>_. True) opcodeGreaterThan" "eng.ok L E 3 (\<lambda>_. True) opcodeLessThanOrEqual"
  "eng.ok L E 3 (\<lambda>_. True) opcodeGreaterThanOrEqual" "eng.ok L E 3 (\<lambda>_. True) opcodeMin"
  "eng.ok L E 3 (\<lambda>_. True) opcodeMax" "eng.ok L E 3 (\<lambda>_. True) opcodeWithin"
proof -
  show "eng.ok L E 3 (\<lambda>_. True) opcodeMul"
    unfolding opcodeMul_def by (rule ok_binary, rule int64_small, rule mul_bound) simp_all
  show "eng.ok L E 3 (\<lambda>_. True) opcodeDiv" "eng.ok L E 3 (\<lambda>_. True) opcodeMod" "eng.ok L E 3 (\<lambda>_. True) opcodeRShift"
    unfolding opcodeDiv_def opcodeMod_def opcodeRShift_def
    by (rule ok_binary_guarded, rule int64_small,
        rule le_less_trans [OF quot_abs_le] le_less_trans [OF rem_abs_le] le_less_trans [OF shift_abs_le]; simp)+
  show "eng.ok L E 3 (\<lambda>_. True) opcodeNumEqualVerify"
    unfolding opcodeNumEqualVerify_def opcodeNumEqual_def by (intro ok_thenVerify ok_binary1) simp
  show "eng.ok L E 3 (\<lambda>_. True) opcodeWithin"
    unfolding opcodeWithin_def
    by (rule eng.ok_bnd0 [OF ok_dstackDo [OF ok_PopInt]])+ (rule ok_weaken [OF ok_dPushInt]; simp)
qed (unfold binary_handler_defs, (rule ok_binary; auto intro!: int64_small)+)

lemma ok_hash_handlers:
  "eng.ok L E 3 (\<lambda>_. True) opcodeSha256" "eng.ok L E 3 (\<lambda>_. True) (opcodeBlake2b L)"
  unfolding opcodeSha256_def opcodeBlake2b_def
  by (rule eng.ok_bnd0 [OF ok_dstackDo [OF ok_PopByteArray]], rule ok_weaken [OF ok_dPushHash];
      simp add: libOk_def length_sha256)+

end
