(* ===== verification/Script_Sigs.thy ===== *)
theory Script_Sigs
  imports Script_Ops "HOL-Library.Sublist"
begin

text \<open>
  The signature opcodes of \<^verbatim>\<open>src/domain/consensus/utils/txscript/opcode.go\<close>. The Schnorr and the
  ECDSA handlers have the same body up to the calls in \<open>sigOps\<close>; \<open>checkSigWith\<close> and
  \<open>checkMultiSigWith\<close> are that body. The loop of the multisig handlers
  is \<open>multiSigLoop\<close>, one round of it \<open>multiSigTry\<close>.
\<close>

section \<open>Single signatures\<close>

definition checkSigWith :: "'k sigOps \<Rightarrow> ('k, unit) engineProc" where
  "checkSigWith ops =
     bnd (dstackDo PopByteArray) (\<lambda>pkBytes.
     bnd (dstackDo PopByteArray) (\<lambda>fullSigBytes.
     if length fullSigBytes < 1 then dstackDo (PushBool False)
     else
       let hashType = fullSigBytes ! (length fullSigBytes - 1);
           sigBytes = take (length fullSigBytes - 1) fullSigBytes
       in if \<not> IsStandardSigHashType hashType then raise (scriptError ErrInvalidSigHashType)
          else
            andThen (liftR (checkSigLen ops sigBytes))
            (andThen (liftR (checkPubKeyEnc ops pkBytes))
            (bnd (attempt (calcSigHash ops hashType)) (\<lambda>res.
            case res of
              None \<Rightarrow> dstackDo (PushBool False)
            | Some sigHash \<Rightarrow>
                (case deserializePubKey ops pkBytes of
                   None \<Rightarrow> dstackDo (PushBool False)
                 | Some pubKey \<Rightarrow>
                     (case deserializeSig ops sigBytes of
                        None \<Rightarrow> dstackDo (PushBool False)
                      | Some signature \<Rightarrow>
                          bnd (verifySig ops sigHash signature pubKey) (\<lambda>valid.
                          if \<not> valid \<and> length sigBytes > 0 then raise (scriptError ErrNullFail)
                          else dstackDo (PushBool valid)))))))))"

definition opcodeCheckSig :: "'k lib \<Rightarrow> ('k, unit) engineProc" where
  "opcodeCheckSig L = checkSigWith (schnorrOps L)"

definition opcodeCheckSigECDSA :: "'k lib \<Rightarrow> ('k, unit) engineProc" where
  "opcodeCheckSigECDSA L = checkSigWith (ecdsaOps L)"

definition opcodeCheckSigMLDSA44 :: "'k lib \<Rightarrow> ('k, unit) engineProc" where
  "opcodeCheckSigMLDSA44 L =
     bnd (gets vflags) (\<lambda>fl.
     if fl AND ScriptEnableMLDSA44 = 0 then raise (scriptError ErrReservedOpcode)
     else
       bnd (dstackDo PopByteArray) (\<lambda>pkBytes.
       bnd (dstackDo PopByteArray) (\<lambda>fullSigBytes.
       if length fullSigBytes < 1 then dstackDo (PushBool False)
       else
         let hashType = fullSigBytes ! (length fullSigBytes - 1);
             sigBytes = take (length fullSigBytes - 1) fullSigBytes
         in if \<not> IsStandardSigHashType hashType then raise (scriptError ErrInvalidSigHashType)
            else
              andThen (liftR (checkSignatureLengthMLDSA44 sigBytes))
              (andThen (liftR (checkPubKeyEncodingMLDSA44 pkBytes))
              (bnd (attempt (vmSigHash (CalculateSignatureHashMLDSA44 (libBlake3 L)) hashType)) (\<lambda>res.
              case res of
                None \<Rightarrow> dstackDo (PushBool False)
              | Some sigHash \<Rightarrow>
                  bnd (onField mldsa44Cache (\<lambda>c vm. vm\<lparr>mldsa44Cache := c\<rparr>)
                         (\<lambda>c. case mldsa44_verify L sigHash pkBytes sigBytes c of (v, c') \<Rightarrow> (Inr v, c')))
                  (\<lambda>(valid, parsed).
                  if \<not> parsed then dstackDo (PushBool False)
                  else if \<not> valid then raise (scriptError ErrNullFail)
                  else dstackDo (PushBool True))))))))"

definition opcodeCheckSigVerify :: "'k lib \<Rightarrow> ('k, unit) engineProc" where
  "opcodeCheckSigVerify L = andThen (opcodeCheckSig L) (abstractVerify ErrCheckSigVerify)"

section \<open>Multiple signatures\<close>

record 'k parsedSigInfo =
  rawSignature :: bytes
  parsedSignature :: "'k option"
  sigParsed :: bool

definition newSigInfo :: "bytes \<Rightarrow> 'k parsedSigInfo" where
  "newSigInfo sig = \<lparr>rawSignature = sig, parsedSignature = None, sigParsed = False\<rparr>"

text \<open>One round of the loop: does the signature verify under the key? The parsed signature is kept.\<close>

definition multiSigTry ::
  "'k sigOps \<Rightarrow> 'k parsedSigInfo \<Rightarrow> bytes \<Rightarrow> ('k, bool \<times> 'k parsedSigInfo) engineProc" where
  "multiSigTry ops sigInfo pubKey =
     (let rawSig = rawSignature sigInfo
      in if length rawSig = 0 then ret (False, sigInfo)
         else
           let hashType = rawSig ! (length rawSig - 1);
               signature = take (length rawSig - 1) rawSig
           in bnd (if \<not> sigParsed sigInfo
                   then if \<not> IsStandardSigHashType hashType then raise (scriptError ErrInvalidSigHashType)
                        else andThen (liftR (checkSigLen ops signature))
                          (ret (sigInfo\<lparr>sigParsed := True, parsedSignature := deserializeSig ops signature\<rparr>))
                   else ret sigInfo) (\<lambda>info.
              case parsedSignature info of
                None \<Rightarrow> ret (False, info)
              | Some parsedSig \<Rightarrow>
                  andThen (liftR (checkPubKeyEnc ops pubKey))
                  (case deserializePubKey ops pubKey of
                     None \<Rightarrow> ret (False, info)
                   | Some parsedPubKey \<Rightarrow>
                       bnd (calcSigHash ops hashType) (\<lambda>sigHash.
                       bnd (verifySig ops sigHash parsedSig parsedPubKey) (\<lambda>valid.
                       ret (valid, info))))))"

function multiSigLoop ::
  "'k sigOps \<Rightarrow> bytes list \<Rightarrow> 'k parsedSigInfo list \<Rightarrow> int \<Rightarrow> int \<Rightarrow> int \<Rightarrow> int \<Rightarrow> ('k, bool) engineProc" where
  "multiSigLoop ops pubKeys signatures numPubKeys pubKeyIdx signatureIdx numSignatures =
     (if numSignatures > 0 then
        if numSignatures > numPubKeys - 1 then ret False
        else
          bnd (liftR (index signatures signatureIdx)) (\<lambda>sigInfo.
          bnd (liftR (index pubKeys (pubKeyIdx + 1))) (\<lambda>pubKey.
          bnd (multiSigTry ops sigInfo pubKey) (\<lambda>(valid, info).
          multiSigLoop ops pubKeys (signatures[nat signatureIdx := info]) (numPubKeys - 1) (pubKeyIdx + 1)
            (if valid then signatureIdx + 1 else signatureIdx)
            (if valid then numSignatures - 1 else numSignatures))))
      else ret True)"
  by pat_completeness auto

termination
  by (relation "measure (\<lambda>(_, _, _, numPubKeys, _). nat numPubKeys)") auto

declare multiSigLoop.simps [simp del]

definition checkMultiSigWith :: "'k sigOps \<Rightarrow> ('k, unit) engineProc" where
  "checkMultiSigWith ops =
     bnd (dstackDo PopInt) (\<lambda>numKeys.
     let numPubKeys = scriptNum_Int32 numKeys
     in if numPubKeys < 0 then raise (scriptError ErrInvalidPubKeyCount)
        else if numPubKeys > MaxPubKeysPerMultiSig then raise (scriptError ErrInvalidPubKeyCount)
        else
          andThen (addOps numPubKeys)
          (bnd (collectM (nat numPubKeys) (dstackDo PopByteArray)) (\<lambda>pubKeys.
          bnd (dstackDo PopInt) (\<lambda>numSigs.
          let numSignatures = scriptNum_Int32 numSigs
          in if numSignatures < 0 then raise (scriptError ErrInvalidSignatureCount)
             else if numSignatures > numPubKeys then raise (scriptError ErrInvalidSignatureCount)
             else
               bnd (collectM (nat numSignatures) (dstackDo PopByteArray)) (\<lambda>sigs.
               bnd (multiSigLoop ops pubKeys (map newSigInfo sigs) (numPubKeys + 1) (- 1) 0 numSignatures) (\<lambda>success.
               if \<not> success \<and> list_ex (\<lambda>sig. length sig > 0) sigs then raise (scriptError ErrNullFail)
               else dstackDo (PushBool success)))))))"

definition opcodeCheckMultiSig :: "'k lib \<Rightarrow> ('k, unit) engineProc" where
  "opcodeCheckMultiSig L = checkMultiSigWith (schnorrOps L)"

definition opcodeCheckMultiSigECDSA :: "'k lib \<Rightarrow> ('k, unit) engineProc" where
  "opcodeCheckMultiSigECDSA L = checkMultiSigWith (ecdsaOps L)"

definition opcodeCheckMultiSigVerify :: "'k lib \<Rightarrow> ('k, unit) engineProc" where
  "opcodeCheckMultiSigVerify L = andThen (opcodeCheckMultiSig L) (abstractVerify ErrCheckMultiSigVerify)"

section \<open>Frames and contracts\<close>

context signature_scheme
begin

lemma keeps_checkSigWith: "eng.keeps (checkSigWith ops)"
  unfolding checkSigWith_def Let_def by (intro handler_keeps_intros hash_keeps verify_keeps)

lemma keeps_multiSigTry: "eng.keeps (multiSigTry ops info pk)"
  unfolding multiSigTry_def Let_def by (intro handler_keeps_intros hash_keeps verify_keeps)

lemma keeps_multiSigLoop: "eng.keeps (multiSigLoop ops pks infos n i j m)"
proof (induction "nat n" arbitrary: n i j m infos rule: less_induct)
  case less
  have "0 < m \<Longrightarrow> \<not> m > n - 1 \<Longrightarrow> nat (n - 1) < nat n" by linarith
  then show ?case
    unfolding multiSigLoop.simps [of ops pks infos n i j m]
    by (cases "0 < m"; cases "m > n - 1")
      (auto simp del: nat_less_iff intro!: handler_keeps_intros keeps_multiSigTry less)
qed

lemma keeps_checkMultiSigWith: "eng.keeps (checkMultiSigWith ops)"
  unfolding checkMultiSigWith_def Let_def by (intro handler_keeps_intros keeps_addOps keeps_multiSigLoop)

lemma ok_checks: "eng.ok L E k (\<lambda>_. True) (liftR (checkSigLen ops s))"
  "eng.ok L E k (\<lambda>_. True) (liftR (checkPubKeyEnc ops s))"
  using checks by (auto intro!: eng.ok_liftR)

lemma ok_attempt_hash: "IsStandardSigHashType ht \<Longrightarrow> eng.ok L E 0 (\<lambda>_. True) (attempt (calcSigHash ops ht))"
  by (rule eng.ok_mono [OF eng.ok_attempt [OF hash_ok]]) (auto dest: hash_total)

lemma ok_checkSigWith: "eng.ok L E 1 (\<lambda>_. True) (checkSigWith ops)"
  unfolding checkSigWith_def Let_def
  by (rule eng.ok_bnd0 [OF ok_dstackDo [OF ok_PopByteArray]], rule eng.ok_bnd0 [OF ok_dstackDo [OF ok_PopByteArray]],
      rule eng.ok_if, rule ok_dPushBool, rule eng.ok_if, rule eng.ok_raise,
      rule eng.ok_andThen0 [OF ok_checks(1)], rule eng.ok_andThen0 [OF ok_checks(2)],
      rule eng.ok_bnd0 [OF ok_attempt_hash], simp,
      intro eng.ok_case_option ok_dPushBool eng.ok_bnd0 [OF verify_ok] eng.ok_if eng.ok_raise)

text \<open>The parsed part of a signature under consideration: it was parsed from a signature of a standard hash type.\<close>

definition infoOk :: "'k parsedSigInfo \<Rightarrow> bool" where
  "infoOk info \<longleftrightarrow> (sigParsed info \<longrightarrow>
     rawSignature info \<noteq> [] \<and> IsStandardSigHashType (rawSignature info ! (length (rawSignature info) - 1)))"

lemma ok_multiSigTry:
  assumes "infoOk info"
  shows "eng.ok L E 0 (\<lambda>(valid, info'). infoOk info' \<and> rawSignature info' = rawSignature info) (multiSigTry ops info pk)"
  unfolding multiSigTry_def Let_def
proof (rule eng.ok_if)
  show "eng.ok L E 0 (\<lambda>(valid, info'). infoOk info' \<and> rawSignature info' = rawSignature info) (ret (False, info))"
    by (rule eng.ok_ret) (simp add: assms)
next
  let ?raw = "rawSignature info" and ?V = "\<lambda>(valid, info'). infoOk info' \<and> rawSignature info' = rawSignature info"
  assume raw: "length ?raw \<noteq> 0"
  let ?ht = "?raw ! (length ?raw - 1)" and ?sig = "take (length ?raw - 1) ?raw"
  let ?W = "\<lambda>info'. infoOk info' \<and> rawSignature info' = ?raw \<and> IsStandardSigHashType ?ht"
  have parse: "eng.ok L E 0 ?W (if \<not> sigParsed info
      then if \<not> IsStandardSigHashType ?ht then raise (scriptError ErrInvalidSigHashType)
           else andThen (liftR (checkSigLen ops ?sig))
             (ret (info\<lparr>sigParsed := True, parsedSignature := deserializeSig ops ?sig\<rparr>))
      else ret info)"
    by (intro eng.ok_if eng.ok_raise eng.ok_andThen0 [OF ok_checks(1)] eng.ok_ret)
      (use assms raw in \<open>auto simp: infoOk_def\<close>)
  show "eng.ok L E 0 ?V (bnd (if \<not> sigParsed info
      then if \<not> IsStandardSigHashType ?ht then raise (scriptError ErrInvalidSigHashType)
           else andThen (liftR (checkSigLen ops ?sig))
             (ret (info\<lparr>sigParsed := True, parsedSignature := deserializeSig ops ?sig\<rparr>))
      else ret info) (\<lambda>info. case parsedSignature info of None \<Rightarrow> ret (False, info)
        | Some parsedSig \<Rightarrow> andThen (liftR (checkPubKeyEnc ops pk)) (case deserializePubKey ops pk of
            None \<Rightarrow> ret (False, info)
          | Some parsedPubKey \<Rightarrow> bnd (calcSigHash ops ?ht) (\<lambda>sigHash.
              bnd (verifySig ops sigHash parsedSig parsedPubKey) (\<lambda>valid. ret (valid, info))))))"
    by (rule eng.ok_bnd0 [OF parse], intro eng.ok_case_option eng.ok_ret eng.ok_andThen0 [OF ok_checks(2)]
        eng.ok_bnd0 [OF hash_ok] eng.ok_bnd0 [OF verify_ok]) auto
qed

lemma ok_multiSigLoop:
  "list_all infoOk infos \<Longrightarrow> 0 \<le> j \<Longrightarrow> int (length infos) = j + m \<Longrightarrow> - 1 \<le> i \<Longrightarrow> i + n = int (length pks) \<Longrightarrow>
   eng.ok L E 0 (\<lambda>_. True) (multiSigLoop ops pks infos n i j m)"
proof (induction "nat n" arbitrary: n i j m infos rule: less_induct)
  case less
  show ?case
  proof (cases "0 < m \<and> \<not> m > n - 1")
    case True
    then have idx: "0 \<le> j" "j < int (length infos)" "0 \<le> i + 1" "i + 1 < int (length pks)" and n: "nat (n - 1) < nat n"
      using less.prems by linarith+
    let ?info = "infos ! nat j"
    have info: "infoOk ?info" using less.prems(1) idx by (auto simp: list_all_length)
    have next_ok: "eng.ok L E 0 (\<lambda>_. True) (multiSigLoop ops pks (infos[nat j := info']) (n - 1) (i + 1)
        (if valid then j + 1 else j) (if valid then m - 1 else m))" if "infoOk info'" for valid info'
      using less.prems idx n that
      by (intro less.hyps) (auto simp: list_all_length nth_list_update)
    show ?thesis
      unfolding multiSigLoop.simps [of ops pks infos n i j m]
      using True idx by (auto intro!: eng.ok_bnd0 [OF ok_multiSigTry [OF info]] next_ok)
  next
    case False
    then show ?thesis
      unfolding multiSigLoop.simps [of ops pks infos n i j m] by (auto intro: eng.ok_ret)
  qed
qed

lemma ok_checkMultiSigWith: "eng.ok L E 1 (\<lambda>_. True) (checkMultiSigWith ops)"
  unfolding checkMultiSigWith_def Let_def
  by (rule eng.ok_bnd0 [OF ok_dstackDo [OF ok_PopInt]], rule eng.ok_if, rule eng.ok_raise, rule eng.ok_if,
      rule eng.ok_raise, rule eng.ok_andThen0 [OF ok_addOps], simp,
      rule eng.ok_bnd0 [OF eng.ok_collectM [OF ok_dstackDo [OF ok_PopByteArray]]],
      rule eng.ok_bnd0 [OF ok_dstackDo [OF ok_PopInt]], rule eng.ok_if, rule eng.ok_raise, rule eng.ok_if,
      rule eng.ok_raise, rule eng.ok_bnd0 [OF eng.ok_collectM [OF ok_dstackDo [OF ok_PopByteArray]]],
      rule eng.ok_bnd0 [OF ok_multiSigLoop])
    (auto simp: list_all_length infoOk_def newSigInfo_def simp del: One_nat_def intro!: eng.ok_raise ok_dPushBool)

end

lemma keeps_mldsa44: "eng.keeps (opcodeCheckSigMLDSA44 L)"
  unfolding opcodeCheckSigMLDSA44_def Let_def
  by (intro handler_keeps_intros keeps_vmSigHash eng.keeps_onField) (simp add: engFrame_def)

lemma keeps_sig_handlers:
  "eng.keeps (opcodeCheckSig L)" "eng.keeps (opcodeCheckSigECDSA L)" "eng.keeps (opcodeCheckSigMLDSA44 L)"
  "eng.keeps (opcodeCheckSigVerify L)" "eng.keeps (opcodeCheckMultiSig L)" "eng.keeps (opcodeCheckMultiSigECDSA L)"
  "eng.keeps (opcodeCheckMultiSigVerify L)"
  unfolding opcodeCheckSig_def opcodeCheckSigECDSA_def opcodeCheckSigVerify_def opcodeCheckMultiSig_def
    opcodeCheckMultiSigECDSA_def opcodeCheckMultiSigVerify_def
  by (intro keeps_mldsa44 eng.keeps_andThen keeps_flow_handlers schnorr_ops.keeps_checkSigWith
      ecdsa_ops.keeps_checkSigWith schnorr_ops.keeps_checkMultiSigWith ecdsa_ops.keeps_checkMultiSigWith)+

lemma ok_mldsa44_hash:
  "IsStandardSigHashType ht \<Longrightarrow>
   eng.ok L E 0 (\<lambda>_. True) (attempt (vmSigHash (CalculateSignatureHashMLDSA44 (libBlake3 L)) ht))"
proof (rule eng.ok_mono [OF eng.ok_attempt [OF ok_vmSigHash]])
  fix vm vm' :: "'a Engine" and e
  assume ht: "IsStandardSigHashType ht" and vm: "engInv L E vm"
    and err: "vmSigHash (CalculateSignatureHashMLDSA44 (libBlake3 L)) ht vm = (Inl e, vm')"
  have "\<exists>h vm'. vmSigHash (CalculateSignatureHashMLDSA44 (libBlake3 L)) ht vm = (Inr h, vm')"
    by (rule vmSigHash_total [OF vm]) (rule inv_gives(3) [OF vm ht])
  with err show "engInv L E vm'" by simp
qed (auto intro: inv_gives(3))

lemma ok_mldsa44_verify:
  "eng.ok L E 0 (\<lambda>_. True) (onField mldsa44Cache (\<lambda>c vm. vm\<lparr>mldsa44Cache := c\<rparr>)
     (\<lambda>c. case mldsa44_verify L' h pk sig c of (v, c') \<Rightarrow> (Inr v, c')))"
  by (rule eng.okI)
    (auto simp: eng.okAt_def onField_def engInv_def engSafe_def engFrame_def engSize_def engAbs_def split: prod.split)

lemma ok_mldsa44_checks:
  "eng.ok L E k (\<lambda>_. True) (liftR (checkSignatureLengthMLDSA44 s))"
  "eng.ok L E k (\<lambda>_. True) (liftR (checkPubKeyEncodingMLDSA44 s))"
  by (rule eng.ok_liftR; auto simp: encoding_check_defs split: if_splits)+

lemma ok_mldsa44: "eng.ok L E 1 (\<lambda>_. True) (opcodeCheckSigMLDSA44 L)"
  unfolding opcodeCheckSigMLDSA44_def Let_def
  by (rule eng.ok_bnd0 [OF ok_getsAbs], simp, rule eng.ok_if, rule eng.ok_raise,
      rule eng.ok_bnd0 [OF ok_dstackDo [OF ok_PopByteArray]], rule eng.ok_bnd0 [OF ok_dstackDo [OF ok_PopByteArray]],
      rule eng.ok_if, rule ok_dPushBool, rule eng.ok_if, rule eng.ok_raise,
      rule eng.ok_andThen0 [OF ok_mldsa44_checks(1)], rule eng.ok_andThen0 [OF ok_mldsa44_checks(2)],
      rule eng.ok_bnd0 [OF ok_mldsa44_hash], simp, rule eng.ok_case_option, rule ok_dPushBool,
      rule eng.ok_bnd0 [OF ok_mldsa44_verify])
    (auto simp del: One_nat_def intro!: eng.ok_raise ok_dPushBool)

lemma ok_sig_handlers:
  "eng.ok L E 3 (\<lambda>_. True) (opcodeCheckSig L)" "eng.ok L E 3 (\<lambda>_. True) (opcodeCheckSigECDSA L)"
  "eng.ok L E 3 (\<lambda>_. True) (opcodeCheckSigMLDSA44 L)" "eng.ok L E 3 (\<lambda>_. True) (opcodeCheckSigVerify L)"
  "eng.ok L E 3 (\<lambda>_. True) (opcodeCheckMultiSig L)" "eng.ok L E 3 (\<lambda>_. True) (opcodeCheckMultiSigECDSA L)"
  "eng.ok L E 3 (\<lambda>_. True) (opcodeCheckMultiSigVerify L)"
  unfolding opcodeCheckSig_def opcodeCheckSigECDSA_def opcodeCheckSigVerify_def opcodeCheckMultiSig_def
    opcodeCheckMultiSigECDSA_def opcodeCheckMultiSigVerify_def
  by (rule ok_weaken [OF schnorr_ops.ok_checkSigWith] ok_weaken [OF ecdsa_ops.ok_checkSigWith]
      ok_weaken [OF ok_mldsa44] ok_thenVerify [OF schnorr_ops.ok_checkSigWith]
      ok_weaken [OF schnorr_ops.ok_checkMultiSigWith] ok_weaken [OF ecdsa_ops.ok_checkMultiSigWith]
      ok_thenVerify [OF schnorr_ops.ok_checkMultiSigWith]; simp)+

end
