(* ===== verification/Script_Exec.thy ===== *)
theory Script_Exec
  imports Script_Sigs
begin

text \<open>
  Execution: the dispatch of \<open>opfunc\<close>, \<open>executeOpcode\<close>, \<open>Step\<close>, \<open>Execute\<close>, \<open>Init\<close> and
  \<open>Reset\<close> of \<^verbatim>\<open>src/domain/consensus/utils/txscript/engine.go\<close>. Trace
  logging is left out. The loop of \<open>Execute\<close> is the total function \<open>executeLoop\<close>; its termination proof
  shows that \<open>Step\<close> strictly decreases the scripts and opcodes that are left, the redeem script of a
  pay-to-script-hash output included.
\<close>

section \<open>Dispatch\<close>

fun executeConst :: "constFn \<Rightarrow> parsedOpcode \<Rightarrow> ('k, unit) engineProc" where
  "executeConst F_opcodeFalse op = opcodeFalse"
| "executeConst F_opcodePushData op = opcodePushData op"
| "executeConst F_opcode1Negate op = opcode1Negate"
| "executeConst F_opcodeN op = opcodeN op"
| "executeConst F_opcodeNop op = opcodeNop"
| "executeConst F_opcodeReserved op = opcodeReserved"
| "executeConst F_opcodeInvalid op = opcodeInvalid"
| "executeConst F_opcodeDisabled op = opcodeDisabled"

fun executeFlow :: "flowFn \<Rightarrow> ('k, unit) engineProc" where
  "executeFlow F_opcodeIf = opcodeIf"
| "executeFlow F_opcodeNotIf = opcodeNotIf"
| "executeFlow F_opcodeElse = opcodeElse"
| "executeFlow F_opcodeEndif = opcodeEndif"
| "executeFlow F_opcodeVerify = opcodeVerify"
| "executeFlow F_opcodeReturn = opcodeReturn"
| "executeFlow F_opcodeCheckLockTimeVerify = opcodeCheckLockTimeVerify"
| "executeFlow F_opcodeCheckSequenceVerify = opcodeCheckSequenceVerify"

fun executeStack :: "stackFn \<Rightarrow> ('k, unit) engineProc" where
  "executeStack F_opcodeToAltStack = opcodeToAltStack"
| "executeStack F_opcodeFromAltStack = opcodeFromAltStack"
| "executeStack F_opcode2Drop = opcode2Drop"
| "executeStack F_opcode2Dup = opcode2Dup"
| "executeStack F_opcode3Dup = opcode3Dup"
| "executeStack F_opcode2Over = opcode2Over"
| "executeStack F_opcode2Rot = opcode2Rot"
| "executeStack F_opcode2Swap = opcode2Swap"
| "executeStack F_opcodeIfDup = opcodeIfDup"
| "executeStack F_opcodeDepth = opcodeDepth"
| "executeStack F_opcodeDrop = opcodeDrop"
| "executeStack F_opcodeDup = opcodeDup"
| "executeStack F_opcodeNip = opcodeNip"
| "executeStack F_opcodeOver = opcodeOver"
| "executeStack F_opcodePick = opcodePick"
| "executeStack F_opcodeRoll = opcodeRoll"
| "executeStack F_opcodeRot = opcodeRot"
| "executeStack F_opcodeSwap = opcodeSwap"
| "executeStack F_opcodeTuck = opcodeTuck"
| "executeStack F_opcodeSize = opcodeSize"
| "executeStack F_opcodeEqual = opcodeEqual"
| "executeStack F_opcodeEqualVerify = opcodeEqualVerify"

fun executeUnary :: "unaryFn \<Rightarrow> ('k, unit) engineProc" where
  "executeUnary F_opcode1Add = opcode1Add"
| "executeUnary F_opcode1Sub = opcode1Sub"
| "executeUnary F_opcode2Mul = opcode2Mul"
| "executeUnary F_opcode2Div = opcode2Div"
| "executeUnary F_opcodeNegate = opcodeNegate"
| "executeUnary F_opcodeAbs = opcodeAbs"
| "executeUnary F_opcodeNot = opcodeNot"
| "executeUnary F_opcode0NotEqual = opcode0NotEqual"

fun executeBinary :: "binaryFn \<Rightarrow> ('k, unit) engineProc" where
  "executeBinary F_opcodeAdd = opcodeAdd"
| "executeBinary F_opcodeSub = opcodeSub"
| "executeBinary F_opcodeMul = opcodeMul"
| "executeBinary F_opcodeDiv = opcodeDiv"
| "executeBinary F_opcodeMod = opcodeMod"
| "executeBinary F_opcodeLShift = opcodeLShift"
| "executeBinary F_opcodeRShift = opcodeRShift"
| "executeBinary F_opcodeBoolAnd = opcodeBoolAnd"
| "executeBinary F_opcodeBoolOr = opcodeBoolOr"
| "executeBinary F_opcodeNumEqual = opcodeNumEqual"
| "executeBinary F_opcodeNumEqualVerify = opcodeNumEqualVerify"
| "executeBinary F_opcodeNumNotEqual = opcodeNumNotEqual"
| "executeBinary F_opcodeLessThan = opcodeLessThan"
| "executeBinary F_opcodeGreaterThan = opcodeGreaterThan"
| "executeBinary F_opcodeLessThanOrEqual = opcodeLessThanOrEqual"
| "executeBinary F_opcodeGreaterThanOrEqual = opcodeGreaterThanOrEqual"
| "executeBinary F_opcodeMin = opcodeMin"
| "executeBinary F_opcodeMax = opcodeMax"
| "executeBinary F_opcodeWithin = opcodeWithin"

fun executeCrypto :: "'k lib \<Rightarrow> cryptoFn \<Rightarrow> ('k, unit) engineProc" where
  "executeCrypto L F_opcodeSha256 = opcodeSha256"
| "executeCrypto L F_opcodeBlake2b = opcodeBlake2b L"
| "executeCrypto L F_opcodeCheckSig = opcodeCheckSig L"
| "executeCrypto L F_opcodeCheckSigECDSA = opcodeCheckSigECDSA L"
| "executeCrypto L F_opcodeCheckSigMLDSA44 = opcodeCheckSigMLDSA44 L"
| "executeCrypto L F_opcodeCheckSigVerify = opcodeCheckSigVerify L"
| "executeCrypto L F_opcodeCheckMultiSig = opcodeCheckMultiSig L"
| "executeCrypto L F_opcodeCheckMultiSigECDSA = opcodeCheckMultiSigECDSA L"
| "executeCrypto L F_opcodeCheckMultiSigVerify = opcodeCheckMultiSigVerify L"

text \<open>\<open>pop.opcode.opfunc(pop, vm)\<close>\<close>

definition executeOp :: "'k lib \<Rightarrow> parsedOpcode \<Rightarrow> ('k, unit) engineProc" where
  "executeOp L pop =
     (case opFunc (popOpcode pop) of
        FConst f \<Rightarrow> executeConst f pop
      | FFlow f \<Rightarrow> executeFlow f
      | FStack f \<Rightarrow> executeStack f
      | FUnary f \<Rightarrow> executeUnary f
      | FBinary f \<Rightarrow> executeBinary f
      | FCrypto f \<Rightarrow> executeCrypto L f)"

section \<open>Execution\<close>

definition executeOpcode :: "'k lib \<Rightarrow> parsedOpcode \<Rightarrow> ('k, unit) engineProc" where
  "executeOpcode L pop =
     bnd (gets vflags) (\<lambda>fl.
     if isDisabled pop \<and> fl AND ScriptEnableDisabledOpcodes = 0 then raise (scriptError ErrDisabledOpcode)
     else if alwaysIllegal pop then raise (scriptError ErrReservedOpcode)
     else
       andThen
         (if popValue pop > Op16 then addOps 1
          else if length (popData pop) > MaxScriptElementSize \<and>
            \<not> (fl AND ScriptEnableMLDSA44 \<noteq> 0 \<and> isMLDSA44ElementSize (length (popData pop)))
          then raise (scriptError ErrElementTooBig)
          else ret ())
       (bnd (gets isBranchExecuting) (\<lambda>executing.
       if \<not> executing \<and> \<not> isConditional pop then ret ()
       else
         andThen
           (if executing \<and> popValue pop \<noteq> 0 \<and> popValue pop \<le> OpPushData4
            then liftR (checkMinimalDataPush pop) else ret ())
           (executeOp L pop))))"

definition validPC :: "('k, unit) engineProc" where
  "validPC =
     bnd (gets (\<lambda>vm. vm)) (\<lambda>vm.
     if scriptIdx vm \<ge> length (scripts vm) then raise (scriptError ErrInvalidProgramCounter)
     else if scriptOff vm \<ge> length (scripts vm ! scriptIdx vm) then raise (scriptError ErrInvalidProgramCounter)
     else ret ())"

definition curPC :: "('k, nat \<times> nat) engineProc" where
  "curPC = andThen validPC (gets (\<lambda>vm. (scriptIdx vm, scriptOff vm)))"

definition CheckErrorCondition :: "bool \<Rightarrow> ('k, unit) engineProc" where
  "CheckErrorCondition finalScript =
     bnd (gets (\<lambda>vm. scriptIdx vm < length (scripts vm))) (\<lambda>unfinished.
     if unfinished then raise (scriptError ErrScriptUnfinished)
     else
       andThen
         (if finalScript
          then bnd (dstackDo Depth) (\<lambda>d.
            if d > 1 then raise (scriptError ErrCleanStack)
            else if d < 1 then raise (scriptError ErrEmptyStack) else ret ())
          else ret ())
       (bnd (dstackDo PopBool) (\<lambda>v.
       if \<not> v then raise (scriptError ErrEvalFalse) else ret ())))"

text \<open>\<open>getStack\<close> fills its array from the end, index by index; an error of \<open>PeekByteArray\<close> would leave nil.\<close>

primrec peekAll :: "nat list \<Rightarrow> bytes list stackProc" where
  "peekAll [] = ret []"
| "peekAll (i # is) =
     (if int i > maxInt32 then panic
      else
        bnd (attempt (PeekByteArray (int i))) (\<lambda>so.
        bnd (peekAll is) (\<lambda>below.
        ret (below @ [case so of None \<Rightarrow> [] | Some x \<Rightarrow> x]))))"

definition getStack :: "bytes list stackProc" where
  "getStack = bnd Depth (\<lambda>n. peekAll [0..<nat n])"

primrec pushAll :: "bytes list \<Rightarrow> unit stackProc" where
  "pushAll [] = ret ()"
| "pushAll (x # xs) = andThen (PushByteArray x) (pushAll xs)"

definition setStack :: "bytes list \<Rightarrow> unit stackProc" where
  "setStack data = andThen (bnd Depth (\<lambda>n. ignoreErr (DropN n))) (pushAll data)"

definition GetStack :: "('k, bytes list) engineProc" where
  "GetStack = dstackDo getStack"

definition SetStack :: "bytes list \<Rightarrow> ('k, unit) engineProc" where
  "SetStack data = dstackDo (setStack data)"

definition GetAltStack :: "('k, bytes list) engineProc" where
  "GetAltStack = astackDo getStack"

definition SetAltStack :: "bytes list \<Rightarrow> ('k, unit) engineProc" where
  "SetAltStack data = astackDo (setStack data)"

text \<open>\<open>ParseScript\<close> as its callers use it: the opcodes, or its error.\<close>

definition parsed :: "bytes \<Rightarrow> (goError, parsedOpcode list) result" where
  "parsed script = (case ParseScript script of (pops, None) \<Rightarrow> Inr pops | (_, Some c) \<Rightarrow> Inl (Error (scriptError c)))"

text \<open>The \<open>switch\<close> of \<open>Step\<close>: on to the next script, for pay-to-script-hash by way of the saved stack.\<close>

definition advanceScript :: "('k, unit) engineProc" where
  "advanceScript =
     bnd (gets (\<lambda>vm. vm)) (\<lambda>vm.
     if scriptIdx vm = 0 \<and> isP2SH vm then
       andThen (modify (\<lambda>vm. vm\<lparr>scriptIdx := scriptIdx vm + 1\<rparr>))
       (bnd GetStack (\<lambda>saved. modify (\<lambda>vm. vm\<lparr>savedFirstStack := saved\<rparr>)))
     else if scriptIdx vm = 1 \<and> isP2SH vm then
       andThen (modify (\<lambda>vm. vm\<lparr>scriptIdx := scriptIdx vm + 1\<rparr>))
       (andThen (CheckErrorCondition False)
       (bnd (gets savedFirstStack) (\<lambda>saved.
       bnd (liftR (index saved (int (length saved) - 1))) (\<lambda>script.
       bnd (liftR (parsed script)) (\<lambda>pops.
       andThen (modify (\<lambda>vm. vm\<lparr>scripts := scripts vm @ [pops]\<rparr>))
       (SetStack (take (length saved - 1) saved)))))))
     else modify (\<lambda>vm. vm\<lparr>scriptIdx := scriptIdx vm + 1\<rparr>))"

definition nextScript :: "('k, unit) engineProc" where
  "nextScript =
     bnd (gets condStack) (\<lambda>cs.
     if length cs \<noteq> 0 then raise (scriptError ErrUnbalancedConditional)
     else
       andThen (bnd (astackDo Depth) (\<lambda>n. ignoreErr (astackDo (DropN n))))
       (andThen (modify (\<lambda>vm. vm\<lparr>numOps := 0, scriptOff := 0\<rparr>))
       (andThen advanceScript
       (modify (\<lambda>vm.
          if scriptIdx vm < length (scripts vm) \<and> scriptOff vm \<ge> length (scripts vm ! scriptIdx vm)
          then vm\<lparr>scriptIdx := scriptIdx vm + 1\<rparr> else vm)))))"

definition Step :: "'k lib \<Rightarrow> ('k, bool) engineProc" where
  "Step L =
     andThen validPC
     (bnd (gets (\<lambda>vm. scripts vm ! scriptIdx vm ! scriptOff vm)) (\<lambda>pop.
     andThen (modify (\<lambda>vm. vm\<lparr>scriptOff := scriptOff vm + 1\<rparr>))
     (andThen (executeOpcode L pop)
     (bnd (dstackDo Depth) (\<lambda>d.
     bnd (astackDo Depth) (\<lambda>a.
     if int32 (d + a) > MaxStackSize then raise (scriptError ErrStackOverflow)
     else
       bnd (gets (\<lambda>vm. scriptOff vm \<ge> length (scripts vm ! scriptIdx vm))) (\<lambda>atEnd.
       if atEnd then andThen nextScript (gets (\<lambda>vm. scriptIdx vm \<ge> length (scripts vm)))
       else ret False)))))))"

section \<open>Frames and termination\<close>

lemma keeps_executeOp: "eng.keeps (executeOp L pop)"
proof (cases "opFunc (popOpcode pop)")
  case (FConst f)
  then show ?thesis by (cases f) (simp_all add: executeOp_def keeps_const_handlers)
next
  case (FFlow f)
  then show ?thesis by (cases f) (simp_all add: executeOp_def keeps_flow_handlers)
next
  case (FStack f)
  then show ?thesis by (cases f) (simp_all add: executeOp_def keeps_stack_handlers)
next
  case (FUnary f)
  then show ?thesis by (cases f) (simp_all add: executeOp_def keeps_unary_handlers)
next
  case (FBinary f)
  then show ?thesis by (cases f) (simp_all add: executeOp_def keeps_binary_handlers)
next
  case (FCrypto f)
  then show ?thesis by (cases f) (simp_all add: executeOp_def keeps_sig_handlers keeps_hash_handlers)
qed

lemma keeps_executeOpcode: "eng.keeps (executeOpcode L pop)"
  unfolding executeOpcode_def by (intro handler_keeps_intros keeps_addOps keeps_executeOp)

lemma keeps_CheckErrorCondition: "eng.keeps (CheckErrorCondition b)"
  unfolding CheckErrorCondition_def by (intro handler_keeps_intros)

text \<open>What is left to run: scripts, the redeem script still to come included, and the opcodes of the current one.\<close>

definition scriptsLeft :: "'k Engine \<Rightarrow> nat" where
  "scriptsLeft vm =
     (if isP2SH vm \<and> scriptIdx vm \<le> 1 then 1 else 0) + (length (scripts vm) - scriptIdx vm)"

definition opsLeft :: "'k Engine \<Rightarrow> nat" where
  "opsLeft vm = length (scripts vm ! scriptIdx vm) - scriptOff vm"

lemma stackDo_Depth [simp]:
  "dstackDo Depth vm = (checkedStackSize (length (dstack vm)), vm)"
  "astackDo Depth vm = (checkedStackSize (length (astack vm)), vm)"
  by (simp_all add: dstackDo_def astackDo_def Depth_def proc_defs)

lemma validPC_Inr:
  "validPC vm = (Inr x, vm') \<longleftrightarrow>
     vm' = vm \<and> scriptIdx vm < length (scripts vm) \<and> scriptOff vm < length (scripts vm ! scriptIdx vm)"
  by (auto simp: validPC_def bnd_eq_Inr)

lemma advanceScript_Inr:
  assumes "advanceScript vm = (Inr (), vm')"
  shows "isP2SH vm' = isP2SH vm \<and> scriptIdx vm' = scriptIdx vm + 1 \<and> scriptOff vm' = scriptOff vm \<and>
    vflags vm' = vflags vm \<and> (\<exists>ps. scripts vm' = scripts vm @ ps \<and>
      length ps = (if scriptIdx vm = 1 \<and> isP2SH vm then 1 else 0))"
proof -
  note keep = eng.keepsD [OF keeps_stackDo(1)] eng.keepsD [OF keeps_CheckErrorCondition]
  consider "scriptIdx vm = 0 \<and> isP2SH vm" | "scriptIdx vm = 1 \<and> isP2SH vm"
    | "\<not> (scriptIdx vm = 0 \<and> isP2SH vm)" "\<not> (scriptIdx vm = 1 \<and> isP2SH vm)" by blast
  then show ?thesis
  proof cases
    case 1
    with assms show ?thesis
      by (auto simp: advanceScript_def bnd_eq_Inr andThen_eq_Inr GetStack_def engFrame_def dest!: keep)
  next
    case 2
    with assms show ?thesis
      by (auto simp: advanceScript_def bnd_eq_Inr andThen_eq_Inr SetStack_def engFrame_def dest!: keep)
  next
    case 3
    with assms show ?thesis by (auto simp: advanceScript_def bnd_eq_Inr)
  qed
qed

lemma nextScript_Inr:
  assumes "nextScript vm = (Inr (), vm')"
  obtains vm1 vm2 where "condStack vm = []" "ignoreErr (astackDo (DropN (int (length (astack vm))))) vm = (Inr (), vm1)"
    "advanceScript (vm1\<lparr>numOps := 0, scriptOff := 0\<rparr>) = (Inr (), vm2)"
    "vm' = (if scriptIdx vm2 < length (scripts vm2) \<and> scriptOff vm2 \<ge> length (scripts vm2 ! scriptIdx vm2)
            then vm2\<lparr>scriptIdx := scriptIdx vm2 + 1\<rparr> else vm2)"
  using assms
  by (auto simp: nextScript_def bnd_eq_Inr andThen_eq_Inr checkedStackSize_def split: if_splits)

lemma nextScript_scriptsLeft:
  assumes "nextScript vm = (Inr (), vm')" and "scriptIdx vm < length (scripts vm)"
  shows "scriptsLeft vm' < scriptsLeft vm"
proof -
  from assms(1) obtain vm1 vm2 where
    1: "ignoreErr (astackDo (DropN (int (length (astack vm))))) vm = (Inr (), vm1)" and
    2: "advanceScript (vm1\<lparr>numOps := 0, scriptOff := 0\<rparr>) = (Inr (), vm2)" and
    3: "vm' = (if scriptIdx vm2 < length (scripts vm2) \<and> scriptOff vm2 \<ge> length (scripts vm2 ! scriptIdx vm2)
            then vm2\<lparr>scriptIdx := scriptIdx vm2 + 1\<rparr> else vm2)"
    by (rule nextScript_Inr)
  have "engFrame vm vm1" by (rule eng.keepsD [OF eng.keeps_ignoreErr [OF keeps_stackDo(2)] 1])
  with advanceScript_Inr [OF 2] assms(2) show ?thesis
    unfolding 3 scriptsLeft_def engFrame_def by auto
qed

lemma Step_Inr:
  assumes "Step L vm = (Inr d, vm')"
  obtains vm1 where "scriptIdx vm < length (scripts vm)" "scriptOff vm < length (scripts vm ! scriptIdx vm)"
    "executeOpcode L (scripts vm ! scriptIdx vm ! scriptOff vm) (vm\<lparr>scriptOff := scriptOff vm + 1\<rparr>) = (Inr (), vm1)"
    "engFrame (vm\<lparr>scriptOff := scriptOff vm + 1\<rparr>) vm1"
    "int32 (int (length (dstack vm1)) + int (length (astack vm1))) \<le> MaxStackSize"
    "if scriptOff vm1 \<ge> length (scripts vm1 ! scriptIdx vm1)
     then nextScript vm1 = (Inr (), vm') \<and> d = (scriptIdx vm' \<ge> length (scripts vm'))
     else vm' = vm1 \<and> \<not> d"
proof -
  from assms obtain vm1 where
    a: "scriptIdx vm < length (scripts vm)" "scriptOff vm < length (scripts vm ! scriptIdx vm)" and
    b: "executeOpcode L (scripts vm ! scriptIdx vm ! scriptOff vm) (vm\<lparr>scriptOff := scriptOff vm + 1\<rparr>) = (Inr (), vm1)" and
    c: "int32 (int (length (dstack vm1)) + int (length (astack vm1))) \<le> MaxStackSize"
      "if scriptOff vm1 \<ge> length (scripts vm1 ! scriptIdx vm1)
       then nextScript vm1 = (Inr (), vm') \<and> d = (scriptIdx vm' \<ge> length (scripts vm'))
       else vm' = vm1 \<and> \<not> d"
    by (auto simp: Step_def bnd_eq_Inr andThen_eq_Inr validPC_Inr checkedStackSize_def split: if_splits)
  show thesis by (rule that [OF a b eng.keepsD [OF keeps_executeOpcode b] c])
qed

lemma Step_decreases:
  assumes "Step L vm = (Inr d, vm')"
  shows "(vm', vm) \<in> inv_image (less_than <*lex*> less_than) (\<lambda>vm. (scriptsLeft vm, opsLeft vm))"
proof -
  from assms show ?thesis
  proof (rule Step_Inr)
    fix vm1
    assume pc: "scriptIdx vm < length (scripts vm)" "scriptOff vm < length (scripts vm ! scriptIdx vm)"
      and frame: "engFrame (vm\<lparr>scriptOff := scriptOff vm + 1\<rparr>) vm1"
      and nxt: "if scriptOff vm1 \<ge> length (scripts vm1 ! scriptIdx vm1)
        then nextScript vm1 = (Inr (), vm') \<and> d = (scriptIdx vm' \<ge> length (scripts vm'))
        else vm' = vm1 \<and> \<not> d"
    from frame have vm1: "scriptsLeft vm1 = scriptsLeft vm" "scriptIdx vm1 < length (scripts vm1)"
        "opsLeft vm1 < opsLeft vm"
      using pc by (auto simp: engFrame_def scriptsLeft_def opsLeft_def)
    show ?thesis
    proof (cases "scriptOff vm1 \<ge> length (scripts vm1 ! scriptIdx vm1)")
      case True
      with nxt nextScript_scriptsLeft [of vm1 vm'] vm1 show ?thesis by auto
    next
      case False
      with nxt vm1 show ?thesis by auto
    qed
  qed
qed

section \<open>Execute, Init and Reset\<close>

function executeLoop :: "'k lib \<Rightarrow> 'k Engine \<Rightarrow> (goError, unit) result \<times> 'k Engine" where
  "executeLoop L vm =
     (case Step L vm of
        (Inl e, vm') \<Rightarrow> (Inl e, vm')
      | (Inr done, vm') \<Rightarrow> if done then (Inr (), vm') else executeLoop L vm')"
  by pat_completeness auto

termination
  by (relation "inv_image (less_than <*lex*> less_than) (\<lambda>(_, vm). (scriptsLeft vm, opsLeft vm))")
    (auto dest!: sym [of _ "Step _ _"] Step_decreases)

declare executeLoop.simps [simp del]

definition Execute :: "'k lib \<Rightarrow> ('k, unit) engineProc" where
  "Execute L =
     bnd (gets scriptVersion) (\<lambda>v.
     if v > MaxScriptPublicKeyVersion then raise (scriptError ErrUnsupportedScriptVersion)
     else andThen (executeLoop L) (CheckErrorCondition True))"

definition parseScriptAndVerifySize :: "bytes \<Rightarrow> (goError, parsedOpcode list) result" where
  "parseScriptAndVerifySize script =
     (if length script > MaxScriptSize then Inl (Error (scriptError ErrScriptTooBig)) else parsed script)"

definition Init ::
  "ScriptPublicKey \<Rightarrow> DomainTransaction \<Rightarrow> int \<Rightarrow> ScriptFlags \<Rightarrow> 'k SigCache option \<Rightarrow> 'k SigCache option \<Rightarrow>
   'k MLDSA44Cache option \<Rightarrow> SighashReusedValues option \<Rightarrow> ('k, unit) engineProc" where
  "Init scriptPubKey txn txIdx fl cache cacheECDSA cacheMLDSA44 reusedValues =
     (if txIdx < 0 \<or> txIdx \<ge> int (length (Inputs txn)) then raise (scriptError ErrInvalidIndex)
      else
        bnd (liftR (index (Inputs txn) txIdx)) (\<lambda>txIn.
        let scriptSig = SignatureScript txIn
        in if length scriptSig = 0 \<and> length (Script scriptPubKey) = 0 then raise (scriptError ErrEvalFalse)
           else
             andThen (modify (\<lambda>vm. vm\<lparr>scriptVersion := spkVersion scriptPubKey, vflags := fl, sigCache := cache,
               sigCacheECDSA := cacheECDSA, mldsa44Cache := cacheMLDSA44\<rparr>))
             (if spkVersion scriptPubKey > MaxScriptPublicKeyVersion
              then raise (scriptError ErrUnsupportedScriptVersion)
              else
                bnd (liftR (parseScriptAndVerifySize scriptSig)) (\<lambda>parsedScriptSig.
                if \<not> isPushOnly parsedScriptSig then raise (scriptError ErrNotPushOnly)
                else
                  bnd (liftR (parseScriptAndVerifySize (Script scriptPubKey))) (\<lambda>parsedScriptPubKey.
                  andThen (modify (\<lambda>vm. vm\<lparr>scripts := [parsedScriptSig, parsedScriptPubKey]\<rparr>))
                  (andThen (if length scriptSig = 0
                            then modify (\<lambda>vm. vm\<lparr>scriptIdx := scriptIdx vm + 1\<rparr>) else ret ())
                  (andThen
                    (if isScriptHash parsedScriptPubKey
                     then if \<not> isPushOnly parsedScriptSig then raise (scriptError ErrNotPushOnly)
                          else modify (\<lambda>vm. vm\<lparr>isP2SH := True\<rparr>)
                     else ret ())
                  (modify (\<lambda>vm. vm\<lparr>vtx := txn, vtxIdx := txIdx, sigHashReusedValues := reusedValues\<rparr>)))))))))"

text \<open>The zero value of the struct.\<close>

definition zeroTransaction :: DomainTransaction where
  "zeroTransaction = \<lparr>txVersion = 0, Inputs = [], Outputs = [], LockTime = 0, SubnetworkID = SubnetworkIDNative,
     Gas = 0, Payload = [], Fee = 0, Mass = 0, cachedID = None\<rparr>"

definition zeroEngine :: "'k Engine" where
  "zeroEngine = \<lparr>scriptVersion = 0, scripts = [], scriptIdx = 0, scriptOff = 0, dstack = [], astack = [],
     vtx = zeroTransaction, vtxIdx = 0, condStack = [], numOps = 0, vflags = 0, sigCache = None, sigCacheECDSA = None,
     mldsa44Cache = None, sigHashReusedValues = None, isP2SH = False, savedFirstStack = []\<rparr>"

definition NewEngine ::
  "ScriptPublicKey \<Rightarrow> DomainTransaction \<Rightarrow> int \<Rightarrow> ScriptFlags \<Rightarrow> 'k SigCache option \<Rightarrow> 'k SigCache option \<Rightarrow>
   'k MLDSA44Cache option \<Rightarrow> SighashReusedValues option \<Rightarrow> (goError, 'k Engine) result" where
  "NewEngine scriptPubKey txn txIdx fl cache cacheECDSA cacheMLDSA44 reusedValues =
     (case Init scriptPubKey txn txIdx fl cache cacheECDSA cacheMLDSA44 reusedValues zeroEngine of
        (Inl e, _) \<Rightarrow> Inl e
      | (Inr _, vm) \<Rightarrow> Inr vm)"

definition Reset :: "'k Engine \<Rightarrow> 'k Engine" where
  "Reset vm = vm\<lparr>scripts := [], scriptIdx := 0, scriptOff := 0, dstack := [], astack := [], condStack := [],
     numOps := 0, isP2SH := False, savedFirstStack := []\<rparr>"

end
