(* ===== verification/Script_Safety.thy ===== *)
theory Script_Safety
  imports Script_Exec
begin

text \<open>
  Safety of script execution. The invariant \<open>stepInv\<close> holds of an engine that \<open>Init\<close> has set up and is kept by
  every \<open>Step\<close>; from it follow the resource limits, that execution never panics, that it
  ends within a fixed number of steps, and that the caches do not influence it.
\<close>

section \<open>Opcodes that come out of the parser\<close>

definition popOk :: "parsedOpcode \<Rightarrow> bool" where
  "popOk pop \<longleftrightarrow> (\<exists>b rest rest'. popOpcode pop = opcodeArray b \<and>
     parseData (opcodeArray b) rest = Some (popData pop, rest'))"

lemma ParseScript_popOk: "list_all popOk (fst (ParseScript s))"
proof (induction s rule: ParseScript.induct)
  case (2 instr rest)
  have "popOk \<lparr>popOpcode = opcodeArray instr, popData = d\<rparr>" if "parseData (opcodeArray instr) rest = Some (d, rest')"
    for d rest'
    using that by (auto simp: popOk_def)
  with 2 show ?case by (auto simp: Let_def split: option.split prod.split)
qed simp

lemma ParseScript_length: "length (fst (ParseScript s)) \<le> length s"
proof (induction s rule: ParseScript.induct)
  case (2 instr rest)
  show ?case
  proof (cases "parseData (opcodeArray instr) rest")
    case (Some dr)
    then obtain d rest' where p: "parseData (opcodeArray instr) rest = Some (d, rest')" by (cases dr) auto
    have "length (fst (ParseScript rest')) \<le> length rest'" by (rule "2.IH" [OF refl p refl])
    with p parseData_length [OF p] show ?thesis by (cases "ParseScript rest'") (simp add: Let_def)
  qed (simp add: Let_def)
qed simp

lemma parsed_popOk: "parsed s = Inr pops \<Longrightarrow> list_all popOk pops \<and> length pops \<le> length s"
  using ParseScript_popOk [of s] ParseScript_length [of s]
  by (auto simp: parsed_def split: prod.splits option.splits)

lemma parsed_no_panic: "parsed s \<noteq> Inl GoPanic"
  by (auto simp: parsed_def split: prod.splits option.splits)

lemma opcode_by_value:
  assumes "opValue (opcodeArray b) = v" and "unat v < 178"
  shows "b = v"
proof -
  have "map (\<lambda>op. unat (opValue op)) opcodeTable ! unat b = unat v"
    using assms(1) unat_byte_less [of b] by (simp add: opcodeArray_def nth_map del: unat_byte_less)
  with assms(2) have "unat b = unat v"
    using unat_byte_less [of b] unfolding opcodeTable_values nth_append length_append length_upt
    by (cases "unat b < 178"; cases "unat b < 188") (auto simp del: unat_byte_less upt_Suc upt_rec_numeral split: if_splits)
  then show ?thesis by (rule byte_eqI)
qed

lemma table_shift: "opFunc (opcodeArray b) = FBinary F_opcodeLShift \<Longrightarrow> isDisabled \<lparr>popOpcode = opcodeArray b, popData = d\<rparr>"
  using opcodeArray_all [where P = "\<lambda>op. opFunc op = FBinary F_opcodeLShift \<longrightarrow> isDisabled \<lparr>popOpcode = op, popData = d\<rparr>"]
  by (simp add: opcodeTable_def opcodeTable1_def opcodeTable2_def isDisabled_def)

lemma table_push: "opFunc (opcodeArray b) = FConst F_opcodePushData \<Longrightarrow> opValue (opcodeArray b) \<le> Op16"
  using opcodeArray_all [where P = "\<lambda>op. opFunc op = FConst F_opcodePushData \<longrightarrow> opValue op \<le> Op16"]
  by (simp add: opcodeTable_def opcodeTable1_def opcodeTable2_def)

section \<open>The contract of execution\<close>

lemma ok_executeOp:
  assumes "E < 2 ^ 63" and "opFunc (popOpcode pop) \<noteq> FBinary F_opcodeLShift"
    and "opFunc (popOpcode pop) = FConst F_opcodePushData \<Longrightarrow> length (popData pop) \<le> E"
  shows "eng.ok L E 3 (\<lambda>_. True) (executeOp L pop)"
proof (cases "opFunc (popOpcode pop)")
  case (FConst f)
  with assms(3) show ?thesis by (cases f) (simp_all add: executeOp_def ok_const_handlers)
next
  case (FFlow f)
  then show ?thesis by (cases f) (simp_all add: executeOp_def ok_flow_handlers)
next
  case (FStack f)
  with assms(1) show ?thesis by (cases f) (simp_all add: executeOp_def ok_stack_handlers ok_opcodeSize)
next
  case (FUnary f)
  then show ?thesis by (cases f) (simp_all add: executeOp_def ok_unary_handlers)
next
  case (FBinary f)
  with assms(2) show ?thesis by (cases f) (simp_all add: executeOp_def ok_binary_handlers)
next
  case (FCrypto f)
  then show ?thesis by (cases f) (simp_all add: executeOp_def ok_sig_handlers ok_hash_handlers)
qed

definition elemMax :: "ScriptFlags \<Rightarrow> nat" where
  "elemMax fl = (if fl AND ScriptEnableMLDSA44 \<noteq> 0 then mldsa44_SignatureSize + 1 else MaxScriptElementSize)"

lemma ok_minimal: "eng.ok L E k (\<lambda>_. True) (liftR (checkMinimalDataPush pop))"
  by (rule eng.ok_liftR) (auto simp: checkMinimalDataPush_def Let_def split: if_splits)

lemma ok_executeOpcode_body:
  assumes "popOk pop" and "fl AND ScriptEnableDisabledOpcodes = 0" and "E = elemMax fl"
  shows "eng.ok L E 3 (\<lambda>_. True)
    (if isDisabled pop \<and> fl AND ScriptEnableDisabledOpcodes = 0 then raise (scriptError ErrDisabledOpcode)
     else if alwaysIllegal pop then raise (scriptError ErrReservedOpcode)
     else
       andThen
         (if popValue pop > Op16 then addOps 1
          else if length (popData pop) > MaxScriptElementSize \<and>
            \<not> (fl AND ScriptEnableMLDSA44 \<noteq> 0 \<and> isMLDSA44ElementSize (length (popData pop)))
          then raise (scriptError ErrElementTooBig)
          else ret ())
       (bnd (gets isBranchExecuting) (\<lambda>executing.
       if \<not> executing \<and> \<not> isConditional pop then ret ()
       else
         andThen
           (if executing \<and> popValue pop \<noteq> 0 \<and> popValue pop \<le> OpPushData4
            then liftR (checkMinimalDataPush pop) else ret ())
           (executeOp L pop))))" (is "eng.ok L E 3 _ (if _ then _ else if _ then _ else andThen ?check ?rest)")
proof (cases "isDisabled pop")
  case False
  from assms(1) obtain b where b: "popOpcode pop = opcodeArray b" by (auto simp: popOk_def)
  have E: "E < 2 ^ 63" by (simp add: assms(3) elemMax_def MaxScriptElementSize_def)
  have shift: "opFunc (popOpcode pop) \<noteq> FBinary F_opcodeLShift"
  proof
    assume "opFunc (popOpcode pop) = FBinary F_opcodeLShift"
    with b have "isDisabled \<lparr>popOpcode = opcodeArray b, popData = popData pop\<rparr>" by (intro table_shift) simp
    with False b show False by (simp add: isDisabled_def)
  qed
  have rest: "eng.ok L E 3 (\<lambda>_. True) ?rest"
    if "opFunc (popOpcode pop) = FConst F_opcodePushData \<Longrightarrow> length (popData pop) \<le> E"
    by (rule eng.ok_bnd0 [OF ok_getsAbs], simp, rule eng.ok_if, rule eng.ok_ret, rule TrueI,
        rule eng.ok_andThen0 [where V = "\<lambda>_. True"])
      (auto intro!: ok_minimal eng.ok_ret ok_executeOp [OF E shift that])
  have "eng.ok L E 3 (\<lambda>_. True) (andThen ?check ?rest)"
  proof (cases "popValue pop > Op16")
    case True
    then have "opFunc (popOpcode pop) \<noteq> FConst F_opcodePushData" using table_push [of b] b by auto
    with True rest show ?thesis by (auto intro!: eng.ok_andThen0 [OF ok_addOps])
  next
    case small: False
    show ?thesis
    proof (cases "length (popData pop) > MaxScriptElementSize \<and>
        \<not> (fl AND ScriptEnableMLDSA44 \<noteq> 0 \<and> isMLDSA44ElementSize (length (popData pop)))")
      case True
      with small show ?thesis by (auto intro: eng.ok_raise)
    next
      case False
      then have "length (popData pop) \<le> E"
        by (auto simp: assms(3) elemMax_def isMLDSA44ElementSize_def MaxScriptElementSize_def)
      with rest have "eng.ok L E 3 (\<lambda>_. True) ?rest" by blast
      with small show ?thesis by (simp add: eng.ok_raise)
    qed
  qed
  with False show ?thesis by (auto intro: eng.ok_raise)
qed (simp add: assms(2) eng.ok_raise)

lemma okAt_executeOpcode:
  assumes "popOk pop" and "vflags vm AND ScriptEnableDisabledOpcodes = 0"
    and "engInv L (elemMax (vflags vm)) vm" and "engSize vm + 3 \<le> stackCap"
  shows "eng.okAt L (elemMax (vflags vm)) 3 (\<lambda>_. True) (executeOpcode L pop) vm"
  using eng.okD [OF ok_executeOpcode_body [OF assms(1,2) refl] assms(3,4)]
  by (simp add: executeOpcode_def eng.okAt_def bnd_def gets_def)

section \<open>From one script to the next\<close>

lemma peekAll_eq:
  "small s \<Longrightarrow> i \<le> length s \<Longrightarrow> peekAll [i..<length s] s = (Inr (take (length s - i) s), s)"
proof (induction "length s - i" arbitrary: i)
  case 0
  then show ?case by (simp add: ret_def)
next
  case (Suc n)
  then have i: "i < length s" "[i..<length s] = i # [Suc i..<length s]" by (simp_all add: upt_conv_Cons)
  obtain a b where s: "s = a @ b" "length b = Suc i" using i(1) split_top [of "Suc i" s] by auto
  then obtain x c where b: "b = x # c" by (cases b) auto
  have "PeekByteArray (int i) s = (Inr x, s)" using PeekByteArray_append [of a x c] Suc.prems(1) s b by simp
  moreover have "peekAll [Suc i..<length s] s = (Inr (take (length s - Suc i) s), s)"
    using Suc i(1) by (intro Suc.hyps) simp_all
  moreover have "int i \<le> maxInt32" using Suc.prems(1) i(1) by (simp add: small_def)
  ultimately show ?case using i(2) s b by (simp add: attempt_def bnd_def ret_def)
qed

lemma GetStack_eq: "small (dstack vm) \<Longrightarrow> GetStack vm = (Inr (dstack vm), vm)"
  using peekAll_eq [of "dstack vm" 0]
  by (simp add: GetStack_def dstackDo_def onField_def getStack_def bnd_def Depth_eq)

lemma dropAll_eq: "small s \<Longrightarrow> ignoreErr (DropN (int (length s))) s = (Inr (), [])"
  by (cases "s = []") (auto simp: ignoreErr_def DropN_def DropN_all raise_def)

lemma pushAll_eq: "pushAll xs s = (Inr (), s @ xs)"
  by (induction xs arbitrary: s) (simp_all add: ret_def andThen_def bnd_def PushByteArray_eq)

lemma SetStack_eq: "small (dstack vm) \<Longrightarrow> SetStack xs vm = (Inr (), vm\<lparr>dstack := xs\<rparr>)"
  by (simp add: SetStack_def dstackDo_def onField_def setStack_def bnd_def andThen_def Depth_eq dropAll_eq pushAll_eq)

lemma dropAlt_eq:
  "small (astack vm) \<Longrightarrow> ignoreErr (astackDo (DropN (int (length (astack vm))))) vm = (Inr (), vm\<lparr>astack := []\<rparr>)"
  using dropAll_eq [of "astack vm"]
  by (auto simp: ignoreErr_def astackDo_def onField_def split: prod.splits sum.splits fail.splits)

lemma dPopBool_eq:
  assumes "small (dstack vm)"
  shows "dstackDo PopBool vm =
    (if dstack vm = [] then (Inl (Error (scriptError ErrInvalidStackOperation)), vm)
     else (Inr (asBool (last (dstack vm))), vm\<lparr>dstack := butlast (dstack vm)\<rparr>))"
proof (cases "dstack vm" rule: rev_cases)
  case Nil
  then show ?thesis by (simp add: dstackDo_def onField_def PopBool_def bnd_def)
next
  case (snoc ys y)
  with assms show ?thesis by (simp add: dstackDo_def onField_def PopBool_def bnd_def ret_def)
qed

text \<open>What advancing does, in one step: \<open>skipEmpty\<close> passes over an empty script, \<open>redeem\<close> checks the hash
  comparison and sets up the redeem script.\<close>

definition skipEmpty :: "'k Engine \<Rightarrow> 'k Engine" where
  "skipEmpty vm =
     (if scriptIdx vm < length (scripts vm) \<and> scriptOff vm \<ge> length (scripts vm ! scriptIdx vm)
      then vm\<lparr>scriptIdx := scriptIdx vm + 1\<rparr> else vm)"

definition redeem :: "'k Engine \<Rightarrow> (goError, unit) result \<times> 'k Engine" where
  "redeem vm =
     (if scriptIdx vm < length (scripts vm) then (Inl (Error (scriptError ErrScriptUnfinished)), vm)
      else if dstack vm = [] then (Inl (Error (scriptError ErrInvalidStackOperation)), vm)
      else
        let vm1 = vm\<lparr>dstack := butlast (dstack vm)\<rparr>; saved = savedFirstStack vm
        in if \<not> asBool (last (dstack vm)) then (Inl (Error (scriptError ErrEvalFalse)), vm1)
           else if saved = [] then (Inl GoPanic, vm1)
           else
             case parsed (last saved) of
               Inl e \<Rightarrow> (Inl e, vm1)
             | Inr pops \<Rightarrow> (Inr (), vm\<lparr>scripts := scripts vm @ [pops], dstack := butlast saved\<rparr>))"

lemma CheckErrorCondition_False:
  assumes "small (dstack vm)"
  shows "CheckErrorCondition False vm =
    (if scriptIdx vm < length (scripts vm) then (Inl (Error (scriptError ErrScriptUnfinished)), vm)
     else if dstack vm = [] then (Inl (Error (scriptError ErrInvalidStackOperation)), vm)
     else
       let vm1 = vm\<lparr>dstack := butlast (dstack vm)\<rparr>
       in if asBool (last (dstack vm)) then (Inr (), vm1) else (Inl (Error (scriptError ErrEvalFalse)), vm1))"
  using assms by (auto simp: CheckErrorCondition_def bnd_def gets_def raise_def ret_def dPopBool_eq Let_def)

lemma small_butlast: "small s \<Longrightarrow> small (butlast s)"
  by (simp add: small_def)

lemma advanceScript_eq:
  assumes "small (dstack vm)"
  shows "advanceScript vm =
    (let vm1 = vm\<lparr>scriptIdx := scriptIdx vm + 1\<rparr>
     in if scriptIdx vm = 0 \<and> isP2SH vm then (Inr (), vm1\<lparr>savedFirstStack := dstack vm\<rparr>)
        else if scriptIdx vm = 1 \<and> isP2SH vm then redeem vm1
        else (Inr (), vm1))"
proof -
  have idx: "(index saved (int (length saved) - 1) :: (goError, bytes) result) =
      (if saved = [] then Inl GoPanic else Inr (last saved))" for saved
  proof (cases "saved = []")
    case False
    then have "nat (int (length saved) - 1) = length saved - 1" by (simp add: nat_diff_distrib)
    with False show ?thesis by (simp add: index_def last_conv_nth)
  qed (simp add: index_def)
  show ?thesis
    using assms
    by (auto simp: advanceScript_def bnd_def andThen_def gets_def modify_def liftR_def GetStack_eq
        CheckErrorCondition_False redeem_def idx Let_def SetStack_eq small_butlast split: sum.split)
      (simp add: butlast_conv_take)
qed

lemma nextScript_eq:
  assumes "small (dstack vm)" and "small (astack vm)"
  shows "nextScript vm =
    (if condStack vm \<noteq> [] then (Inl (Error (scriptError ErrUnbalancedConditional)), vm)
     else case advanceScript (vm\<lparr>astack := [], numOps := 0, scriptOff := 0\<rparr>) of
            (Inl e, vm') \<Rightarrow> (Inl e, vm')
          | (Inr _, vm') \<Rightarrow> (Inr (), skipEmpty vm'))"
  using assms
  by (auto simp: nextScript_def bnd_def andThen_def gets_def modify_def raise_def dropAlt_eq skipEmpty_def
      split: prod.split sum.split)

section \<open>The invariant of stepping\<close>

definition p2shInv :: "'k Engine \<Rightarrow> bool" where
  "p2shInv vm \<longleftrightarrow> (isP2SH vm \<longrightarrow>
     isScriptHash (scripts vm ! 1) \<and> (scriptIdx vm \<le> 1 \<longrightarrow> length (scripts vm) = 2) \<and>
     elemsLe (elemMax (vflags vm)) (savedFirstStack vm) \<and> int (length (savedFirstStack vm)) \<le> MaxStackSize \<and>
     (scriptIdx vm = 1 \<longrightarrow>
        (if scriptOff vm = 0 then condStack vm = [] \<and> dstack vm = savedFirstStack vm
         else savedFirstStack vm \<noteq> [])))"

definition stepInv :: "'k lib \<Rightarrow> 'k Engine \<Rightarrow> bool" where
  "stepInv L vm \<longleftrightarrow>
     engInv L (elemMax (vflags vm)) vm \<and> int (engSize vm) \<le> MaxStackSize \<and>
     vflags vm AND ScriptEnableDisabledOpcodes = 0 \<and> list_all (list_all popOk) (scripts vm) \<and> p2shInv vm"

definition stepOf :: "'k lib \<Rightarrow> 'k Engine \<Rightarrow> (goError, unit) result \<times> 'k Engine \<Rightarrow> (goError, bool) result \<times> 'k Engine" where
  "stepOf L vm run =
     (case run of
        (Inl e, vm1) \<Rightarrow> (Inl e, vm1)
      | (Inr _, vm1) \<Rightarrow>
          if int (engSize vm1) > MaxStackSize then (Inl (Error (scriptError ErrStackOverflow)), vm1)
          else if scriptOff vm1 \<ge> length (scripts vm1 ! scriptIdx vm1)
          then (case nextScript vm1 of
                  (Inl e, vm') \<Rightarrow> (Inl e, vm')
                | (Inr _, vm') \<Rightarrow> (Inr (scriptIdx vm' \<ge> length (scripts vm')), vm'))
          else (Inr False, vm1))"

lemma Step_eq:
  assumes "scriptIdx vm < length (scripts vm)" "scriptOff vm < length (scripts vm ! scriptIdx vm)"
    and "executeOpcode L (scripts vm ! scriptIdx vm ! scriptOff vm) (vm\<lparr>scriptOff := scriptOff vm + 1\<rparr>) = (r, vm1)"
    and "engSize vm1 \<le> 1000"
  shows "Step L vm = stepOf L vm (r, vm1)"
proof -
  have i32: "int32 (int (length (dstack vm1)) + int (length (astack vm1))) = int (engSize vm1)"
    using assms(4) by (subst int32_id) (auto simp: engSize_def)
  have "int (length (dstack vm1)) \<le> maxInt32" "int (length (astack vm1)) \<le> maxInt32"
    using assms(4) by (auto simp: engSize_def maxInt32_def)
  then have cs: "checkedStackSize (length (dstack vm1)) = Inr (int (length (dstack vm1)))"
      "checkedStackSize (length (astack vm1)) = Inr (int (length (astack vm1)))"
    by (auto simp: checkedStackSize_def)
  have pc: "validPC vm = (Inr (), vm)" using assms(1,2) by (simp add: validPC_Inr)
  show ?thesis
    using assms(3)
    by (cases r) (auto simp: Step_def stepOf_def andThen_def bnd_def pc gets_def modify_def i32 cs raise_def ret_def
        split: prod.split sum.split)
qed

lemma Step_invalid:
  assumes "\<not> (scriptIdx vm < length (scripts vm) \<and> scriptOff vm < length (scripts vm ! scriptIdx vm))"
  shows "Step L vm = (Inl (Error (scriptError ErrInvalidProgramCounter)), vm)"
  using assms by (auto simp: Step_def validPC_def andThen_def bnd_def gets_def raise_def)

lemma opcodeArray_blake2b: "opcodeArray OpBlake2b = opc OpBlake2b 1 (FCrypto F_opcodeBlake2b)"
  by code_simp

lemma popOk_value:
  assumes "popOk pop" and "unat (popValue pop) < 178"
  shows "popOpcode pop = opcodeArray (popValue pop)"
proof -
  from assms(1) obtain b where b: "popOpcode pop = opcodeArray b" by (auto simp: popOk_def)
  from assms(2) have "b = popValue pop" by (rule opcode_by_value [rotated]) (simp only: b)
  then show ?thesis using b by (simp only:)
qed

lemma executeOpcode_counted:
  assumes "condStack vm = []" and "\<not> isDisabled pop" "\<not> alwaysIllegal pop" and "popValue pop > Op16"
  shows "executeOpcode L pop vm =
    (if numOps vm + 1 > MaxOpsPerScript
     then (Inl (Error (scriptError ErrTooManyOperations)), vm\<lparr>numOps := numOps vm + 1\<rparr>)
     else executeOp L pop (vm\<lparr>numOps := numOps vm + 1\<rparr>))"
proof -
  have "\<not> popValue pop \<le> OpPushData4" using assms(4) by (simp add: word_le_nat_alt word_less_nat_alt)
  with assms show ?thesis
    by (simp add: executeOpcode_def addOps_def andThen_def bnd_def gets_def modify_def raise_def ret_def
        isBranchExecuting_def)
qed

lemma executeOpcode_blake2b:
  assumes "popOk pop" and "popValue pop = OpBlake2b" and "condStack vm = []"
    and "executeOpcode L pop vm = (Inr (), vm1)"
  shows "dstack vm \<noteq> []"
proof
  assume d: "dstack vm = []"
  let ?v = "vm\<lparr>numOps := numOps vm + 1\<rparr>"
  have "popOpcode pop = opc OpBlake2b 1 (FCrypto F_opcodeBlake2b)"
    using popOk_value [OF assms(1)] assms(2) by (simp add: opcodeArray_blake2b)
  then have op: "executeOp L pop = opcodeBlake2b L" by (simp add: executeOp_def)
  have fail: "fst (opcodeBlake2b L ?v) = Inl (Error (scriptError ErrInvalidStackOperation))"
    using d by (simp add: opcodeBlake2b_def bnd_def dstackDo_def onField_def)
  have "executeOpcode L pop vm = (if numOps vm + 1 > MaxOpsPerScript
     then (Inl (Error (scriptError ErrTooManyOperations)), ?v) else executeOp L pop ?v)"
    using assms(2,3) by (intro executeOpcode_counted) (simp_all add: isDisabled_def alwaysIllegal_def)
  then have "fst (executeOpcode L pop vm) \<noteq> Inr ()" using op fail by simp
  with assms(4) show False by simp
qed

lemma skipEmpty_keeps: "engFrame vm (skipEmpty vm) \<or> scriptIdx (skipEmpty vm) = scriptIdx vm + 1"
  by (auto simp: skipEmpty_def)

lemma skipEmpty_simps [simp]:
  "scripts (skipEmpty vm) = scripts vm" "dstack (skipEmpty vm) = dstack vm" "astack (skipEmpty vm) = astack vm"
  "vflags (skipEmpty vm) = vflags vm" "isP2SH (skipEmpty vm) = isP2SH vm" "condStack (skipEmpty vm) = condStack vm"
  "savedFirstStack (skipEmpty vm) = savedFirstStack vm" "scriptOff (skipEmpty vm) = scriptOff vm"
  "engInv L E (skipEmpty vm) = engInv L E vm" "engAbs L (skipEmpty vm) = skipEmpty (engAbs L vm)"
  by (auto simp: skipEmpty_def engInv_def engSafe_def engAbs_def)

lemma engAbs_updates [simp]:
  "engAbs L (vm\<lparr>scriptIdx := i\<rparr>) = (engAbs L vm)\<lparr>scriptIdx := i\<rparr>"
  "engAbs L (vm\<lparr>scriptOff := i\<rparr>) = (engAbs L vm)\<lparr>scriptOff := i\<rparr>"
  "engAbs L (vm\<lparr>numOps := n\<rparr>) = (engAbs L vm)\<lparr>numOps := n\<rparr>"
  "engAbs L (vm\<lparr>dstack := s\<rparr>) = (engAbs L vm)\<lparr>dstack := s\<rparr>"
  "engAbs L (vm\<lparr>astack := s\<rparr>) = (engAbs L vm)\<lparr>astack := s\<rparr>"
  "engAbs L (vm\<lparr>scripts := ps\<rparr>) = (engAbs L vm)\<lparr>scripts := ps\<rparr>"
  "engAbs L (vm\<lparr>savedFirstStack := s\<rparr>) = (engAbs L vm)\<lparr>savedFirstStack := s\<rparr>"
  by (simp_all add: engAbs_def)

lemma redeem_abs: "redeem vm = (r, vm') \<Longrightarrow> redeem (engAbs L vm) = (r, engAbs L vm')"
  by (auto simp: redeem_def Let_def split: if_splits sum.splits)

lemma advanceScript_abs:
  assumes "small (dstack vm)" and "advanceScript vm = (r, vm')"
  shows "advanceScript (engAbs L vm) = (r, engAbs L vm')"
proof -
  let ?v = "vm\<lparr>scriptIdx := scriptIdx vm + 1\<rparr>"
  consider (first) "scriptIdx vm = 0 \<and> isP2SH vm" | (second) "scriptIdx vm = 1 \<and> isP2SH vm"
    | (other) "\<not> (scriptIdx vm = 0 \<and> isP2SH vm)" "\<not> (scriptIdx vm = 1 \<and> isP2SH vm)" by blast
  then show ?thesis
  proof cases
    case first
    with assms show ?thesis by (auto simp: advanceScript_eq Let_def)
  next
    case second
    with assms have "redeem ?v = (r, vm')" by (simp add: advanceScript_eq Let_def)
    then have "redeem (engAbs L ?v) = (r, engAbs L vm')" by (rule redeem_abs)
    with second assms(1) show ?thesis by (simp add: advanceScript_eq Let_def)
  next
    case other
    with assms show ?thesis by (auto simp: advanceScript_eq Let_def)
  qed
qed

lemma nextScript_abs:
  assumes "small (dstack vm)" "small (astack vm)" "nextScript vm = (r, vm')"
  shows "nextScript (engAbs L vm) = (r, engAbs L vm')"
proof -
  let ?v = "vm\<lparr>astack := [], numOps := 0, scriptOff := 0\<rparr>"
  obtain q v' where q: "advanceScript ?v = (q, v')" by (cases "advanceScript ?v")
  have "advanceScript (engAbs L ?v) = (q, engAbs L v')" by (rule advanceScript_abs [OF _ q]) (simp add: assms(1))
  with q assms show ?thesis by (cases "condStack vm = []"; cases q) (auto simp: nextScript_eq)
qed

lemma stepInv_small: "stepInv L vm \<Longrightarrow> small (dstack vm) \<and> small (astack vm)"
  by (auto simp: stepInv_def engSize_def small_def maxInt32_def)

lemma engInv_next:
  assumes "engInv L E vm" and "elemsLe E d"
  shows "engInv L E (vm\<lparr>astack := [], numOps := 0, scriptOff := j, scriptIdx := i, scripts := ps, dstack := d\<rparr>)"
    and "engInv L E (vm\<lparr>astack := [], numOps := 0, scriptOff := j, scriptIdx := i\<rparr>)"
    and "engInv L E (vm\<lparr>astack := [], numOps := 0, scriptOff := j, scriptIdx := i, savedFirstStack := d\<rparr>)"
  using assms by (simp_all add: engInv_def engSafe_def elemsLe_def MaxOpsPerScript_def)

lemma nextScript_stepInv:
  assumes inv: "stepInv L vm" and off: "scriptOff vm \<noteq> 0" and next_vm: "nextScript vm = (Inr (), vm')"
  shows "stepInv L vm'"
proof -
  let ?E = "elemMax (vflags vm)"
  note small = stepInv_small [OF inv]
  from next_vm small obtain v where cond: "condStack vm = []"
    and adv: "advanceScript (vm\<lparr>astack := [], numOps := 0, scriptOff := 0\<rparr>) = (Inr (), v)"
    and vm': "vm' = skipEmpty v"
    by (auto simp: nextScript_eq split: if_splits prod.splits sum.splits)
  from inv have I: "engInv L ?E vm" "int (engSize vm) \<le> MaxStackSize" "vflags vm AND ScriptEnableDisabledOpcodes = 0"
      "list_all (list_all popOk) (scripts vm)" "p2shInv vm" by (auto simp: stepInv_def)
  have d: "elemsLe ?E (dstack vm)" using I(1) by (simp add: engInv_def engSafe_def)
  note eng = engInv_next [OF I(1)]
  consider (first) "scriptIdx vm = 0 \<and> isP2SH vm" | (second) "scriptIdx vm = 1 \<and> isP2SH vm"
    | (other) "\<not> (scriptIdx vm = 0 \<and> isP2SH vm)" "\<not> (scriptIdx vm = 1 \<and> isP2SH vm)" by blast
  then show ?thesis
  proof cases
    case first
    with adv small have v: "v = vm\<lparr>astack := [], numOps := 0, scriptOff := 0, scriptIdx := 1, savedFirstStack := dstack vm\<rparr>"
      by (auto simp: advanceScript_eq Let_def)
    have h: "isScriptHash (scripts vm ! 1)" "length (scripts vm) = 2" using I(5) first by (auto simp: p2shInv_def)
    then have "vm' = v" unfolding vm' v by (auto simp: skipEmpty_def isScriptHash_def)
    with I d h eng(3) [OF d] v cond first show ?thesis
      by (auto simp: stepInv_def p2shInv_def engSize_def)
  next
    case second
    from I(5) second off have p2: "elemsLe ?E (savedFirstStack vm)" "int (length (savedFirstStack vm)) \<le> MaxStackSize"
        "isScriptHash (scripts vm ! 1)" "length (scripts vm) = 2"
      by (auto simp: p2shInv_def)
    from adv small second obtain pops where pops: "parsed (last (savedFirstStack vm)) = Inr pops"
      and v: "v = vm\<lparr>astack := [], numOps := 0, scriptOff := 0, scriptIdx := 2, scripts := scripts vm @ [pops],
        dstack := butlast (savedFirstStack vm)\<rparr>"
      by (auto simp: advanceScript_eq redeem_def Let_def numeral_2_eq_2 split: if_splits sum.splits)
    have bl: "elemsLe ?E (butlast (savedFirstStack vm))" using p2(1) by (auto simp: elemsLe_def dest: in_set_butlastD)
    have "scriptIdx vm' \<ge> 2" unfolding vm' v by (auto simp: skipEmpty_def)
    moreover have "list_all popOk pops" using parsed_popOk [OF pops] by simp
    ultimately show ?thesis
      using I p2 eng(1) [OF bl] unfolding vm' v
      by (auto simp: stepInv_def p2shInv_def engSize_def nth_append)
  next
    case other
    with adv small have v: "v = vm\<lparr>astack := [], numOps := 0, scriptOff := 0, scriptIdx := scriptIdx vm + 1\<rparr>"
      by (auto simp: advanceScript_eq Let_def)
    have "isP2SH vm \<Longrightarrow> scriptIdx vm' \<ge> 2" using other unfolding vm' v by (auto simp: skipEmpty_def)
    with I eng(2) [OF d] show ?thesis
      unfolding vm' v by (auto simp: stepInv_def p2shInv_def engSize_def)
  qed
qed

lemma redeem_no_panic:
  assumes "savedFirstStack vm \<noteq> []"
  shows "fst (redeem vm) \<noteq> Inl GoPanic"
  using assms parsed_no_panic [of "last (savedFirstStack vm)"]
  by (cases "parsed (last (savedFirstStack vm))") (simp_all add: redeem_def Let_def)

lemma nextScript_no_panic:
  assumes inv: "stepInv L vm" and off: "scriptOff vm \<noteq> 0"
  shows "fst (nextScript vm) \<noteq> Inl GoPanic"
proof -
  let ?v = "vm\<lparr>astack := [], numOps := 0, scriptOff := 0\<rparr>"
  have saved: "scriptIdx vm = 1 \<Longrightarrow> isP2SH vm \<Longrightarrow> savedFirstStack vm \<noteq> []"
    using inv off by (auto simp: stepInv_def p2shInv_def)
  have small: "small (dstack vm)" "small (astack vm)" using stepInv_small [OF inv] by simp_all
  obtain r v' where adv: "advanceScript ?v = (r, v')" by (cases "advanceScript ?v")
  have "fst (advanceScript ?v) \<noteq> Inl GoPanic"
    using small saved redeem_no_panic [of "?v\<lparr>scriptIdx := scriptIdx ?v + 1\<rparr>"]
    by (cases "scriptIdx vm = 1") (simp_all add: advanceScript_eq Let_def)
  with adv small show ?thesis by (cases r) (simp_all add: nextScript_eq)
qed

lemma redeem_error: "redeem vm = (Inl e, vm') \<Longrightarrow> vm' = vm \<or> vm' = vm\<lparr>dstack := butlast (dstack vm)\<rparr>"
  by (auto simp: redeem_def Let_def split: if_splits sum.splits)

lemma elemsLe_butlast: "elemsLe E s \<Longrightarrow> elemsLe E (butlast s)"
  by (auto simp: elemsLe_def dest: in_set_butlastD)

lemma nextScript_error:
  assumes "stepInv L vm" and "nextScript vm = (Inl e, vm')"
  shows "engSafe L (elemMax (vflags vm)) vm' \<and> vflags vm' = vflags vm"
proof -
  let ?E = "elemMax (vflags vm)"
  have safe: "engSafe L ?E vm" using assms(1) by (simp add: stepInv_def engInv_def)
  then have d: "elemsLe ?E (dstack vm)" by (simp add: engSafe_def)
  have small: "small (dstack vm)" "small (astack vm)" using stepInv_small [OF assms(1)] by simp_all
  show ?thesis
  proof (cases "condStack vm = []")
    case False
    with assms(2) small safe show ?thesis by (simp add: nextScript_eq)
  next
    case True
    let ?v = "vm\<lparr>astack := [], numOps := 0, scriptOff := 0\<rparr>"
    obtain r v' where adv: "advanceScript ?v = (r, v')" by (cases "advanceScript ?v")
    with assms(2) small True have v': "r = Inl e" "v' = vm'" by (cases r; simp add: nextScript_eq)+
    have "redeem (?v\<lparr>scriptIdx := scriptIdx vm + 1\<rparr>) = (Inl e, vm')"
      using adv small v' by (simp add: advanceScript_eq Let_def split: if_splits)
    from redeem_error [OF this] safe d elemsLe_butlast [OF d] show ?thesis
      by (auto simp: engSafe_def elemsLe_def)
  qed
qed

lemma stepInv_engInv: "stepInv L vm \<Longrightarrow> engInv L (elemMax (vflags vm)) vm"
  by (simp add: stepInv_def)

lemma nextScript_flags: "nextScript vm = (Inr (), vm') \<Longrightarrow> vflags vm' = vflags vm"
  by (erule nextScript_Inr)
    (auto dest!: advanceScript_Inr eng.keepsD [OF eng.keeps_ignoreErr [OF keeps_stackDo(2)]] simp: engFrame_def)

text \<open>One opcode, from a state that satisfies the invariant: everything but the limit on the stacks still holds.\<close>

lemma execute_stepInv:
  assumes inv: "stepInv L vm" and pc: "scriptIdx vm < length (scripts vm)" "scriptOff vm < length (scripts vm ! scriptIdx vm)"
    and run: "executeOpcode L (scripts vm ! scriptIdx vm ! scriptOff vm) (vm\<lparr>scriptOff := scriptOff vm + 1\<rparr>) = (r, vm1)"
  shows "engSize vm1 \<le> 1000"
    and "executeOpcode L (scripts vm ! scriptIdx vm ! scriptOff vm) ((engAbs L vm)\<lparr>scriptOff := scriptOff vm + 1\<rparr>) = (r, engAbs L vm1)"
    and "engFrame (vm\<lparr>scriptOff := scriptOff vm + 1\<rparr>) vm1"
    and "r = Inl e \<Longrightarrow> e \<noteq> GoPanic"
    and "engSafe L (elemMax (vflags vm)) vm1"
    and "r = Inr () \<Longrightarrow> int (engSize vm1) \<le> MaxStackSize \<Longrightarrow> stepInv L vm1"
proof -
  let ?pop = "scripts vm ! scriptIdx vm ! scriptOff vm" and ?v = "vm\<lparr>scriptOff := scriptOff vm + 1\<rparr>"
  let ?E = "elemMax (vflags vm)"
  from inv have I: "engInv L ?E vm" "int (engSize vm) \<le> MaxStackSize" "vflags vm AND ScriptEnableDisabledOpcodes = 0"
      "list_all (list_all popOk) (scripts vm)" "p2shInv vm" by (auto simp: stepInv_def)
  have pop: "popOk ?pop" using I(4) pc by (auto simp: list_all_length)
  have v: "engInv L ?E ?v" "engSize ?v = engSize vm" using I(1) by (auto simp: engInv_def engSafe_def engSize_def)
  have "engSize ?v + 3 \<le> stackCap" using I(2) v(2) by (simp add: stackCap_def)
  with pop I(3) v(1) have ok: "eng.okAt L ?E 3 (\<lambda>_. True) (executeOpcode L ?pop) ?v"
    using okAt_executeOpcode [of ?pop ?v L] by simp
  then show fr: "engFrame ?v vm1" and sz: "engSize vm1 \<le> 1000"
    and "executeOpcode L ?pop ((engAbs L vm)\<lparr>scriptOff := scriptOff vm + 1\<rparr>) = (r, engAbs L vm1)"
    and "r = Inl e \<Longrightarrow> e \<noteq> GoPanic"
    and safe: "engSafe L ?E vm1"
    using run v(2) I(2) by (auto simp: eng.okAt_def engInv_def split: sum.splits)
  assume r: "r = Inr ()" and le: "int (engSize vm1) \<le> MaxStackSize"
  have "engInv L ?E vm1" using ok run r by (simp add: eng.okAt_def)
  moreover have "p2shInv vm1"
    unfolding p2shInv_def
  proof (intro impI)
    assume "isP2SH vm1"
    then have p2: "isP2SH vm" using fr by (simp add: engFrame_def)
    have saved: "savedFirstStack vm \<noteq> []" if idx: "scriptIdx vm = 1"
    proof (cases "scriptOff vm = 0")
      case True
      with I(5) p2 idx have "popValue ?pop = OpBlake2b" "condStack ?v = []" "dstack vm = savedFirstStack vm"
        by (simp_all add: p2shInv_def isScriptHash_def)
      with executeOpcode_blake2b [OF pop, of ?v L vm1] run r show ?thesis by simp
    next
      case False
      with I(5) p2 idx show ?thesis by (simp add: p2shInv_def)
    qed
    from I(5) p2 saved fr show "isScriptHash (scripts vm1 ! 1) \<and> (scriptIdx vm1 \<le> 1 \<longrightarrow> length (scripts vm1) = 2) \<and>
      elemsLe (elemMax (vflags vm1)) (savedFirstStack vm1) \<and> int (length (savedFirstStack vm1)) \<le> MaxStackSize \<and>
      (scriptIdx vm1 = 1 \<longrightarrow> (if scriptOff vm1 = 0 then condStack vm1 = [] \<and> dstack vm1 = savedFirstStack vm1
         else savedFirstStack vm1 \<noteq> []))"
      by (simp add: p2shInv_def engFrame_def)
  qed
  ultimately show "stepInv L vm1" using I fr le by (simp add: stepInv_def engFrame_def)
qed

text \<open>What is to be shown of a run from \<open>vm\<close>, given the run from the engine without caches.\<close>

definition safeRun ::
  "'k lib \<Rightarrow> 'k Engine \<Rightarrow> (goError, 'a) result \<times> 'k Engine \<Rightarrow> (goError, 'a) result \<times> 'k Engine \<Rightarrow> bool" where
  "safeRun L vm run run' \<longleftrightarrow>
     (case run of (r, vm') \<Rightarrow>
        run' = (r, engAbs L vm') \<and> vflags vm' = vflags vm \<and> engSafe L (elemMax (vflags vm)) vm' \<and>
        (case r of Inl e \<Rightarrow> e \<noteq> GoPanic | Inr _ \<Rightarrow> stepInv L vm'))"

lemma nextScript_safe:
  assumes inv: "stepInv L vm" and off: "scriptOff vm \<noteq> 0"
  shows "safeRun L vm (nextScript vm) (nextScript (engAbs L vm))"
proof -
  obtain n vm' where nx: "nextScript vm = (n, vm')" by (cases "nextScript vm")
  have nabs: "nextScript (engAbs L vm) = (n, engAbs L vm')"
    using nextScript_abs [OF _ _ nx] stepInv_small [OF inv] by simp
  show ?thesis
  proof (cases n)
    case (Inl err)
    with nx nabs nextScript_no_panic [OF inv off] nextScript_error [OF inv, of err vm'] show ?thesis
      by (auto simp: safeRun_def)
  next
    case (Inr u)
    with nx have inv': "stepInv L vm'" and fl: "vflags vm' = vflags vm"
      using nextScript_stepInv [OF inv off, of vm'] nextScript_flags [of vm vm'] by auto
    from stepInv_engInv [OF inv'] fl have "engSafe L (elemMax (vflags vm)) vm'" by (simp add: engInv_def)
    with Inr nx nabs inv' fl show ?thesis by (simp add: safeRun_def)
  qed
qed

lemma stepOf_safe:
  assumes inv: "int (engSize vm1) \<le> MaxStackSize \<Longrightarrow> stepInv L vm1" and off: "scriptOff vm1 \<noteq> 0"
    and safe: "engSafe L (elemMax (vflags vm1)) vm1"
  shows "safeRun L vm1 (stepOf L vm (Inr (), vm1)) (stepOf L vm0 (Inr (), engAbs L vm1))"
proof (cases "int (engSize vm1) > MaxStackSize")
  case True
  with safe show ?thesis by (simp add: safeRun_def stepOf_def engSize_def)
next
  case False
  then have inv1: "stepInv L vm1" and sz: "\<not> int (engSize (engAbs L vm1)) > MaxStackSize"
    using inv by (simp_all add: engSize_def)
  obtain n vm' where nx: "nextScript vm1 = (n, vm')" by (cases "nextScript vm1")
  with nextScript_safe [OF inv1 off] have "nextScript (engAbs L vm1) = (n, engAbs L vm')"
    by (simp add: safeRun_def)
  with nx nextScript_safe [OF inv1 off] False sz safe inv1 show ?thesis
    by (cases n) (auto simp: safeRun_def stepOf_def)
qed

lemma Step_safe:
  assumes inv: "stepInv L vm"
  shows "safeRun L vm (Step L vm) (Step L (engAbs L vm))"
proof (cases "scriptIdx vm < length (scripts vm) \<and> scriptOff vm < length (scripts vm ! scriptIdx vm)")
  case False
  then have "Step L vm = (Inl (Error (scriptError ErrInvalidProgramCounter)), vm)"
    "Step L (engAbs L vm) = (Inl (Error (scriptError ErrInvalidProgramCounter)), engAbs L vm)"
    using Step_invalid [of vm L] Step_invalid [of "engAbs L vm" L] by auto
  with inv show ?thesis by (simp add: safeRun_def stepInv_def engInv_def)
next
  case True
  then have pc: "scriptIdx vm < length (scripts vm)" "scriptOff vm < length (scripts vm ! scriptIdx vm)" by simp_all
  let ?pop = "scripts vm ! scriptIdx vm ! scriptOff vm"
  obtain q vm1 where run: "executeOpcode L ?pop (vm\<lparr>scriptOff := scriptOff vm + 1\<rparr>) = (q, vm1)"
    by (cases "executeOpcode L ?pop (vm\<lparr>scriptOff := scriptOff vm + 1\<rparr>)")
  note E = execute_stepInv [OF inv pc run]
  have s1: "Step L vm = stepOf L vm (q, vm1)" by (rule Step_eq [OF pc run E(1)])
  have s2: "Step L (engAbs L vm) = stepOf L (engAbs L vm) (q, engAbs L vm1)"
    using pc E(1,2) by (intro Step_eq) (simp_all add: engSize_def)
  have fl: "vflags vm1 = vflags vm" and off: "scriptOff vm1 \<noteq> 0" using E(3) by (simp_all add: engFrame_def)
  show ?thesis
  proof (cases q)
    case (Inl err)
    with E(4) [OF Inl] E(5) fl s1 s2 show ?thesis by (simp add: stepOf_def safeRun_def)
  next
    case (Inr u)
    with E(5,6) off fl have "safeRun L vm1 (stepOf L vm (q, vm1)) (stepOf L (engAbs L vm) (q, engAbs L vm1))"
      using stepOf_safe [of vm1 L vm "engAbs L vm"] by simp
    with s1 s2 fl show ?thesis by (simp add: safeRun_def)
  qed
qed

section \<open>Reachable states\<close>

inductive reachable :: "'k lib \<Rightarrow> 'k Engine \<Rightarrow> nat \<Rightarrow> 'k Engine \<Rightarrow> bool" for L vm where
  start: "reachable L vm 0 vm"
| step: "reachable L vm n vm1 \<Longrightarrow> Step L vm1 = (Inr d, vm2) \<Longrightarrow> reachable L vm (Suc n) vm2"

lemma reachable_stepInv:
  assumes "reachable L vm n vm'" and "stepInv L vm"
  shows "stepInv L vm' \<and> vflags vm' = vflags vm"
  using assms
proof (induction rule: reachable.induct)
  case (step n vm1 d vm2)
  then show ?case using Step_safe [of L vm1] by (simp add: safeRun_def)
qed simp

lemma executeLoop_safe:
  "stepInv L vm \<Longrightarrow> safeRun L vm (executeLoop L vm) (executeLoop L (engAbs L vm))"
proof (induction L vm rule: executeLoop.induct)
  case (1 L vm)
  obtain r vm1 where s: "Step L vm = (r, vm1)" by (cases "Step L vm")
  note step = Step_safe [OF "1.prems", unfolded s]
  then have sa: "Step L (engAbs L vm) = (r, engAbs L vm1)" by (simp add: safeRun_def)
  show ?case
  proof (cases r)
    case (Inl e)
    with s sa step show ?thesis
      by (simp add: executeLoop.simps [of L vm] executeLoop.simps [of L "engAbs L vm"] safeRun_def)
  next
    case (Inr d)
    show ?thesis
    proof (cases d)
      case True
      with Inr s sa step show ?thesis
        by (simp add: executeLoop.simps [of L vm] executeLoop.simps [of L "engAbs L vm"] safeRun_def)
    next
      case False
      from step Inr have "stepInv L vm1" "vflags vm1 = vflags vm" by (simp_all add: safeRun_def)
      with "1.IH" [OF s [symmetric] Inr] False
      have "safeRun L vm (executeLoop L vm1) (executeLoop L (engAbs L vm1))" by (simp add: safeRun_def)
      with Inr False s sa show ?thesis
        by (simp add: executeLoop.simps [of L vm] executeLoop.simps [of L "engAbs L vm"])
    qed
  qed
qed

lemma ok_CheckErrorCondition: "eng.ok L E 0 (\<lambda>_. True) (CheckErrorCondition b)"
  unfolding CheckErrorCondition_def
  by (rule eng.ok_bnd0 [OF ok_getsAbs], simp, rule eng.ok_if, rule eng.ok_raise,
      rule eng.ok_andThen0 [where V = "\<lambda>_. True"], rule eng.ok_if,
      rule eng.ok_bnd0 [OF ok_dstackDo [OF ok_Depth]], intro eng.ok_if eng.ok_raise eng.ok_ret TrueI,
      rule eng.ok_ret, rule TrueI,
      rule eng.ok_bnd0 [OF ok_dstackDo [OF ok_PopBool]], intro eng.ok_if eng.ok_raise eng.ok_ret TrueI)

lemma Execute_safe:
  assumes inv: "stepInv L vm" and run: "Execute L vm = (r, vm')"
  shows "Execute L (engAbs L vm) = (r, engAbs L vm')" and "r \<noteq> Inl GoPanic"
    and "engSafe L (elemMax (vflags vm)) vm'"
proof -
  obtain q vm1 where l: "executeLoop L vm = (q, vm1)" by (cases "executeLoop L vm")
  note loop = executeLoop_safe [OF inv, unfolded l]
  then have la: "executeLoop L (engAbs L vm) = (q, engAbs L vm1)" by (simp add: safeRun_def)
  have "Execute L (engAbs L vm) = (r, engAbs L vm') \<and> r \<noteq> Inl GoPanic \<and> engSafe L (elemMax (vflags vm)) vm'"
  proof (cases "scriptVersion vm > MaxScriptPublicKeyVersion")
    case True
    with run inv show ?thesis
      by (auto simp: Execute_def bnd_def gets_def raise_def stepInv_def engInv_def)
  next
    case ver: False
    show ?thesis
    proof (cases q)
      case (Inl e)
      with ver run l la loop show ?thesis
        by (auto simp: Execute_def bnd_def andThen_def gets_def safeRun_def)
    next
      case (Inr u)
      from loop Inr have inv1: "stepInv L vm1" and fl: "vflags vm1 = vflags vm" by (simp_all add: safeRun_def)
      from ver run l Inr have c: "CheckErrorCondition True vm1 = (r, vm')"
        by (simp add: Execute_def bnd_def andThen_def gets_def)
      have "engSize vm1 + 0 \<le> stackCap" using inv1 by (simp add: stepInv_def stackCap_def)
      from eng.okD [OF ok_CheckErrorCondition stepInv_engInv [OF inv1] this, of True] c
      have "CheckErrorCondition True (engAbs L vm1) = (r, engAbs L vm')" "r \<noteq> Inl GoPanic"
        "engSafe L (elemMax (vflags vm1)) vm'"
        by (auto simp: eng.okAt_def engInv_def split: sum.splits)
      with ver l la Inr fl show ?thesis by (simp add: Execute_def bnd_def andThen_def gets_def)
    qed
  qed
  then show "Execute L (engAbs L vm) = (r, engAbs L vm')" "r \<noteq> Inl GoPanic"
    "engSafe L (elemMax (vflags vm)) vm'" by auto
qed

end
