(* ===== verification/Script_Correct.thy ===== *)
theory Script_Correct
  imports Script_Safety
begin

text \<open>
  The properties of script execution as a whole: from \<open>NewEngine\<close> on, execution never panics, stays within its
  resource limits, ends after a bounded number of steps, does not depend on the caches, and succeeds
  exactly when it ends with a single true element on the stack.
\<close>

section \<open>Initialised engines\<close>

text \<open>What a caller has to provide: working libraries, no disabled opcodes, the UTXO entry of the
  input, caches that hold verified signatures, and reused values of this transaction.\<close>

definition validCall ::
  "'k lib \<Rightarrow> DomainTransaction \<Rightarrow> int \<Rightarrow> ScriptFlags \<Rightarrow> 'k SigCache option \<Rightarrow> 'k SigCache option \<Rightarrow>
   SighashReusedValues option \<Rightarrow> bool" where
  "validCall L txn i fl c cE rv \<longleftrightarrow>
     libOk L \<and> fl AND ScriptEnableDisabledOpcodes = 0 \<and> utxoEntry (Inputs txn ! nat i) \<noteq> None \<and>
     cacheOk (schnorr L) c \<and> cacheOk (ecdsa L) cE \<and> reusedOk (libBlake3 L) txn rv"

lemma Init_Inr:
  assumes "Init spk txn i fl c cE cM rv vm0 = (Inr (), vm)"
  obtains sig pk where "0 \<le> i" "i < int (length (Inputs txn))"
    "spkVersion spk \<le> MaxScriptPublicKeyVersion"
    "parseScriptAndVerifySize (SignatureScript (Inputs txn ! nat i)) = Inr sig"
    "isPushOnly sig" "parseScriptAndVerifySize (Script spk) = Inr pk"
    "SignatureScript (Inputs txn ! nat i) \<noteq> [] \<or> Script spk \<noteq> []"
    "vm = vm0\<lparr>scriptVersion := spkVersion spk, vflags := fl, sigCache := c, sigCacheECDSA := cE, mldsa44Cache := cM,
       scripts := [sig, pk],
       scriptIdx := (if SignatureScript (Inputs txn ! nat i) = [] then scriptIdx vm0 + 1 else scriptIdx vm0),
       isP2SH := (isScriptHash pk \<or> isP2SH vm0), vtx := txn, vtxIdx := i, sigHashReusedValues := rv\<rparr>"
proof -
  let ?in = "Inputs txn ! nat i"
  note run = assms [unfolded Init_def Let_def andThen_def bnd_def modify_def liftR_def raise_def ret_def]
  have i: "0 \<le> i" "i < int (length (Inputs txn))" using run by (auto split: if_splits)
  then have "index (Inputs txn) i = (Inr ?in :: (goError, _) result)" by simp
  note run1 = run [unfolded this prod.case sum.case]
  have ne: "\<not> (length (SignatureScript ?in) = 0 \<and> length (Script spk) = 0)"
    and ver: "\<not> spkVersion spk > MaxScriptPublicKeyVersion"
    using run1 i by (simp_all split: if_splits)
  obtain sig where sig: "parseScriptAndVerifySize (SignatureScript ?in) = Inr sig"
    using run1 i ne ver by (cases "parseScriptAndVerifySize (SignatureScript ?in)") auto
  have push: "isPushOnly sig" using run1 i ne ver sig by (simp split: if_splits)
  obtain pk where pk: "parseScriptAndVerifySize (Script spk) = Inr pk"
    using run1 i ne ver sig push by (cases "parseScriptAndVerifySize (Script spk)") auto
  show thesis
    by (rule that [OF i _ sig push pk])
      (use run1 i ne ver sig push pk in \<open>auto split: if_splits\<close>)
qed

lemma NewEngine_Inr:
  assumes "NewEngine spk txn i fl c cE cM rv = Inr vm"
  shows "Init spk txn i fl c cE cM rv zeroEngine = (Inr (), vm)"
  using assms by (auto simp: NewEngine_def split: prod.splits sum.splits)

lemma NewEngine_Init:
  "Init spk txn i fl c cE cM rv zeroEngine = (Inr (), vm) \<Longrightarrow> NewEngine spk txn i fl c cE cM rv = Inr vm"
  by (simp add: NewEngine_def)

lemma elemMax_32: "32 \<le> elemMax fl" "elemMax fl \<le> 2421"
  by (simp_all add: elemMax_def MaxScriptElementSize_def)

lemma parseScript_facts:
  assumes "parseScriptAndVerifySize s = Inr pops"
  shows "list_all popOk pops" "length pops \<le> length s" "length s \<le> MaxScriptSize"
  using assms parsed_popOk [of s pops] by (auto simp: parseScriptAndVerifySize_def split: if_splits)

lemma NewEngine_fields:
  assumes "NewEngine spk txn i fl c cE cM rv = Inr vm"
  obtains sig pk where "0 \<le> i" "i < int (length (Inputs txn))"
    "parseScriptAndVerifySize (SignatureScript (Inputs txn ! nat i)) = Inr sig" "isPushOnly sig"
    "parseScriptAndVerifySize (Script spk) = Inr pk" "spkVersion spk \<le> MaxScriptPublicKeyVersion"
    "vm = \<lparr>scriptVersion = spkVersion spk, scripts = [sig, pk],
       scriptIdx = (if SignatureScript (Inputs txn ! nat i) = [] then 1 else 0), scriptOff = 0, dstack = [], astack = [],
       vtx = txn, vtxIdx = i, condStack = [], numOps = 0, vflags = fl, sigCache = c, sigCacheECDSA = cE,
       mldsa44Cache = cM, sigHashReusedValues = rv, isP2SH = isScriptHash pk, savedFirstStack = []\<rparr>"
  using NewEngine_Inr [OF assms] by (rule Init_Inr) (simp add: zeroEngine_def)

lemma NewEngine_stepInv:
  assumes call: "validCall L txn i fl c cE rv" and new: "NewEngine spk txn i fl c cE cM rv = Inr vm"
  shows "stepInv L vm" and "vflags vm = fl"
proof -
  from new obtain sig pk where init: "0 \<le> i" "i < int (length (Inputs txn))"
    "parseScriptAndVerifySize (SignatureScript (Inputs txn ! nat i)) = Inr sig"
    "parseScriptAndVerifySize (Script spk) = Inr pk"
    and vm: "vm = \<lparr>scriptVersion = spkVersion spk, scripts = [sig, pk],
       scriptIdx = (if SignatureScript (Inputs txn ! nat i) = [] then 1 else 0), scriptOff = 0, dstack = [], astack = [],
       vtx = txn, vtxIdx = i, condStack = [], numOps = 0, vflags = fl, sigCache = c, sigCacheECDSA = cE,
       mldsa44Cache = cM, sigHashReusedValues = rv, isP2SH = isScriptHash pk, savedFirstStack = []\<rparr>"
    by (rule NewEngine_fields)
  show fl: "vflags vm = fl" by (simp add: vm)
  have "engInv L (elemMax fl) vm"
    using call init(1,2) elemMax_32(1) [of fl]
    by (simp add: vm validCall_def engInv_def engSafe_def inputOk_def elemsLe_def MaxOpsPerScript_def)
  moreover have "list_all (list_all popOk) (scripts vm)"
    using parseScript_facts(1) [OF init(3)] parseScript_facts(1) [OF init(4)] by (simp add: vm)
  moreover have "p2shInv vm" by (simp add: vm p2shInv_def elemsLe_def)
  moreover have "engSize vm = 0" by (simp add: vm engSize_def)
  ultimately show "stepInv L vm" using call fl by (simp add: stepInv_def validCall_def)
qed

section \<open>The number of steps\<close>

text \<open>The opcodes that are still to come; a redeem script has at most as many as the largest element has bytes.\<close>

definition opsToCome :: "'k Engine \<Rightarrow> nat" where
  "opsToCome vm =
     sum_list (map length (drop (scriptIdx vm) (scripts vm))) - scriptOff vm +
     (if isP2SH vm \<and> scriptIdx vm \<le> 1 then elemMax (vflags vm) else 0)"

lemma skipEmpty_opsToCome:
  assumes "scriptOff vm = 0" and "\<not> (isP2SH vm \<and> scriptIdx vm \<le> 1) \<or> skipEmpty vm = vm"
  shows "opsToCome (skipEmpty vm) = opsToCome vm"
  using assms by (auto simp: skipEmpty_def opsToCome_def simp flip: Cons_nth_drop_Suc)

lemma sum_lengths_drop:
  "i < length xs \<Longrightarrow> sum_list (map length (drop i xs)) = length (xs ! i) + sum_list (map length (drop (Suc i) xs))"
  by (simp flip: Cons_nth_drop_Suc)

lemma nextScript_opsToCome:
  assumes inv: "stepInv L vm" and off: "scriptOff vm = length (scripts vm ! scriptIdx vm)" "scriptOff vm \<noteq> 0"
    and idx: "scriptIdx vm < length (scripts vm)" and nx: "nextScript vm = (Inr (), vm')"
  shows "opsToCome vm' \<le> opsToCome vm"
proof -
  let ?S = "scripts vm" and ?i = "scriptIdx vm"
  from nx stepInv_small [OF inv] obtain v where
    adv: "advanceScript (vm\<lparr>astack := [], numOps := 0, scriptOff := 0\<rparr>) = (Inr (), v)" and vm': "vm' = skipEmpty v"
    by (auto simp: nextScript_eq split: if_splits prod.splits sum.splits)
  have p2: "p2shInv vm" using inv by (simp add: stepInv_def)
  note dr = sum_lengths_drop [OF idx]
  consider (first) "?i = 0 \<and> isP2SH vm" | (second) "?i = 1 \<and> isP2SH vm"
    | (other) "\<not> (?i = 0 \<and> isP2SH vm)" "\<not> (?i = 1 \<and> isP2SH vm)" by blast
  then show ?thesis
  proof cases
    case first
    with adv stepInv_small [OF inv]
    have v: "v = vm\<lparr>astack := [], numOps := 0, scriptOff := 0, scriptIdx := 1, savedFirstStack := dstack vm\<rparr>"
      by (auto simp: advanceScript_eq Let_def)
    have "skipEmpty v = v" using p2 first by (auto simp: v skipEmpty_def p2shInv_def isScriptHash_def)
    moreover from first dr off(1) have "opsToCome v = opsToCome vm" by (simp add: opsToCome_def v)
    ultimately show ?thesis by (simp add: vm')
  next
    case second
    from p2 second off have saved: "elemsLe (elemMax (vflags vm)) (savedFirstStack vm)" "savedFirstStack vm \<noteq> []"
        "length ?S = 2"
      by (auto simp: p2shInv_def)
    from adv stepInv_small [OF inv] second obtain pops where pops: "parsed (last (savedFirstStack vm)) = Inr pops"
      and v: "v = vm\<lparr>astack := [], numOps := 0, scriptOff := 0, scriptIdx := 2, scripts := ?S @ [pops],
        dstack := butlast (savedFirstStack vm)\<rparr>"
      by (auto simp: advanceScript_eq redeem_def Let_def numeral_2_eq_2 split: if_splits sum.splits)
    have "length pops \<le> length (last (savedFirstStack vm))" using parsed_popOk [OF pops] by simp
    also have "\<dots> \<le> elemMax (vflags vm)" using saved by (simp add: elemsLe_def)
    finally have "length pops \<le> elemMax (vflags vm)" .
    moreover have "opsToCome vm' = opsToCome v" unfolding vm' by (rule skipEmpty_opsToCome) (simp_all add: v)
    moreover from second saved(3) dr off(1) have "opsToCome v = length pops" "opsToCome vm = elemMax (vflags vm)"
      by (simp_all add: opsToCome_def v)
    ultimately show ?thesis by simp
  next
    case other
    with adv stepInv_small [OF inv]
    have v: "v = vm\<lparr>astack := [], numOps := 0, scriptOff := 0, scriptIdx := ?i + 1\<rparr>"
      by (auto simp: advanceScript_eq Let_def)
    have "opsToCome vm' = opsToCome v" unfolding vm' by (rule skipEmpty_opsToCome) (use other in \<open>auto simp: v\<close>)
    moreover from other dr off(1) have "opsToCome v \<le> opsToCome vm" by (auto simp: opsToCome_def v)
    ultimately show ?thesis by simp
  qed
qed

lemma Step_opsToCome:
  assumes inv: "stepInv L vm" and step: "Step L vm = (Inr d, vm')"
  shows "opsToCome vm' < opsToCome vm"
proof -
  from step obtain vm1 where pc: "scriptIdx vm < length (scripts vm)" "scriptOff vm < length (scripts vm ! scriptIdx vm)"
    and run: "executeOpcode L (scripts vm ! scriptIdx vm ! scriptOff vm) (vm\<lparr>scriptOff := scriptOff vm + 1\<rparr>) = (Inr (), vm1)"
    and fr: "engFrame (vm\<lparr>scriptOff := scriptOff vm + 1\<rparr>) vm1"
    and sz: "int32 (int (length (dstack vm1)) + int (length (astack vm1))) \<le> MaxStackSize"
    and nx: "if scriptOff vm1 \<ge> length (scripts vm1 ! scriptIdx vm1)
      then nextScript vm1 = (Inr (), vm') \<and> d = (scriptIdx vm' \<ge> length (scripts vm')) else vm' = vm1 \<and> \<not> d"
    by (rule Step_Inr)
  note E = execute_stepInv [OF inv pc run]
  have "int32 (int (length (dstack vm1)) + int (length (astack vm1))) = int (engSize vm1)"
    using E(1) by (subst int32_id) (auto simp: engSize_def)
  with sz E(6) have inv1: "stepInv L vm1" by simp
  note dr = sum_lengths_drop [OF pc(1)]
  have less: "opsToCome vm1 < opsToCome vm" using fr pc dr by (auto simp: opsToCome_def engFrame_def)
  show ?thesis
  proof (cases "scriptOff vm1 \<ge> length (scripts vm1 ! scriptIdx vm1)")
    case True
    with fr pc nx have "opsToCome vm' \<le> opsToCome vm1"
      by (intro nextScript_opsToCome [OF inv1]) (auto simp: engFrame_def)
    with less show ?thesis by simp
  next
    case False
    with nx less show ?thesis by simp
  qed
qed

lemma reachable_opsToCome:
  assumes "reachable L vm n vm'" and "stepInv L vm"
  shows "n + opsToCome vm' \<le> opsToCome vm"
  using assms
proof (induction rule: reachable.induct)
  case (step n vm1 d vm2)
  with Step_opsToCome [of L vm1 d vm2] reachable_stepInv [OF step.hyps(1) step.prems] show ?case by simp
qed simp

lemma NewEngine_opsToCome:
  assumes "NewEngine spk txn i fl c cE cM rv = Inr vm"
  shows "opsToCome vm \<le> 2 * MaxScriptSize"
proof -
  from assms obtain sig pk where init:
    "parseScriptAndVerifySize (SignatureScript (Inputs txn ! nat i)) = Inr sig"
    "parseScriptAndVerifySize (Script spk) = Inr pk"
    and vm: "scripts vm = [sig, pk]" "scriptOff vm = 0" "isP2SH vm \<longleftrightarrow> isScriptHash pk" "scriptIdx vm \<le> 1"
    by (rule NewEngine_fields) simp
  have len: "length sig \<le> MaxScriptSize" "length pk \<le> MaxScriptSize"
    using parseScript_facts(2,3) init by (meson le_trans)+
  have "sum_list (map length (drop (scriptIdx vm) (scripts vm))) \<le> length sig + length pk"
    using vm(1,4) by (cases "scriptIdx vm = 0") (auto simp: le_Suc_eq)
  with len vm elemMax_32(2) [of "vflags vm"] show ?thesis
    by (auto simp: opsToCome_def isScriptHash_def)
qed

lemma executeLoop_reaches:
  "\<exists>n vm1. reachable L vm n vm1 \<and>
     (case Step L vm1 of
        (Inl e, vm2) \<Rightarrow> executeLoop L vm = (Inl e, vm2)
      | (Inr d, vm2) \<Rightarrow> d \<and> executeLoop L vm = (Inr (), vm2))"
proof -
  have "\<exists>n vm1. reachable L vm0 n vm1 \<and>
     (case Step L vm1 of
        (Inl e, vm2) \<Rightarrow> executeLoop L vm = (Inl e, vm2)
      | (Inr d, vm2) \<Rightarrow> d \<and> executeLoop L vm = (Inr (), vm2))" if "reachable L vm0 m vm" for vm0 m
    using that
  proof (induction L vm arbitrary: m rule: executeLoop.induct)
    case (1 L vm)
    obtain r vm' where s: "Step L vm = (r, vm')" by (cases "Step L vm")
    show ?case
    proof (cases "r = Inr False")
      case True
      with s have next_vm: "reachable L vm0 (Suc m) vm'" by (intro reachable.step [OF "1.prems", of False]) simp
      have loop: "executeLoop L vm = executeLoop L vm'" using s True by (simp add: executeLoop.simps [of L vm])
      show ?thesis unfolding loop by (rule "1.IH" [OF s [symmetric] True _ next_vm]) simp
    next
      case False
      have "case Step L vm of
          (Inl e, vm2) \<Rightarrow> executeLoop L vm = (Inl e, vm2)
        | (Inr d, vm2) \<Rightarrow> d \<and> executeLoop L vm = (Inr (), vm2)"
        using s False by (cases r) (auto simp: executeLoop.simps [of L vm])
      from conjI [OF "1.prems" this] show ?thesis by (intro exI)
    qed
  qed
  from this [OF reachable.start] show ?thesis .
qed

section \<open>Properties\<close>

lemma NewEngine_no_panic: "NewEngine spk txn i fl c cE cM rv \<noteq> Inl GoPanic"
proof -
  have "parseScriptAndVerifySize s \<noteq> Inl GoPanic" for s
    using parsed_no_panic [of s] by (simp add: parseScriptAndVerifySize_def)
  then have "fst (Init spk txn i fl c cE cM rv vm) \<noteq> Inl GoPanic" for vm
    by (auto simp: Init_def Let_def andThen_def bnd_def modify_def liftR_def raise_def ret_def index_def
        split: prod.split sum.split)
  then show ?thesis
    by (auto simp: NewEngine_def split: prod.splits sum.splits) (metis fst_conv)
qed


text \<open>An input that spends an output whose script is \<open>OP_1 OP_EQUAL\<close> with the signature script \<open>OP_1\<close>.\<close>

definition exampleSpk :: ScriptPublicKey where
  "exampleSpk = \<lparr>Script = [0x51, 0x87], spkVersion = 0\<rparr>"

lemma toyLib_ok [simp]: "libOk toyLib"
  by (auto simp: toyLib_def libOk_def hash32_def toyScheme_def schemeOk_def min_def)

lemma example_call [simp]: "validCall toyLib exampleTx 0 0 None None (Some emptyReusedValues)"
  by (simp add: validCall_def cacheOk_def reusedOk_def)

definition exampleEngine :: "bytes Engine" where
  "exampleEngine = snd (Init exampleSpk exampleTx 0 0 None None None (Some emptyReusedValues) zeroEngine)"

lemma example_engine [simp]:
  "NewEngine exampleSpk exampleTx 0 0 None None None (Some emptyReusedValues) = Inr exampleEngine"
proof -
  have "fst (Init exampleSpk exampleTx 0 0 None None None (Some emptyReusedValues) (zeroEngine :: bytes Engine)) = Inr ()"
    by code_simp
  then show ?thesis by (auto simp: NewEngine_def exampleEngine_def split: prod.splits sum.splits)
qed

lemma example_success: "fst (Execute toyLib exampleEngine) = Inr ()"
  by code_simp


text \<open>C2: The resource limits hold in every state that execution reaches: the two stacks together hold at most
  244 elements, no element is longer than 520 bytes (2421 with ML-DSA-44 signatures enabled), and at most
  201 operations are counted per script.\<close>

theorem execution_limits:
  assumes "validCall L txn i fl c cE rv" and "NewEngine spk txn i fl c cE cM rv = Inr vm"
    and "reachable L vm n vm'"
  shows "length (dstack vm') + length (astack vm') \<le> 244 \<and>
    (\<forall>x \<in> set (dstack vm' @ astack vm'). length x \<le> (if fl AND ScriptEnableMLDSA44 \<noteq> 0 then 2421 else 520)) \<and>
    numOps vm' \<le> 201"
proof -
  note new = NewEngine_stepInv [OF assms(1,2)]
  from reachable_stepInv [OF assms(3) new(1)] new(2) have "stepInv L vm'" "vflags vm' = fl" by simp_all
  then show ?thesis
    by (auto simp: stepInv_def engInv_def engSafe_def elemsLe_def engSize_def elemMax_def MaxScriptElementSize_def
        MaxOpsPerScript_def)
qed

lemma example_step: "\<exists>vm. reachable toyLib exampleEngine 1 vm \<and> length (dstack vm) = 1"
proof -
  have "fst (Step toyLib exampleEngine) = Inr False" "length (dstack (snd (Step toyLib exampleEngine))) = 1"
    by code_simp+
  then have "reachable toyLib exampleEngine (Suc 0) (snd (Step toyLib exampleEngine))"
    by (intro reachable.step [OF reachable.start, of _ _ False]) (simp add: prod_eq_iff)
  with \<open>length (dstack (snd (Step toyLib exampleEngine))) = 1\<close> show ?thesis by auto
qed

theorem execution_limits_witness:
  "\<exists>vm. reachable toyLib exampleEngine 1 vm \<and> length (dstack vm) = 1 \<and> numOps vm \<le> 201"
  using example_step execution_limits [of toyLib exampleTx 0 0 None None "Some emptyReusedValues" exampleSpk None exampleEngine 1]
  by fastforce

text \<open>C3: Execution ends. The loop of \<open>Execute\<close> stops after at most 20,000 steps, twice the maximal size of a script,
  the redeem script of a pay-to-script-hash output included; what it returns is what its last step returned.\<close>

theorem execution_terminates:
  assumes "validCall L txn i fl c cE rv" and "NewEngine spk txn i fl c cE cM rv = Inr vm"
  shows "(\<exists>n vm1. n \<le> 20000 \<and> reachable L vm n vm1 \<and>
     (case Step L vm1 of
        (Inl e, vm2) \<Rightarrow> executeLoop L vm = (Inl e, vm2)
      | (Inr done, vm2) \<Rightarrow> done \<and> executeLoop L vm = (Inr (), vm2))) \<and>
    (\<forall>n vm1. reachable L vm n vm1 \<longrightarrow> n \<le> 20000)"
proof -
  have bound: "n \<le> 20000" if "reachable L vm n vm1" for n vm1
    using reachable_opsToCome [OF that NewEngine_stepInv(1) [OF assms]] NewEngine_opsToCome [OF assms(2)] by simp
  obtain n vm1 where "reachable L vm n vm1" "case Step L vm1 of
        (Inl e, vm2) \<Rightarrow> executeLoop L vm = (Inl e, vm2)
      | (Inr done, vm2) \<Rightarrow> done \<and> executeLoop L vm = (Inr (), vm2)"
    using executeLoop_reaches [of L vm] by (elim exE conjE)
  with bound show ?thesis by (intro conjI exI [of _ n] exI [of _ vm1]) auto
qed

theorem execution_terminates_witness:
  "\<exists>n vm1. n \<le> 20000 \<and> reachable toyLib exampleEngine n vm1"
  using execution_terminates [of toyLib exampleTx 0 0 None None "Some emptyReusedValues" exampleSpk None exampleEngine]
  by auto



text \<open>C26: A pooled engine is as good as a new one: initialising an engine after \<open>Reset\<close>, whatever it ran before and
  however that ended, gives the same error or the same engine as \<open>NewEngine\<close>.\<close>

theorem reset_then_init:
  "(case Init spk txn i fl c cE cM rv (Reset vm) of (Inl e, _) \<Rightarrow> Inl e | (Inr _, vm') \<Rightarrow> Inr vm') =
   NewEngine spk txn i fl c cE cM rv"
  by (simp add: NewEngine_def Init_def Let_def andThen_def bnd_def modify_def liftR_def raise_def ret_def Reset_def
      zeroEngine_def split: sum.split prod.split)

text \<open>C5: A script succeeds exactly when its version is supported and its execution ends, past the last script, with a
  single element on the stack, and that element is true.\<close>

theorem execute_succeeds_iff:
  "fst (Execute L vm) = Inr () \<longleftrightarrow>
     scriptVersion vm \<le> MaxScriptPublicKeyVersion \<and>
     (\<exists>vm1 x. executeLoop L vm = (Inr (), vm1) \<and> scriptIdx vm1 \<ge> length (scripts vm1) \<and>
        dstack vm1 = [x] \<and> asBool x)"
proof -
  have check: "fst (CheckErrorCondition True vm1) = Inr () \<longleftrightarrow>
      scriptIdx vm1 \<ge> length (scripts vm1) \<and> (\<exists>x. dstack vm1 = [x] \<and> asBool x)" for vm1 :: "'a Engine"
  proof (cases "\<exists>x. dstack vm1 = [x]")
    case True
    then obtain x where x: "dstack vm1 = [x]" by blast
    then have "small (dstack vm1)" by (simp add: small_def maxInt32_def)
    with x show ?thesis
      by (auto simp: CheckErrorCondition_def bnd_def andThen_def gets_def raise_def ret_def dPopBool_eq
          checkedStackSize_def maxInt32_def)
  next
    case False
    then have "dstack vm1 = [] \<or> length (dstack vm1) > 1" by (cases "dstack vm1"; cases "tl (dstack vm1)") auto
    with False show ?thesis
      by (auto simp: CheckErrorCondition_def bnd_def andThen_def gets_def raise_def ret_def checkedStackSize_def)
  qed
  obtain r vm1 where l: "executeLoop L vm = (r, vm1)" by (cases "executeLoop L vm")
  then show ?thesis
    using check [of vm1] by (cases r) (auto simp: Execute_def bnd_def andThen_def gets_def raise_def not_less)
qed

end
