(* ===== verification/Script_Semantics.thy ===== *)
theory Script_Semantics
  imports Script_Safety
begin

text \<open>
  What single opcodes do: the arithmetic opcodes refine integer functions, and the lock time opcodes decide the
  documented conditions.
\<close>

section \<open>Arithmetic\<close>

text \<open>The stack element that represents a number.\<close>

definition numElem :: "int \<Rightarrow> bytes" where
  "numElem n = (case scriptNum_Bytes n of Inl _ \<Rightarrow> [] | Inr v \<Rightarrow> v)"

lemma numElem_eq: "\<bar>n\<bar> < 2 ^ 63 \<Longrightarrow> scriptNum_Bytes n = Inr (numElem n)"
  using scriptNum_Bytes_le8 [of n] by (auto simp: numElem_def)

lemma makeScriptNum_numElem:
  assumes "\<bar>n\<bar> < 2 ^ 31"
  shows "makeScriptNum (numElem n) defaultScriptNumLen = Inr n"
proof -
  from makeScriptNum_Bytes [of n 4] assms obtain v where "scriptNum_Bytes n = Inr v" "makeScriptNum v 4 = Inr n" by auto
  then show ?thesis by (simp add: numElem_def defaultScriptNumLen_def)
qed

lemma dPopInt_eq:
  assumes "\<bar>n\<bar> < 2 ^ 31" and "dstack vm = s @ [numElem n]" and "small (dstack vm)"
  shows "dstackDo PopInt vm = (Inr n, vm\<lparr>dstack := s\<rparr>)"
  using assms makeScriptNum_numElem [OF assms(1)]
  by (simp add: dstackDo_def onField_def PopInt_def bnd_def liftR_def)

lemma dPushInt_eq: "\<bar>n\<bar> < 2 ^ 63 \<Longrightarrow> dstackDo (PushInt n) vm = (Inr (), vm\<lparr>dstack := dstack vm @ [numElem n]\<rparr>)"
  by (simp add: dstackDo_def onField_def PushInt_def PushByteArray_eq numElem_eq)

text \<open>The integer functions that the opcodes with one and with two operands compute; \<open>a\<close> is the second element from
  the top, \<open>b\<close> the top.\<close>

fun unarySpec :: "unaryFn \<Rightarrow> int \<Rightarrow> int" where
  "unarySpec F_opcode1Add m = m + 1"
| "unarySpec F_opcode1Sub m = m - 1"
| "unarySpec F_opcode2Mul m = m * 2"
| "unarySpec F_opcode2Div m = quot m 2"
| "unarySpec F_opcodeNegate m = - m"
| "unarySpec F_opcodeAbs m = \<bar>m\<bar>"
| "unarySpec F_opcodeNot m = (if m = 0 then 1 else 0)"
| "unarySpec F_opcode0NotEqual m = (if m = 0 then 0 else 1)"

definition ofBool :: "bool \<Rightarrow> int option" where
  "ofBool b = Some (if b then 1 else 0)"

fun binarySpec :: "binaryFn \<Rightarrow> int \<Rightarrow> int \<Rightarrow> int option" where
  "binarySpec F_opcodeAdd a b = Some (a + b)"
| "binarySpec F_opcodeSub a b = Some (a - b)"
| "binarySpec F_opcodeMul a b = Some (a * b)"
| "binarySpec F_opcodeDiv a b = (if b = 0 then None else Some (quot a b))"
| "binarySpec F_opcodeMod a b = (if b = 0 then None else Some (rem a b))"
| "binarySpec F_opcodeRShift a b = (if b < 0 \<or> 63 < b then None else Some (a div 2 ^ nat b))"
| "binarySpec F_opcodeLShift a b = (if b < 0 \<or> 63 < b then None else Some (int64 (a * 2 ^ nat b)))"
| "binarySpec F_opcodeBoolAnd a b = ofBool (a \<noteq> 0 \<and> b \<noteq> 0)"
| "binarySpec F_opcodeBoolOr a b = ofBool (a \<noteq> 0 \<or> b \<noteq> 0)"
| "binarySpec F_opcodeNumEqual a b = ofBool (a = b)"
| "binarySpec F_opcodeNumNotEqual a b = ofBool (a \<noteq> b)"
| "binarySpec F_opcodeLessThan a b = ofBool (a < b)"
| "binarySpec F_opcodeGreaterThan a b = ofBool (a > b)"
| "binarySpec F_opcodeLessThanOrEqual a b = ofBool (a \<le> b)"
| "binarySpec F_opcodeGreaterThanOrEqual a b = ofBool (a \<ge> b)"
| "binarySpec F_opcodeMin a b = Some (min a b)"
| "binarySpec F_opcodeMax a b = Some (max a b)"
| "binarySpec F_opcodeNumEqualVerify a b = None"
| "binarySpec F_opcodeWithin a b = None"

lemma binary_pops:
  assumes "\<bar>a\<bar> < 2 ^ 31" "\<bar>b\<bar> < 2 ^ 31" and "dstack vm = s @ [numElem a, numElem b]" and "small (dstack vm)"
  shows "bnd (dstackDo PopInt) (\<lambda>v0. bnd (dstackDo PopInt) (\<lambda>v1. f v0 v1)) vm = f b a (vm\<lparr>dstack := s\<rparr>)"
proof -
  have "dstackDo PopInt vm = (Inr b, vm\<lparr>dstack := s @ [numElem a]\<rparr>)"
    using assms by (intro dPopInt_eq) simp_all
  moreover have "dstackDo PopInt (vm\<lparr>dstack := s @ [numElem a]\<rparr>) = (Inr a, vm\<lparr>dstack := s\<rparr>)"
    using dPopInt_eq [of a "vm\<lparr>dstack := s @ [numElem a]\<rparr>" s] assms by (simp add: small_def)
  ultimately show ?thesis by (simp add: bnd_def)
qed

text \<open>Numbers the engine can push.\<close>

definition fits :: "int \<Rightarrow> bool" where
  "fits n \<longleftrightarrow> \<bar>n\<bar> < 2 ^ 63"

lemma int64_fits: "fits x \<Longrightarrow> int64 x = x"
  unfolding fits_def by (rule int64_id) auto

lemma dPushInt_fits: "fits n \<Longrightarrow> dstackDo (PushInt n) vm = (Inr (), vm\<lparr>dstack := dstack vm @ [numElem n]\<rparr>)"
  unfolding fits_def by (rule dPushInt_eq)

lemma fits_le: "\<bar>x\<bar> \<le> \<bar>a\<bar> + \<bar>b\<bar> \<Longrightarrow> \<bar>a\<bar> < 2 ^ 31 \<Longrightarrow> \<bar>b\<bar> < 2 ^ 31 \<Longrightarrow> fits x"
  unfolding fits_def by simp

lemma fits_arith:
  fixes a b :: int
  assumes "\<bar>a\<bar> < 2 ^ 31" "\<bar>b\<bar> < 2 ^ 31"
  shows "fits (a + b)" "fits (b + a)" "fits (a - b)" "fits (a * b)" "fits (b * a)" "fits (quot a b)" "fits (rem a b)"
    "fits (a div 2 ^ k)" "fits a" "fits b" "fits (min a b)" "fits (max a b)"
proof -
  note le = fits_le [OF _ assms]
  show "fits (a + b)" "fits (b + a)" "fits (a - b)" "fits a" "fits b" "fits (min a b)" "fits (max a b)"
    by (rule le; simp add: min_def max_def)+
  show "fits (quot a b)" "fits (rem a b)" "fits (a div 2 ^ k)"
    using quot_abs_le [of a b] rem_abs_le [of a b] shift_abs_le [of "2 ^ k" a] by (auto intro: le)
  show "fits (a * b)" "fits (b * a)" unfolding fits_def using mul_bound assms by blast+
qed

lemma fits_01: "fits 0" "fits 1"
  by (simp_all add: fits_def)

lemma dPushInt_min: "fst (dstackDo (PushInt (- (2 ^ 63))) vm) = Inl GoPanic"
  using scriptNum_Bytes_minInt64 by (simp add: dstackDo_def onField_def PushInt_def bnd_def liftR_def)

lemma unary_refines:
  assumes "\<bar>a\<bar> < 2 ^ 31" and "dstack vm = s @ [numElem a]" and "small (dstack vm)"
  shows "executeUnary g vm = (Inr (), vm\<lparr>dstack := s @ [numElem (unarySpec g a)]\<rparr>)"
proof -
  have fits: "fits (a + 1)" "fits (a - 1)" "fits (a * 2)" "fits (quot a 2)" "fits (- a)" "fits a"
    using fits_arith [of a 1] fits_arith [of a 2] fits_le [of "- a" a 0] assms(1) by simp_all
  have pop: "dstackDo PopInt vm = (Inr a, vm\<lparr>dstack := s\<rparr>)" by (rule dPopInt_eq [OF assms])
  show ?thesis
    by (cases g) (simp_all only: executeUnary.simps unarySpec.simps unary_handler_defs bnd_def pop prod.case sum.case,
        simp_all add: fits fits_01 int64_fits dPushInt_fits abs_if)
qed

lemma binary_refines:
  assumes "\<bar>a\<bar> < 2 ^ 31" "\<bar>b\<bar> < 2 ^ 31" and "dstack vm = s @ [numElem a, numElem b]" and "small (dstack vm)"
    and "f \<noteq> F_opcodeLShift" "f \<noteq> F_opcodeNumEqualVerify" "f \<noteq> F_opcodeWithin"
  shows "executeBinary f vm =
    (case binarySpec f a b of
       None \<Rightarrow> (Inl (Error (scriptError ErrInvalidStackOperation)), vm\<lparr>dstack := s\<rparr>)
     | Some n \<Rightarrow> (Inr (), vm\<lparr>dstack := s @ [numElem n]\<rparr>))"
  using assms(5-7)
  by (cases f)
    (simp_all only: executeBinary.simps binarySpec.simps binary_handler_defs binary_pops [OF assms(1-4)],
     simp_all add: fits_arith [OF assms(1,2)] fits_01 int64_fits dPushInt_fits ofBool_def raise_def
      add.commute [of b a] mult.commute [of b a] min_def max_def)

lemma shift_refines:
  assumes "\<bar>a\<bar> < 2 ^ 31" "\<bar>b\<bar> < 2 ^ 31" and "dstack vm = s @ [numElem a, numElem b]" and "small (dstack vm)"
  shows "case binarySpec F_opcodeLShift a b of
       None \<Rightarrow> executeBinary F_opcodeLShift vm = (Inl (Error (scriptError ErrInvalidStackOperation)), vm\<lparr>dstack := s\<rparr>)
     | Some n \<Rightarrow>
         if n = - (2 ^ 63) then fst (executeBinary F_opcodeLShift vm) = Inl GoPanic
         else executeBinary F_opcodeLShift vm = (Inr (), vm\<lparr>dstack := s @ [numElem n]\<rparr>)"
proof (cases "b < 0 \<or> 63 < b")
  case True
  then show ?thesis by (simp add: opcodeLShift_def binary_pops [OF assms] raise_def)
next
  case False
  let ?n = "int64 (a * 2 ^ nat b)"
  have "?n \<noteq> - (2 ^ 63) \<Longrightarrow> \<bar>?n\<bar> < 2 ^ 63" using int64_range [of "a * 2 ^ nat b"] by linarith
  with False dPushInt_eq [of ?n "vm\<lparr>dstack := s\<rparr>"] dPushInt_min [of "vm\<lparr>dstack := s\<rparr>"] show ?thesis
    by (auto simp: opcodeLShift_def binary_pops [OF assms])
qed


lemma numElem_examples: "numElem 7 = [7]" "numElem (- 2) = [0x82]" "numElem (- 9) = [0x89]"
  by code_simp+



section \<open>Lock times\<close>

lemma paddedUint64_unat: "length b \<le> 8 \<Longrightarrow> unat (paddedUint64 b) = leNat b"
proof -
  assume "length b \<le> 8"
  have zeros: "leNat (replicate k 0) = 0" for k by (induction k) simp_all
  have "leNat b < 256 ^ length b" by (rule leNat_less)
  also have "(256 :: nat) ^ length b \<le> 256 ^ 8" using \<open>length b \<le> 8\<close> by (intro power_increasing) simp_all
  finally have "leNat b < 2 ^ 64" by simp
  then show ?thesis by (simp add: paddedUint64_def leNat_append zeros unsigned_of_nat take_bit_nat_eq_self)
qed

lemma dPopByteArray_eq:
  "dstack vm = s @ [b] \<Longrightarrow> small (dstack vm) \<Longrightarrow> dstackDo PopByteArray vm = (Inr b, vm\<lparr>dstack := s\<rparr>)"
  by (simp add: dstackDo_def onField_def)

lemma inputSequence_eq:
  assumes "0 \<le> vtxIdx vm" "vtxIdx vm < int (length (Inputs (vtx vm)))"
  shows "inputSequence vm = (Inr (Sequence (Inputs (vtx vm) ! nat (vtxIdx vm))), vm)"
  using assms by (simp add: inputSequence_def bnd_def gets_def liftR_def ret_def)

lemma sequence_disabled: "x AND SequenceLockTimeDisabled = 0 \<longleftrightarrow> \<not> 2 ^ 63 \<le> unat x" for x :: "64 word"
proof -
  have "x AND SequenceLockTimeDisabled \<noteq> 0 \<longleftrightarrow> bit x 63"
    by (simp only: SequenceLockTimeDisabled_def bit_iff_and_push_bit_not_eq_0)
  also have "\<dots> \<longleftrightarrow> bit (unat x) 63" by (simp add: bit_unsigned_iff)
  also have "\<dots> \<longleftrightarrow> odd (unat x div 2 ^ 63)" by (simp only: bit_iff_odd)
  also have "\<dots> \<longleftrightarrow> 2 ^ 63 \<le> unat x"
  proof -
    have "unat x < 2 ^ 64" using unsigned_less [of x] by simp
    then have "unat x div 2 ^ 63 < 2" by (simp add: less_mult_imp_div_less)
    then show ?thesis by (cases "unat x div 2 ^ 63 = 0") (auto simp: div_eq_0_iff less_2_cases_iff)
  qed
  finally show ?thesis by blast
qed

lemma sequence_masked: "unat (x AND SequenceLockTimeMask) = unat x mod 2 ^ 32" for x :: "64 word"
proof -
  have "x AND SequenceLockTimeMask = take_bit 32 x"
    by (simp add: take_bit_eq_mask SequenceLockTimeMask_def mask_eq_exp_minus_1)
  then have "unat (x AND SequenceLockTimeMask) = take_bit 32 (unat x)" by (simp only: unsigned_take_bit_eq)
  then show ?thesis by (simp only: take_bit_eq_mod)
qed

lemma verifyLockTime_eq:
  "verifyLockTime x t = (if unat t \<le> unat x then Inr () else Inl (Error (scriptError ErrUnsatisfiedLockTime)))"
  by (simp add: verifyLockTime_def word_less_nat_alt)

lemma verifyLockTimeWithThreshold_eq:
  "verifyLockTimeWithThreshold x LockTimeThreshold t =
     (if (unat t < 500000000000) = (unat x < 500000000000) \<and> unat t \<le> unat x then Inr ()
      else Inl (Error (scriptError ErrUnsatisfiedLockTime)))"
proof -
  have "unat LockTimeThreshold = 500000000000" by (simp add: LockTimeThreshold_def)
  then show ?thesis
    by (auto simp: verifyLockTimeWithThreshold_def verifyLockTimeThreshold_def verifyLockTime_eq word_less_nat_alt
        word_le_nat_alt)
qed

lemma sequence_finalized: "x = MaxTxInSequenceNum \<longleftrightarrow> unat x = 2 ^ 64 - 1"
  by (simp add: MaxTxInSequenceNum_def word_unat_eq_iff)



end
