(* ===== verification/Script_Flow.thy ===== *)
theory Script_Flow
  imports Script_Correct Script_Semantics
begin

text \<open>
  Control flow: conditional branches, signature scripts that only push, and pay-to-script-hash outputs.
\<close>

section \<open>Conditionals\<close>

text \<open>C21: An opcode in a branch that is not executed does nothing but count as an operation: it changes neither
  stack, unless it is one of the four conditional opcodes. Disabled and always-illegal opcodes
  fail even there.\<close>

theorem skipped_branch_inert:
  assumes "\<not> isBranchExecuting vm" and "\<not> isConditional pop"
  shows "(\<exists>n. snd (executeOpcode L pop vm) = vm\<lparr>numOps := n\<rparr>) \<and>
    (isDisabled pop \<and> vflags vm AND ScriptEnableDisabledOpcodes = 0 \<longrightarrow>
       fst (executeOpcode L pop vm) = Inl (Error (scriptError ErrDisabledOpcode))) \<and>
    (\<not> (isDisabled pop \<and> vflags vm AND ScriptEnableDisabledOpcodes = 0) \<and> alwaysIllegal pop \<longrightarrow>
       fst (executeOpcode L pop vm) = Inl (Error (scriptError ErrReservedOpcode)))"
proof -
  have br: "isBranchExecuting (vm\<lparr>numOps := n\<rparr>) = isBranchExecuting vm" for n by (simp add: isBranchExecuting_def)
  have "snd (executeOpcode L pop vm) = vm\<lparr>numOps := numOps vm\<rparr> \<or>
      snd (executeOpcode L pop vm) = vm\<lparr>numOps := numOps vm + 1\<rparr>"
    using assms
    by (simp add: executeOpcode_def addOps_def andThen_def bnd_def gets_def modify_def raise_def ret_def br)
  then have "\<exists>n. snd (executeOpcode L pop vm) = vm\<lparr>numOps := n\<rparr>" by blast
  then show ?thesis by (simp add: executeOpcode_def bnd_def gets_def raise_def)
qed

theorem skipped_branch_inert_witness:
  "\<exists>n. snd (executeOpcode toyLib \<lparr>popOpcode = opc OpReturn 1 (FFlow F_opcodeReturn), popData = []\<rparr>
     (zeroEngine\<lparr>condStack := [OpCondFalse]\<rparr>)) = zeroEngine\<lparr>condStack := [OpCondFalse], numOps := n\<rparr>"
  using skipped_branch_inert [of "(zeroEngine :: bytes Engine)\<lparr>condStack := [OpCondFalse]\<rparr>"
      "\<lparr>popOpcode = opc OpReturn 1 (FFlow F_opcodeReturn), popData = []\<rparr>" toyLib]
  by (simp add: isBranchExecuting_def isConditional_def OpCondFalse_def OpCondTrue_def)

text \<open>C22: The conditional opcodes select the branch. In an executing branch \<open>OP_IF\<close> and \<open>OP_NOTIF\<close> pop the
  condition, which must be the empty element or the byte 1, and enter the branch it selects; in a branch that is not
  executed they touch no stack and mark the block to be skipped as a whole. \<open>OP_ELSE\<close> exchanges the two
  branches of a block and leaves a skipped block skipped, \<open>OP_ENDIF\<close> returns to the enclosing block, and
  without a block both are errors.\<close>

theorem conditional_opcodes:
  assumes "dstack vm = s @ [x]" and "small (dstack vm)"
  shows "(if isBranchExecuting vm then
            (if x = [] \<or> x = [1] then
               executeFlow F_opcodeIf vm =
                 (Inr (), vm\<lparr>dstack := s, condStack := condStack vm @ [if x = [1] then OpCondTrue else OpCondFalse]\<rparr>) \<and>
               executeFlow F_opcodeNotIf vm =
                 (Inr (), vm\<lparr>dstack := s, condStack := condStack vm @ [if x = [] then OpCondTrue else OpCondFalse]\<rparr>)
             else fst (executeFlow F_opcodeIf vm) = Inl (Error (scriptError ErrMinimalIf)) \<and>
               fst (executeFlow F_opcodeNotIf vm) = Inl (Error (scriptError ErrMinimalIf)))
          else executeFlow F_opcodeIf vm = (Inr (), vm\<lparr>condStack := condStack vm @ [OpCondSkip]\<rparr>) \<and>
            executeFlow F_opcodeNotIf vm = (Inr (), vm\<lparr>condStack := condStack vm @ [OpCondSkip]\<rparr>)) \<and>
         executeFlow F_opcodeElse (vm\<lparr>condStack := cs @ [c]\<rparr>) =
           (Inr (), vm\<lparr>condStack := cs @ [if c = OpCondTrue then OpCondFalse else if c = OpCondFalse then OpCondTrue else c]\<rparr>) \<and>
         executeFlow F_opcodeEndif (vm\<lparr>condStack := cs @ [c]\<rparr>) = (Inr (), vm\<lparr>condStack := cs\<rparr>) \<and>
         fst (executeFlow F_opcodeElse (vm\<lparr>condStack := []\<rparr>)) = Inl (Error (scriptError ErrUnbalancedConditional)) \<and>
         fst (executeFlow F_opcodeEndif (vm\<lparr>condStack := []\<rparr>)) = Inl (Error (scriptError ErrUnbalancedConditional))"
proof -
  have pop: "dstackDo PopByteArray vm = (Inr x, vm\<lparr>dstack := s\<rparr>)" by (rule dPopByteArray_eq [OF assms])
  have x1: "length x = Suc 0 \<and> x ! 0 = 1 \<longleftrightarrow> x = [1]" by (cases x) auto
  have if_ops: "executeFlow F_opcodeIf vm = (if isBranchExecuting vm then
        (if x = [1] then (Inr (), vm\<lparr>dstack := s, condStack := condStack vm @ [OpCondTrue]\<rparr>)
         else if x = [] then (Inr (), vm\<lparr>dstack := s, condStack := condStack vm @ [OpCondFalse]\<rparr>)
         else (Inl (Error (scriptError ErrMinimalIf)), vm\<lparr>dstack := s\<rparr>))
      else (Inr (), vm\<lparr>condStack := condStack vm @ [OpCondSkip]\<rparr>))"
    "executeFlow F_opcodeNotIf vm = (if isBranchExecuting vm then
        (if x = [1] then (Inr (), vm\<lparr>dstack := s, condStack := condStack vm @ [OpCondFalse]\<rparr>)
         else if x = [] then (Inr (), vm\<lparr>dstack := s, condStack := condStack vm @ [OpCondTrue]\<rparr>)
         else (Inl (Error (scriptError ErrMinimalIf)), vm\<lparr>dstack := s\<rparr>))
      else (Inr (), vm\<lparr>condStack := condStack vm @ [OpCondSkip]\<rparr>))"
    by (simp_all add: opcodeIf_def opcodeNotIf_def popIfBool_def bnd_def gets_def modify_def raise_def ret_def pop x1)
  have else_ops: "executeFlow F_opcodeElse (vm\<lparr>condStack := cs @ [c]\<rparr>) =
      (Inr (), vm\<lparr>condStack := cs @ [if c = OpCondTrue then OpCondFalse else if c = OpCondFalse then OpCondTrue else c]\<rparr>)"
    "executeFlow F_opcodeEndif (vm\<lparr>condStack := cs @ [c]\<rparr>) = (Inr (), vm\<lparr>condStack := cs\<rparr>)"
    by (auto simp: opcodeElse_def opcodeEndif_def bnd_def gets_def modify_def ret_def Let_def)
  have unbalanced: "fst (executeFlow F_opcodeElse (vm\<lparr>condStack := []\<rparr>)) = Inl (Error (scriptError ErrUnbalancedConditional))"
    "fst (executeFlow F_opcodeEndif (vm\<lparr>condStack := []\<rparr>)) = Inl (Error (scriptError ErrUnbalancedConditional))"
    by (simp_all add: opcodeElse_def opcodeEndif_def bnd_def gets_def raise_def)
  show ?thesis by (simp add: if_ops else_ops unbalanced del: executeFlow.simps)
qed

theorem conditional_opcodes_witness:
  "executeFlow F_opcodeIf ((zeroEngine :: bytes Engine)\<lparr>dstack := [[1]]\<rparr>)
     = (Inr (), zeroEngine\<lparr>condStack := [OpCondTrue]\<rparr>)"
  using conditional_opcodes [of "(zeroEngine :: bytes Engine)\<lparr>dstack := [[1]]\<rparr>" "[]" "[1]"]
  by (simp add: small_def maxInt32_def isBranchExecuting_def zeroEngine_def)

section \<open>Signature scripts\<close>

lemma table_consts:
  "opValue (opcodeArray b) \<le> Op16 \<Longrightarrow>
   opFunc (opcodeArray b) \<in> {FConst F_opcodeFalse, FConst F_opcodePushData, FConst F_opcode1Negate, FConst F_opcodeN,
     FConst F_opcodeReserved}"
  using opcodeArray_all [where P = "\<lambda>op. opValue op \<le> Op16 \<longrightarrow> opFunc op \<in> {FConst F_opcodeFalse,
     FConst F_opcodePushData, FConst F_opcode1Negate, FConst F_opcodeN, FConst F_opcodeReserved}"]
  by (simp add: opcodeTable_def opcodeTable1_def opcodeTable2_def)

lemma push_executeOp:
  assumes "popOk pop" and "popValue pop \<le> Op16" and "executeOp L pop vm = (Inr (), vm')"
  shows "\<exists>x. vm' = vm\<lparr>dstack := dstack vm @ [x]\<rparr>"
proof -
  from assms(1) obtain b where b: "popOpcode pop = opcodeArray b" by (auto simp: popOk_def)
  have push: "dstackDo (PushByteArray x) v = (Inr (), w) \<Longrightarrow> \<exists>x. w = v\<lparr>dstack := dstack v @ [x]\<rparr>" for x v w
    by (auto simp: dstackDo_def onField_def PushByteArray_eq)
  have pushInt: "\<exists>x. w = v\<lparr>dstack := dstack v @ [x]\<rparr>" if "dstackDo (PushInt n) v = (Inr (), w)" for n v w
    using that by (auto simp: dstackDo_def onField_def PushInt_def bnd_def liftR_def PushByteArray_eq split: sum.splits)
  have "opFunc (popOpcode pop) \<in> {FConst F_opcodeFalse, FConst F_opcodePushData, FConst F_opcode1Negate, FConst F_opcodeN,
     FConst F_opcodeReserved}" using assms(2) table_consts [of b] by (simp add: b)
  then consider "opFunc (popOpcode pop) = FConst F_opcodeFalse" | "opFunc (popOpcode pop) = FConst F_opcodePushData"
    | "opFunc (popOpcode pop) = FConst F_opcode1Negate" | "opFunc (popOpcode pop) = FConst F_opcodeN"
    | "opFunc (popOpcode pop) = FConst F_opcodeReserved" by blast
  then show ?thesis
  proof cases
    case 1
    with assms(3) show ?thesis by (simp add: executeOp_def const_handler_defs push)
  next
    case 2
    with assms(3) show ?thesis by (simp add: executeOp_def const_handler_defs push)
  next
    case 3
    with assms(3) have "dstackDo (PushInt (- 1)) vm = (Inr (), vm')" by (simp add: executeOp_def const_handler_defs)
    then show ?thesis by (rule pushInt)
  next
    case 4
    with assms(3) obtain n where "dstackDo (PushInt n) vm = (Inr (), vm')"
      by (auto simp: executeOp_def const_handler_defs)
    then show ?thesis by (rule pushInt)
  next
    case 5
    with assms(3) show ?thesis by (simp add: executeOp_def const_handler_defs raise_def)
  qed
qed

lemma executeOpcode_push:
  assumes "executeOpcode L pop vm = (Inr (), vm')" and "isBranchExecuting vm" and "popValue pop \<le> Op16"
  shows "executeOp L pop vm = (Inr (), vm')"
proof -
  have v: "\<not> popValue pop > Op16" using assms(3) by simp
  show ?thesis
    using assms(1) unfolding executeOpcode_def
    by (simp add: v assms(2) andThen_def bnd_def gets_def raise_def ret_def liftR_def split: if_splits sum.splits)
qed

text \<open>A signature script only pushes. Whatever opcode of a push-only script the engine executes, if it succeeds it
  has added exactly one element on top of the data stack and changed nothing else.\<close>

theorem push_only_pushes:
  assumes "ParseScript script = (pops, None)" and "isPushOnly pops" and "pop \<in> set pops"
    and "isBranchExecuting vm" and "executeOpcode L pop vm = (Inr (), vm')"
  shows "\<exists>x. vm' = vm\<lparr>dstack := dstack vm @ [x]\<rparr>"
proof -
  have ok: "popOk pop" using ParseScript_popOk [of script] assms(1,3) by (simp add: list_all_iff)
  have v: "popValue pop \<le> Op16" using assms(2,3) by (simp add: isPushOnly_def list_all_iff)
  have "executeOp L pop vm = (Inr (), vm')" using assms(5,4) v by (rule executeOpcode_push)
  with ok v show ?thesis by (rule push_executeOp)
qed

definition examplePush :: parsedOpcode where
  "examplePush = \<lparr>popOpcode = opcodeArray 0x51, popData = []\<rparr>"

theorem push_only_pushes_witness:
  "\<exists>x. snd (executeOpcode toyLib examplePush (zeroEngine :: bytes Engine)) = zeroEngine\<lparr>dstack := [x]\<rparr>"
proof -
  have parse: "ParseScript [0x51] = ([examplePush], None)" by code_simp
  have "fst (executeOpcode toyLib examplePush (zeroEngine :: bytes Engine)) = Inr ()" by code_simp
  then have run: "executeOpcode toyLib examplePush (zeroEngine :: bytes Engine) =
      (Inr (), snd (executeOpcode toyLib examplePush zeroEngine))" by (simp add: prod_eq_iff)
  have "isPushOnly [examplePush]" "isBranchExecuting (zeroEngine :: bytes Engine)" by code_simp+
  from push_only_pushes [OF parse this(1) _ this(2) run] show ?thesis by (simp add: zeroEngine_def)
qed

end
