(* ===== verification/Script_P2SH.thy ===== *)
theory Script_P2SH
  imports Script_Flow
begin

text \<open>
  Pay-to-script-hash outputs: an output script of the form \<open>OP_BLAKE2B hash OP_EQUAL\<close> is spent by revealing a script with
  that hash, and by satisfying it. The states that execution reaches are followed
  through the three opcodes of the output script to the redeem script.
\<close>

section \<open>The three opcodes\<close>

lemma execute_blake2b:
  assumes "popOk pop" and "popValue pop = OpBlake2b" and "condStack vm = []" and "small (dstack vm)"
    and "executeOpcode L pop vm = (Inr (), vm1)"
  shows "dstack vm \<noteq> []"
    and "vm1 = vm\<lparr>numOps := numOps vm + 1, dstack := butlast (dstack vm) @ [blake2b_Sum256 L (last (dstack vm))]\<rparr>"
proof -
  show ne: "dstack vm \<noteq> []" using executeOpcode_blake2b assms(1,2,3,5) by blast
  then obtain s x where d: "dstack vm = s @ [x]" by (cases "dstack vm" rule: rev_cases) auto
  let ?v = "vm\<lparr>numOps := numOps vm + 1\<rparr>"
  have "popOpcode pop = opc OpBlake2b 1 (FCrypto F_opcodeBlake2b)"
    using popOk_value [OF assms(1)] assms(2) by (simp add: opcodeArray_blake2b)
  then have op: "executeOp L pop = opcodeBlake2b L" by (simp add: executeOp_def)
  have "executeOpcode L pop vm = (if numOps vm + 1 > MaxOpsPerScript
     then (Inl (Error (scriptError ErrTooManyOperations)), ?v) else executeOp L pop ?v)"
    using assms(2,3) by (intro executeOpcode_counted) (simp_all add: isDisabled_def alwaysIllegal_def)
  then have run: "opcodeBlake2b L ?v = (Inr (), vm1)" using assms(5) op by (simp split: if_splits)
  have "dstackDo PopByteArray ?v = (Inr x, ?v\<lparr>dstack := s\<rparr>)" using assms(4) d by (intro dPopByteArray_eq) simp_all
  with run d show "vm1 = vm\<lparr>numOps := numOps vm + 1, dstack := butlast (dstack vm) @ [blake2b_Sum256 L (last (dstack vm))]\<rparr>"
    by (simp add: opcodeBlake2b_def bnd_def dstackDo_def onField_def PushByteArray_eq)
qed

lemma execute_data32:
  assumes "popOk pop" and "popValue pop = OpData32" and "condStack vm = []"
    and "executeOpcode L pop vm = (Inr (), vm1)"
  shows "vm1 = vm\<lparr>dstack := dstack vm @ [popData pop]\<rparr>"
proof -
  have "opcodeArray OpData32 = opc OpData32 33 (FConst F_opcodePushData)" by code_simp
  then have "popOpcode pop = opc OpData32 33 (FConst F_opcodePushData)"
    using popOk_value [OF assms(1)] assms(2) by simp
  then have op: "executeOp L pop = opcodePushData pop" by (simp add: executeOp_def)
  have "executeOp L pop vm = (Inr (), vm1)"
    using assms(2,3) by (intro executeOpcode_push [OF assms(4)]) (simp_all add: isBranchExecuting_def)
  then show ?thesis by (simp add: op opcodePushData_def dstackDo_def onField_def PushByteArray_eq)
qed

lemma execute_equal:
  assumes "popOk pop" and "popValue pop = OpEqual" and "condStack vm = []" and "small (dstack vm)"
    and "dstack vm = s @ [a, b]" and "executeOpcode L pop vm = (Inr (), vm1)"
  shows "vm1 = vm\<lparr>numOps := numOps vm + 1, dstack := s @ [fromBool (b = a)]\<rparr>"
proof -
  let ?v = "vm\<lparr>numOps := numOps vm + 1\<rparr>"
  have "opcodeArray OpEqual = opc OpEqual 1 (FStack F_opcodeEqual)" by code_simp
  then have "popOpcode pop = opc OpEqual 1 (FStack F_opcodeEqual)"
    using popOk_value [OF assms(1)] assms(2) by simp
  then have op: "executeOp L pop = opcodeEqual" by (simp add: executeOp_def)
  have "executeOpcode L pop vm = (if numOps vm + 1 > MaxOpsPerScript
     then (Inl (Error (scriptError ErrTooManyOperations)), ?v) else executeOp L pop ?v)"
    using assms(2,3) by (intro executeOpcode_counted) (simp_all add: isDisabled_def alwaysIllegal_def)
  then have run: "opcodeEqual ?v = (Inr (), vm1)" using assms(6) op by (simp split: if_splits)
  have small: "small (s @ [a])" using assms(4,5) by (simp add: small_def)
  have "dstackDo PopByteArray ?v = (Inr b, ?v\<lparr>dstack := s @ [a]\<rparr>)"
    using assms(4,5) by (intro dPopByteArray_eq) simp_all
  moreover have "dstackDo PopByteArray (?v\<lparr>dstack := s @ [a]\<rparr>) = (Inr a, ?v\<lparr>dstack := s\<rparr>)"
    using small dPopByteArray_eq [of "?v\<lparr>dstack := s @ [a]\<rparr>" s a] by simp
  ultimately show ?thesis
    using run by (simp add: opcodeEqual_def bnd_def dstackDo_def onField_def PushBool_def PushByteArray_eq)
qed

section \<open>The trace\<close>

text \<open>The data stack while the output script runs.\<close>

definition hashStack :: "'k lib \<Rightarrow> bytes \<Rightarrow> bytes list \<Rightarrow> nat \<Rightarrow> bytes list" where
  "hashStack L h saved off =
     (if off = 0 then saved
      else butlast saved @ [blake2b_Sum256 L (last saved)] @ (if off = 1 then [] else [h]))"

text \<open>The redeem script has been revealed, has the hash of the output, and was started on the rest of the stack.\<close>

definition redeemed :: "'k lib \<Rightarrow> 'k Engine \<Rightarrow> 'k Engine \<Rightarrow> bool" where
  "redeemed L vm0 vm \<longleftrightarrow>
     (\<exists>st script pops n vm1.
        savedFirstStack vm = st @ [script] \<and> blake2b_Sum256 L script = popData (scripts vm0 ! 1 ! 1) \<and>
        parsed script = Inr pops \<and> scripts vm = scripts vm0 @ [pops] \<and>
        reachable L vm0 n vm1 \<and> scriptIdx vm1 = (if pops = [] then 3 else 2) \<and> scriptOff vm1 = 0 \<and>
        dstack vm1 = st \<and> scripts vm1 = scripts vm)"

definition p2shTrace :: "'k lib \<Rightarrow> 'k Engine \<Rightarrow> 'k Engine \<Rightarrow> bool" where
  "p2shTrace L vm0 vm \<longleftrightarrow>
     isP2SH vm \<and>
     (scriptIdx vm \<le> 1 \<longrightarrow> scripts vm = scripts vm0) \<and>
     (scriptIdx vm = 1 \<longrightarrow> scriptOff vm \<le> 2 \<and> condStack vm = [] \<and> (scriptOff vm \<noteq> 0 \<longrightarrow> savedFirstStack vm \<noteq> []) \<and>
        dstack vm = hashStack L (popData (scripts vm0 ! 1 ! 1)) (savedFirstStack vm) (scriptOff vm)) \<and>
     (scriptIdx vm \<ge> 2 \<longrightarrow> redeemed L vm0 vm)"

lemma redeemed_cong:
  "redeemed L vm0 vm \<Longrightarrow> scripts vm' = scripts vm \<Longrightarrow> savedFirstStack vm' = savedFirstStack vm \<Longrightarrow> redeemed L vm0 vm'"
  by (simp add: redeemed_def)

lemma nextScript_other:
  assumes "small (dstack vm)" "small (astack vm)" and "scriptIdx vm \<ge> 2" and "nextScript vm = (Inr (), vm')"
  shows "scripts vm' = scripts vm \<and> savedFirstStack vm' = savedFirstStack vm \<and> isP2SH vm' = isP2SH vm \<and> scriptIdx vm' \<ge> 2"
  using assms
  by (auto simp: nextScript_eq advanceScript_eq Let_def skipEmpty_def split: if_splits prod.splits sum.splits)

lemma nextScript_first:
  assumes "small (dstack vm)" "small (astack vm)" and "scriptIdx vm = 0" "isP2SH vm"
    and "length (scripts vm) = 2" "length (scripts vm ! 1) = 3" and "nextScript vm = (Inr (), vm')"
  shows "vm' = vm\<lparr>astack := [], numOps := 0, scriptOff := 0, scriptIdx := 1, savedFirstStack := dstack vm\<rparr>"
    and "condStack vm = []"
  using assms
  by (auto simp: nextScript_eq advanceScript_eq Let_def skipEmpty_def split: if_splits prod.splits sum.splits)

lemma nextScript_redeem:
  assumes "small (dstack vm)" "small (astack vm)" and "scriptIdx vm = 1" "isP2SH vm"
    and "length (scripts vm) = 2" and "dstack vm = s @ [x]" and "savedFirstStack vm = st @ [script]"
    and "nextScript vm = (Inr (), vm')"
  obtains pops where "asBool x" "parsed script = Inr pops"
    "vm' = vm\<lparr>astack := [], numOps := 0, scriptOff := 0, scriptIdx := (if pops = [] then 3 else 2),
       scripts := scripts vm @ [pops], dstack := st\<rparr>"
proof -
  let ?v = "vm\<lparr>astack := [], numOps := 0, scriptOff := 0, scriptIdx := 2\<rparr>"
  from assms obtain v where v: "redeem ?v = (Inr (), v)" and vm': "vm' = skipEmpty v"
    by (auto simp: nextScript_eq advanceScript_eq Let_def numeral_2_eq_2 split: if_splits prod.splits sum.splits)
  from v assms obtain pops where p: "asBool x" "parsed script = Inr pops"
      and v': "v = ?v\<lparr>scripts := scripts vm @ [pops], dstack := st\<rparr>"
    by (auto simp: redeem_def Let_def split: if_splits sum.splits)
  from assms(5) have "vm' = vm\<lparr>astack := [], numOps := 0, scriptOff := 0, scriptIdx := (if pops = [] then 3 else 2),
       scripts := scripts vm @ [pops], dstack := st\<rparr>"
    unfolding vm' v' by (simp add: skipEmpty_def nth_append)
  with p show thesis by (rule that)
qed

lemma asBool_fromBool: "asBool (fromBool b) = b"
  by (simp add: asBool_def fromBool_def)

text \<open>One step of the output script.\<close>

lemma hash_step:
  assumes p2: "isScriptHash (scripts vm0 ! 1)" "length (scripts vm0) = 2"
    and small: "small (dstack vm)" "small (dstack vm1)" "small (astack vm1)"
    and t: "scriptOff vm \<le> 2" "condStack vm = []" "scriptOff vm \<noteq> 0 \<longrightarrow> savedFirstStack vm \<noteq> []"
      "dstack vm = hashStack L (popData (scripts vm0 ! 1 ! 1)) (savedFirstStack vm) (scriptOff vm)"
    and f: "scripts vm1 = scripts vm0" "isP2SH vm1" "scriptIdx vm1 = 1" "scripts vm = scripts vm0"
      "scriptOff vm1 = scriptOff vm + 1" "savedFirstStack vm1 = savedFirstStack vm"
    and run: "executeOpcode L (scripts vm0 ! 1 ! scriptOff vm) (vm\<lparr>scriptOff := scriptOff vm + 1\<rparr>) = (Inr (), vm1)"
    and pop: "popOk (scripts vm0 ! 1 ! scriptOff vm)"
    and nx: "if scriptOff vm1 \<ge> length (scripts vm1 ! scriptIdx vm1)
      then nextScript vm1 = (Inr (), vm') \<and> d = (scriptIdx vm' \<ge> length (scripts vm')) else vm' = vm1 \<and> \<not> d"
    and reach: "reachable L vm0 n vm'" and len: "length (scripts vm0 ! 1) = 3"
  shows "p2shTrace L vm0 vm'"
proof -
  let ?v = "vm\<lparr>scriptOff := scriptOff vm + 1\<rparr>" and ?h = "popData (scripts vm0 ! 1 ! 1)"
  have v: "condStack ?v = []" "small (dstack ?v)" using t small by simp_all
  from t(1) consider "scriptOff vm = 0" | "scriptOff vm = 1" | "scriptOff vm = 2" by linarith
  then show ?thesis
  proof cases
    case 1
    with p2 have val: "popValue (scripts vm0 ! 1 ! scriptOff vm) = OpBlake2b" by (simp add: isScriptHash_def)
    from execute_blake2b [OF pop val v run] 1 t f nx len show ?thesis
      by (simp add: p2shTrace_def hashStack_def)
  next
    case 2
    with p2 have val: "popValue (scripts vm0 ! 1 ! scriptOff vm) = OpData32" by (simp add: isScriptHash_def)
    from execute_data32 [OF pop val v(1) run] 2 t f nx len show ?thesis
      by (simp add: p2shTrace_def hashStack_def)
  next
    case 3
    with p2 have val: "popValue (scripts vm0 ! 1 ! scriptOff vm) = OpEqual" by (simp add: isScriptHash_def)
    obtain st script where saved: "savedFirstStack vm = st @ [script]"
      using t(3) 3 by (cases "savedFirstStack vm" rule: rev_cases) auto
    with t(4) 3 have d: "dstack ?v = st @ [blake2b_Sum256 L script, ?h]" by (simp add: hashStack_def)
    from execute_equal [OF pop val v d run] have d1: "dstack vm1 = st @ [fromBool (?h = blake2b_Sum256 L script)]" by simp
    from nx 3 f len have "nextScript vm1 = (Inr (), vm')" by simp
    from nextScript_redeem [OF small(2,3) f(3,2) _ d1 _ this, of st script] p2(2) f saved
    obtain pops where p: "asBool (fromBool (?h = blake2b_Sum256 L script))" "parsed script = Inr pops"
      and vm': "vm' = vm1\<lparr>astack := [], numOps := 0, scriptOff := 0, scriptIdx := (if pops = [] then 3 else 2),
       scripts := scripts vm0 @ [pops], dstack := st\<rparr>" by metis
    from vm' f saved have fields: "savedFirstStack vm' = st @ [script]" "scripts vm' = scripts vm0 @ [pops]"
      "scriptIdx vm' = (if pops = [] then 3 else 2)" "scriptOff vm' = 0" "dstack vm' = st" by simp_all
    have "redeemed L vm0 vm'"
      unfolding redeemed_def
      by (intro exI [of _ st] exI [of _ script] exI [of _ pops] exI [of _ n] exI [of _ vm'])
        (use p in \<open>simp add: fields asBool_fromBool reach\<close>)
    with vm' f show ?thesis by (simp add: p2shTrace_def)
  qed
qed

lemma Step_p2shTrace:
  assumes inv: "stepInv L vm" and tr: "p2shTrace L vm0 vm" and reach: "reachable L vm0 n vm"
    and p2: "isScriptHash (scripts vm0 ! 1)" "length (scripts vm0) = 2" and step: "Step L vm = (Inr d, vm')"
  shows "p2shTrace L vm0 vm'"
proof -
  from step obtain vm1 where pc: "scriptIdx vm < length (scripts vm)" "scriptOff vm < length (scripts vm ! scriptIdx vm)"
    and run: "executeOpcode L (scripts vm ! scriptIdx vm ! scriptOff vm) (vm\<lparr>scriptOff := scriptOff vm + 1\<rparr>) = (Inr (), vm1)"
    and fr: "engFrame (vm\<lparr>scriptOff := scriptOff vm + 1\<rparr>) vm1"
    and sz: "int32 (int (length (dstack vm1)) + int (length (astack vm1))) \<le> MaxStackSize"
    and nx: "if scriptOff vm1 \<ge> length (scripts vm1 ! scriptIdx vm1)
      then nextScript vm1 = (Inr (), vm') \<and> d = (scriptIdx vm' \<ge> length (scripts vm')) else vm' = vm1 \<and> \<not> d"
    by (rule Step_Inr)
  have small: "small (dstack vm)" "small (dstack vm1)" "small (astack vm1)"
    using stepInv_small [OF inv] execute_stepInv(1) [OF inv pc run] by (auto simp: small_def engSize_def maxInt32_def)
  have next_reach: "reachable L vm0 (Suc n) vm'" by (rule reachable.step [OF reach step])
  consider "scriptIdx vm = 0" | "scriptIdx vm = 1" | "scriptIdx vm \<ge> 2" by linarith
  then show ?thesis
  proof cases
    case 1
    with tr fr have f: "scripts vm1 = scripts vm0" "isP2SH vm1" "scriptIdx vm1 = 0"
      by (simp_all add: p2shTrace_def engFrame_def)
    with p2 nextScript_first [OF small(2,3) f(3,2)] nx show ?thesis
      by (auto simp: p2shTrace_def isScriptHash_def hashStack_def split: if_splits)
  next
    case 2
    from tr fr 2 have f: "scripts vm1 = scripts vm0" "isP2SH vm1" "scriptIdx vm1 = 1" "scripts vm = scripts vm0"
        "scriptOff vm1 = scriptOff vm + 1" "savedFirstStack vm1 = savedFirstStack vm"
      by (simp_all add: p2shTrace_def engFrame_def)
    from tr 2 have t: "scriptOff vm \<le> 2" "condStack vm = []" "scriptOff vm \<noteq> 0 \<longrightarrow> savedFirstStack vm \<noteq> []"
        "dstack vm = hashStack L (popData (scripts vm0 ! 1 ! 1)) (savedFirstStack vm) (scriptOff vm)"
      by (simp_all add: p2shTrace_def)
    have len: "length (scripts vm0 ! 1) = 3" using p2 by (simp add: isScriptHash_def)
    have pop: "popOk (scripts vm0 ! 1 ! scriptOff vm)" using inv pc f(4) 2 by (auto simp: stepInv_def list_all_length)
    note run' = run [unfolded f(4) 2]
    show ?thesis by (rule hash_step [OF p2 small t f run' pop nx next_reach len])
  next
    case 3
    from tr 3 have "redeemed L vm0 vm" "isP2SH vm" by (simp_all add: p2shTrace_def)
    moreover have "scripts vm' = scripts vm \<and> savedFirstStack vm' = savedFirstStack vm \<and> isP2SH vm' = isP2SH vm \<and> scriptIdx vm' \<ge> 2"
      using nx nextScript_other [OF small(2,3), of vm'] fr 3 by (auto simp: engFrame_def split: if_splits)
    ultimately show ?thesis using redeemed_cong [of L vm0 vm vm'] by (simp add: p2shTrace_def)
  qed
qed

lemma reachable_p2shTrace:
  assumes "reachable L vm0 n vm" and "stepInv L vm0" and "p2shTrace L vm0 vm0"
    and "isScriptHash (scripts vm0 ! 1)" "length (scripts vm0) = 2"
  shows "p2shTrace L vm0 vm"
  using assms
proof (induction rule: reachable.induct)
  case (step n vm1 d vm2)
  have "stepInv L vm1" using reachable_stepInv [OF step.hyps(1) step.prems(1)] by simp
  from Step_p2shTrace [OF this step.IH [OF step.prems] step.hyps(1) step.prems(3,4) step.hyps(2)] show ?case .
qed

lemma Execute_Inr:
  assumes "Execute L vm = (Inr (), vm')"
  obtains vm2 where "executeLoop L vm = (Inr (), vm2)" "CheckErrorCondition True vm2 = (Inr (), vm')"
  using assms by (auto simp: Execute_def bnd_def andThen_def gets_def raise_def split: if_splits prod.splits sum.splits)

lemma CheckErrorCondition_Inr:
  assumes "CheckErrorCondition True vm = (Inr (), vm')"
  shows "scriptIdx vm \<ge> length (scripts vm)" "scripts vm' = scripts vm" "savedFirstStack vm' = savedFirstStack vm"
proof -
  have "engFrame vm vm'" using eng.keepsD [OF keeps_CheckErrorCondition assms] .
  then show "scripts vm' = scripts vm" "savedFirstStack vm' = savedFirstStack vm" by (simp_all add: engFrame_def)
  show "scriptIdx vm \<ge> length (scripts vm)"
    using assms by (auto simp: CheckErrorCondition_def bnd_def gets_def raise_def split: if_splits)
qed

text \<open>C8: A pay-to-script-hash output is spent only with its script. When execution succeeds, the signature script has left on top of
  the stack a script whose BLAKE2b hash is the one in the output script, that script parses, and the engine has run it
  as its third script on the rest of the stack of the signature script.\<close>

theorem p2sh_runs_redeem_script:
  assumes "validCall L txn i fl c cE rv" and "NewEngine spk txn i fl c cE cM rv = Inr vm"
    and "isP2SH vm" and "Execute L vm = (Inr (), vm')"
  shows "\<exists>st script pops n vm1.
    savedFirstStack vm' = st @ [script] \<and> blake2b_Sum256 L script = popData (scripts vm ! 1 ! 1) \<and>
    parsed script = Inr pops \<and> scripts vm' = scripts vm @ [pops] \<and>
    reachable L vm n vm1 \<and> scriptIdx vm1 = (if pops = [] then 3 else 2) \<and> scriptOff vm1 = 0 \<and>
    dstack vm1 = st \<and> scripts vm1 = scripts vm @ [pops]"
proof -
  note inv = NewEngine_stepInv(1) [OF assms(1,2)]
  from assms(2) obtain sig pk where vm: "scripts vm = [sig, pk]" "isP2SH vm = isScriptHash pk" "scriptIdx vm \<le> 1"
      "scriptOff vm = 0" "savedFirstStack vm = []" "condStack vm = []" "dstack vm = []"
    by (rule NewEngine_fields) simp
  then have p2: "isScriptHash (scripts vm ! 1)" "length (scripts vm) = 2" using assms(3) by simp_all
  have start: "p2shTrace L vm vm" using vm assms(3) by (simp add: p2shTrace_def hashStack_def)
  from assms(4) obtain vm2 where loop: "executeLoop L vm = (Inr (), vm2)"
      and check: "CheckErrorCondition True vm2 = (Inr (), vm')" by (rule Execute_Inr)
  obtain n vm1 where reach: "reachable L vm n vm1" and step: "case Step L vm1 of
        (Inl e, vm2) \<Rightarrow> executeLoop L vm = (Inl e, vm2)
      | (Inr d, vm2) \<Rightarrow> d \<and> executeLoop L vm = (Inr (), vm2)"
    using executeLoop_reaches [of L vm] by (elim exE conjE)
  from step loop obtain d where "Step L vm1 = (Inr d, vm2)" by (auto split: prod.splits sum.splits)
  from reachable_p2shTrace [OF reachable.step [OF reach this] inv start p2] have tr: "p2shTrace L vm vm2" .
  from check have c: "scriptIdx vm2 \<ge> length (scripts vm2)" "scripts vm' = scripts vm2" "savedFirstStack vm' = savedFirstStack vm2"
    by (rule CheckErrorCondition_Inr)+
  have "scriptIdx vm2 \<ge> 2" using tr c(1) p2(2) by (cases "scriptIdx vm2 \<le> 1") (auto simp: p2shTrace_def)
  with tr have "redeemed L vm vm2" by (simp add: p2shTrace_def)
  from redeemed_cong [OF this c(2,3)] show ?thesis unfolding redeemed_def by (elim exE conjE) (intro exI conjI; simp)
qed

text \<open>An output that pays to the hash of \<open>OP_1\<close>, and an input that reveals that script.\<close>

definition p2shSpk :: ScriptPublicKey where
  "p2shSpk = \<lparr>Script = [0xaa, 32] @ blake2b_Sum256 toyLib [0x51] @ [0x87], spkVersion = 0\<rparr>"

definition p2shTx :: DomainTransaction where
  "p2shTx = exampleTx\<lparr>Inputs := map (\<lambda>inp. inp\<lparr>SignatureScript := [1, 0x51]\<rparr>) (Inputs exampleTx)\<rparr>"

definition p2shEngine :: "bytes Engine" where
  "p2shEngine = snd (Init p2shSpk p2shTx 0 0 None None None (Some emptyReusedValues) zeroEngine)"

lemma p2sh_engine: "NewEngine p2shSpk p2shTx 0 0 None None None (Some emptyReusedValues) = Inr p2shEngine"
proof -
  have "fst (Init p2shSpk p2shTx 0 0 None None None (Some emptyReusedValues) (zeroEngine :: bytes Engine)) = Inr ()"
    by code_simp
  then show ?thesis by (auto simp: NewEngine_def p2shEngine_def split: prod.splits sum.splits)
qed

lemma p2sh_call: "validCall toyLib p2shTx 0 0 None None (Some emptyReusedValues)"
  by (simp add: validCall_def cacheOk_def reusedOk_def p2shTx_def)

theorem p2sh_runs_redeem_script_witness:
  "\<exists>st script pops. savedFirstStack (snd (Execute toyLib p2shEngine)) = st @ [script] \<and>
     blake2b_Sum256 toyLib script = popData (scripts p2shEngine ! 1 ! 1) \<and> parsed script = Inr pops"
proof -
  have p2: "isP2SH p2shEngine" by code_simp
  have "fst (Execute toyLib p2shEngine) = Inr ()" by code_simp
  then have "Execute toyLib p2shEngine = (Inr (), snd (Execute toyLib p2shEngine))" by (simp add: prod_eq_iff)
  from p2sh_runs_redeem_script [OF p2sh_call p2sh_engine p2 this] show ?thesis by blast
qed

end
