(* ===== verification/Script_MultiSig.thy ===== *)
theory Script_MultiSig
  imports Script_Flow
begin

text \<open>
  What the multisig opcodes decide: the signatures are matched, in order, to the public keys. The argument is made once, over
  a scheme whose hash and verification have known values, and holds for Schnorr and for ECDSA.
\<close>

section \<open>One signature and one key\<close>

definition sigHolds ::
  "'k sigOps \<Rightarrow> (SigHashType \<Rightarrow> DomainHash) \<Rightarrow> ('k \<Rightarrow> DomainHash \<Rightarrow> 'k \<Rightarrow> bool) \<Rightarrow> bytes \<Rightarrow> bytes \<Rightarrow> bool" where
  "sigHolds ops hashOf verifies sig pk \<longleftrightarrow>
     sig \<noteq> [] \<and>
     (case deserializeSig ops (butlast sig) of
        None \<Rightarrow> False
      | Some s \<Rightarrow>
          (case deserializePubKey ops pk of None \<Rightarrow> False | Some k \<Rightarrow> verifies k (hashOf (last sig)) s))"

text \<open>A signature that is empty or well encoded, and a well encoded key.\<close>

definition sigForm :: "'k sigOps \<Rightarrow> bytes \<Rightarrow> bool" where
  "sigForm ops sig \<longleftrightarrow> sig = [] \<or> IsStandardSigHashType (last sig) \<and> checkSigLen ops (butlast sig) = Inr ()"

definition keyForm :: "'k sigOps \<Rightarrow> bytes \<Rightarrow> bool" where
  "keyForm ops pk \<longleftrightarrow> checkPubKeyEnc ops pk = Inr ()"

definition infoForm :: "'k sigOps \<Rightarrow> 'k parsedSigInfo \<Rightarrow> bool" where
  "infoForm ops info \<longleftrightarrow>
     sigForm ops (rawSignature info) \<and>
     (sigParsed info \<longrightarrow> parsedSignature info = deserializeSig ops (butlast (rawSignature info)))"

lemma list_emb_greedy:
  "list_emb P (x # xs) (y # ys) \<longleftrightarrow> (if P x y then list_emb P xs ys else list_emb P (x # xs) ys)"
proof (cases "P x y")
  case True
  have "list_emb P xs ys" if "list_emb P (x # xs) (y # ys)"
    using that
  proof (cases rule: list_emb.cases)
    case (list_emb_Cons)
    then obtain us v vs where "ys = us @ v # vs" "list_emb P xs vs" by (auto dest: list_emb_ConsD)
    then show ?thesis using list_emb_append2 [of P xs vs "us @ [v]"] by simp
  qed simp
  with True show ?thesis by auto
next
  case False
  then show ?thesis by (auto elim: list_emb.cases)
qed

lemma drop_cons: "i < length xs \<Longrightarrow> drop i xs = xs ! i # drop (Suc i) xs"
  by (simp add: Cons_nth_drop_Suc)

locale signature_values = signature_scheme L E ops for L :: "'k lib" and E :: nat and ops :: "'k sigOps" +
  fixes hashOf :: "DomainTransaction \<Rightarrow> int \<Rightarrow> SigHashType \<Rightarrow> DomainHash"
    and verifies :: "'k \<Rightarrow> DomainHash \<Rightarrow> 'k \<Rightarrow> bool"
  assumes hash_abs: "engInv L E vm \<Longrightarrow> IsStandardSigHashType ht \<Longrightarrow>
      calcSigHash ops ht (engAbs L vm) = (Inr (hashOf (vtx vm) (vtxIdx vm) ht), engAbs L vm)"
    and verify_abs: "verifySig ops h sig pk (engAbs L vm) = (Inr (verifies pk h sig), engAbs L vm)"
begin

lemma try_value:
  assumes "engInv L E vm" and "infoForm ops info" and "keyForm ops pk"
  shows "\<exists>info'. multiSigTry ops info pk (engAbs L vm) =
      (Inr (sigHolds ops (hashOf (vtx vm) (vtxIdx vm)) verifies (rawSignature info) pk, info'), engAbs L vm) \<and>
    infoForm ops info' \<and> rawSignature info' = rawSignature info"
proof (cases "rawSignature info = []")
  case True
  with assms(2) show ?thesis by (simp add: multiSigTry_def ret_def sigHolds_def)
next
  case False
  let ?raw = "rawSignature info"
  have form: "IsStandardSigHashType (last ?raw)" "checkSigLen ops (butlast ?raw) = Inr ()"
    using assms(2) False by (auto simp: infoForm_def sigForm_def)
  have raw: "?raw ! (length ?raw - 1) = last ?raw" "take (length ?raw - 1) ?raw = butlast ?raw"
    using False by (simp_all add: last_conv_nth butlast_conv_take)
  let ?info = "if sigParsed info then info
    else info\<lparr>sigParsed := True, parsedSignature := deserializeSig ops (butlast ?raw)\<rparr>"
  have parsed: "parsedSignature ?info = deserializeSig ops (butlast ?raw)" "infoForm ops ?info" "rawSignature ?info = ?raw"
    using assms(2) by (auto simp: infoForm_def)
  have parse: "(if \<not> sigParsed info
      then if \<not> IsStandardSigHashType (last ?raw) then raise (scriptError ErrInvalidSigHashType)
           else andThen (liftR (checkSigLen ops (butlast ?raw)))
             (ret (info\<lparr>sigParsed := True, parsedSignature := deserializeSig ops (butlast ?raw)\<rparr>))
      else ret info) = (ret ?info :: ('k, 'k parsedSigInfo) engineProc)"
    by (simp add: form andThen_def)
  have key: "checkPubKeyEnc ops pk = Inr ()" using assms(3) by (simp add: keyForm_def)
  have "multiSigTry ops info pk (engAbs L vm) =
      (Inr (sigHolds ops (hashOf (vtx vm) (vtxIdx vm)) verifies ?raw pk, ?info), engAbs L vm)"
    using False
    by (simp add: multiSigTry_def Let_def raw parse bnd_def [where m = "ret _"] ret_def parsed(1) sigHolds_def key andThen_def
        hash_abs [OF assms(1) form(1)] verify_abs bnd_def liftR_def del: One_nat_def split: option.split)
  with parsed show ?thesis by blast
qed

lemma loop_value:
  assumes "engInv L E vm" and "list_all (infoForm ops) infos" and "list_all (keyForm ops) pks"
    and "0 \<le> j" "int (length infos) = j + m" "- 1 \<le> i" "i + n = int (length pks)"
  shows "multiSigLoop ops pks infos n i j m (engAbs L vm) =
    (Inr (list_emb (sigHolds ops (hashOf (vtx vm) (vtxIdx vm)) verifies) (map rawSignature (drop (nat j) infos))
       (drop (nat (i + 1)) pks)), engAbs L vm)"
  using assms(2,4-7)
proof (induction "nat n" arbitrary: n i j m infos rule: less_induct)
  case less
  let ?P = "sigHolds ops (hashOf (vtx vm) (vtxIdx vm)) verifies"
  consider "m \<le> 0" | "0 < m" "m > n - 1" | "0 < m" "m \<le> n - 1" by linarith
  then show ?case
  proof cases
    case 1
    then show ?thesis using less.prems by (simp add: multiSigLoop.simps [of ops pks infos n i j m] ret_def)
  next
    case 2
    then have "length (drop (nat (i + 1)) pks) < length (map rawSignature (drop (nat j) infos))"
      using less.prems by auto
    then have "\<not> list_emb ?P (map rawSignature (drop (nat j) infos)) (drop (nat (i + 1)) pks)"
      by (auto dest: list_emb_length)
    with 2 show ?thesis by (simp add: multiSigLoop.simps [of ops pks infos n i j m] ret_def)
  next
    case 3
    then have idx: "0 \<le> j" "j < int (length infos)" "0 \<le> i + 1" "i + 1 < int (length pks)" and n: "nat (n - 1) < nat n"
      using less.prems by linarith+
    let ?info = "infos ! nat j" and ?pk = "pks ! nat (i + 1)"
    have forms: "infoForm ops ?info" "keyForm ops ?pk" using less.prems(1) assms(3) idx by (auto simp: list_all_length)
    from try_value [OF assms(1) forms] obtain info' where
        run: "multiSigTry ops ?info ?pk (engAbs L vm) = (Inr (?P (rawSignature ?info) ?pk, info'), engAbs L vm)"
        and info': "infoForm ops info'" "rawSignature info' = rawSignature ?info" by blast
    let ?v = "?P (rawSignature ?info) ?pk" and ?infos = "infos[nat j := info']"
    have raws: "map rawSignature ?infos = map rawSignature infos"
      using idx list_update_id [of "map rawSignature infos" "nat j"] by (simp add: map_update info'(2))
    have sucs: "nat (j + 1) = Suc (nat j)" "nat (i + 2) = Suc (nat (i + 1))" using idx by simp_all
    have drops: "drop (nat j) (map rawSignature infos) = rawSignature ?info # drop (nat (j + 1)) (map rawSignature infos)"
        "drop (nat (i + 1)) pks = ?pk # drop (nat (i + 2)) pks"
      unfolding sucs by (subst drop_cons; use idx in simp)+
    have rest: "multiSigLoop ops pks ?infos (n - 1) (i + 1) (if ?v then j + 1 else j) (if ?v then m - 1 else m) (engAbs L vm) =
        (Inr (list_emb ?P (map rawSignature (drop (nat (if ?v then j + 1 else j)) ?infos)) (drop (nat (i + 1 + 1)) pks)),
         engAbs L vm)"
      using less.prems idx n info'(1)
      by (intro less.hyps) (auto simp: list_all_length nth_list_update)
    have "multiSigLoop ops pks infos n i j m (engAbs L vm) =
        (Inr (list_emb ?P (drop (nat (if ?v then j + 1 else j)) (map rawSignature infos)) (drop (nat (i + 2)) pks)),
         engAbs L vm)"
      using 3 idx rest run unfolding drop_map [symmetric] raws
      by (simp add: multiSigLoop.simps [of ops pks infos n i j m] bnd_def [of "multiSigTry _ _ _"] add.assoc)
    then show ?thesis
      unfolding drop_map [symmetric] using drops by (cases ?v) (simp_all add: list_emb_greedy del: drop_map)
  qed
qed

end

section \<open>The opcode\<close>

lemma collect_pops:
  assumes "dstack vm = s @ rev xs" and "small (dstack vm)"
  shows "collectM (length xs) (dstackDo PopByteArray) vm = (Inr xs, vm\<lparr>dstack := s\<rparr>)"
  using assms
proof (induction xs arbitrary: vm)
  case Nil
  then show ?case by (simp add: ret_def)
next
  case (Cons x xs)
  have pop: "dstackDo PopByteArray vm = (Inr x, vm\<lparr>dstack := s @ rev xs\<rparr>)"
    using Cons.prems by (intro dPopByteArray_eq) simp_all
  have "collectM (length xs) (dstackDo PopByteArray) (vm\<lparr>dstack := s @ rev xs\<rparr>) = (Inr xs, vm\<lparr>dstack := s\<rparr>)"
    using Cons.IH [of "vm\<lparr>dstack := s @ rev xs\<rparr>"] Cons.prems by (simp add: small_def)
  with pop show ?case by (simp add: bnd_def ret_def)
qed

lemma Int32_id: "0 \<le> n \<Longrightarrow> n < 2 ^ 31 \<Longrightarrow> scriptNum_Int32 n = n"
  by (simp add: scriptNum_Int32_def maxInt32_def minInt32_def take_bit_int_eq_self int32_id)

text \<open>The operands of a multisig opcode, first popped first.\<close>

definition multiSigStack :: "bytes list \<Rightarrow> bytes list \<Rightarrow> bytes list \<Rightarrow> bytes list" where
  "multiSigStack s sigs pks =
     s @ rev sigs @ [numElem (int (length sigs))] @ rev pks @ [numElem (int (length pks))]"

context signature_values
begin

lemma multisig_value:
  assumes inv: "engInv L E vm" and stack: "dstack vm = multiSigStack s sigs pks" and small: "small (dstack vm)"
    and counts: "length sigs \<le> length pks" "int (length pks) \<le> MaxPubKeysPerMultiSig"
      "numOps vm + int (length pks) \<le> MaxOpsPerScript"
    and forms: "list_all (sigForm ops) sigs" "list_all (keyForm ops) pks"
  defines "matched \<equiv> list_emb (sigHolds ops (hashOf (vtx vm) (vtxIdx vm)) verifies) sigs pks"
  shows "checkMultiSigWith ops (engAbs L vm) =
    (if \<not> matched \<and> list_ex (\<lambda>sig. length sig > 0) sigs
     then (Inl (Error (scriptError ErrNullFail)), engAbs L (vm\<lparr>numOps := numOps vm + int (length pks), dstack := s\<rparr>))
     else (Inr (), engAbs L (vm\<lparr>numOps := numOps vm + int (length pks), dstack := s @ [fromBool matched]\<rparr>)))"
proof -
  let ?n = "int (length pks)" and ?m = "int (length sigs)"
  let ?s1 = "s @ rev sigs @ numElem ?m # rev pks" and ?s2 = "s @ rev sigs @ [numElem ?m]" and ?s3 = "s @ rev sigs"
  let ?A = "engAbs L vm" and ?ops = "numOps vm + ?n"
  have nums: "\<bar>?n\<bar> < 2 ^ 31" "\<bar>?m\<bar> < 2 ^ 31" using counts by (simp_all add: MaxPubKeysPerMultiSig_def)
  have sm: "small ?s1" "small ?s2" "small ?s3" using small stack by (auto simp: small_def multiSigStack_def)
  have pop1: "dstackDo PopInt ?A = (Inr ?n, ?A\<lparr>dstack := ?s1\<rparr>)"
    using nums small stack by (intro dPopInt_eq) (simp_all add: multiSigStack_def)
  have pop2: "collectM (length pks) (dstackDo PopByteArray) (?A\<lparr>dstack := ?s1, numOps := ?ops\<rparr>) =
      (Inr pks, ?A\<lparr>numOps := ?ops, dstack := ?s2\<rparr>)"
    using collect_pops [of "?A\<lparr>dstack := ?s1, numOps := ?ops\<rparr>" ?s2 pks] sm by simp
  have pop3: "dstackDo PopInt (?A\<lparr>numOps := ?ops, dstack := ?s2\<rparr>) = (Inr ?m, ?A\<lparr>numOps := ?ops, dstack := ?s3\<rparr>)"
    using dPopInt_eq [of ?m "?A\<lparr>numOps := ?ops, dstack := ?s2\<rparr>" ?s3] nums sm by simp
  have pop4: "collectM (length sigs) (dstackDo PopByteArray) (?A\<lparr>numOps := ?ops, dstack := ?s3\<rparr>) =
      (Inr sigs, ?A\<lparr>numOps := ?ops, dstack := s\<rparr>)"
    using collect_pops [of "?A\<lparr>numOps := ?ops, dstack := ?s3\<rparr>" s sigs] sm by simp
  have inv': "engInv L E (vm\<lparr>numOps := ?ops, dstack := s\<rparr>)"
    using inv stack counts(3) by (auto simp: engInv_def engSafe_def elemsLe_def multiSigStack_def)
  have infos: "list_all (infoForm ops) (map newSigInfo sigs)"
    using forms(1) by (simp add: list_all_length infoForm_def newSigInfo_def)
  have "map rawSignature (map newSigInfo sigs :: 'k parsedSigInfo list) = sigs" by (simp add: newSigInfo_def comp_def)
  then have loop: "multiSigLoop ops pks (map newSigInfo sigs) (?n + 1) (- 1) 0 ?m (?A\<lparr>numOps := ?ops, dstack := s\<rparr>) =
      (Inr matched, ?A\<lparr>numOps := ?ops, dstack := s\<rparr>)"
    using loop_value [OF inv' infos forms(2), of 0 ?m "- 1" "?n + 1"] by (simp add: matched_def)
  have i32: "scriptNum_Int32 ?n = ?n" "scriptNum_Int32 ?m = ?m" 
    using nums by (simp_all add: Int32_id)
  have push: "dstackDo (PushBool b) v = (Inr (), v\<lparr>dstack := dstack v @ [fromBool b]\<rparr>)" for b and v :: "'k Engine"
    by (simp add: dstackDo_def onField_def PushBool_def PushByteArray_eq)
  show ?thesis
    using counts
    by (simp add: checkMultiSigWith_def bnd_def pop1 i32 Let_def andThen_def addOps_def modify_def gets_def pop2 pop3 pop4 loop
        raise_def ret_def push)
qed

end

text \<open>The two schemes. The signature hash is the one computed with all reused values filled in.\<close>

definition schnorrHash :: "'k lib \<Rightarrow> DomainTransaction \<Rightarrow> int \<Rightarrow> SigHashType \<Rightarrow> DomainHash" where
  "schnorrHash L txn i ht =
     (case fst (CalculateSignatureHashSchnorr (libBlake3 L) txn i ht (Some (fullReused (libBlake3 L) txn))) of
        Inl _ \<Rightarrow> [] | Inr h \<Rightarrow> h)"

definition ecdsaHash :: "'k lib \<Rightarrow> DomainTransaction \<Rightarrow> int \<Rightarrow> SigHashType \<Rightarrow> DomainHash" where
  "ecdsaHash L txn i ht =
     (case fst (CalculateSignatureHashECDSA (libBlake3 L) txn i ht (Some (fullReused (libBlake3 L) txn))) of
        Inl _ \<Rightarrow> [] | Inr h \<Rightarrow> h)"

lemma hash_value:
  assumes "engInv L E vm" and "\<exists>h. reuseGives (libBlake3 L) (vtx vm) h (calc (vtx vm) (vtxIdx vm) ht)"
  shows "vmSigHash calc ht (engAbs L vm) =
    (Inr (case fst (calc (vtx vm) (vtxIdx vm) ht (Some (fullReused (libBlake3 L) (vtx vm)))) of Inl _ \<Rightarrow> [] | Inr h \<Rightarrow> h),
     engAbs L vm)"
proof -
  from assms(2) obtain h where h: "reuseGives (libBlake3 L) (vtx vm) h (calc (vtx vm) (vtxIdx vm) ht)" ..
  from vmSigHash_gives [where calc = calc, OF assms(1) h]
  have "vmSigHash calc ht (engAbs L vm) = (Inr h, engAbs L vm)" by blast
  moreover from h have "fst (calc (vtx vm) (vtxIdx vm) ht (Some (fullReused (libBlake3 L) (vtx vm)))) = Inr h"
    by (simp add: reuseGives_def)
  ultimately show ?thesis by simp
qed

interpretation schnorr_values: signature_values L E "schnorrOps L" "schnorrHash L" "sigVerify (schnorr L)" for L E
proof unfold_locales
  fix vm :: "'a Engine" and ht assume "engInv L E vm" "IsStandardSigHashType ht"
  then show "calcSigHash (schnorrOps L) ht (engAbs L vm) = (Inr (schnorrHash L (vtx vm) (vtxIdx vm) ht), engAbs L vm)"
    using hash_value [where calc = "CalculateSignatureHashSchnorr (libBlake3 L)", OF _ inv_gives(1)]
    by (simp add: schnorrOps_def schnorrHash_def)
qed (simp add: schnorrOps_def onField_def engAbs_def verifyCached_def)

interpretation ecdsa_values: signature_values L E "ecdsaOps L" "ecdsaHash L" "sigVerify (ecdsa L)" for L E
proof unfold_locales
  fix vm :: "'a Engine" and ht assume "engInv L E vm" "IsStandardSigHashType ht"
  then show "calcSigHash (ecdsaOps L) ht (engAbs L vm) = (Inr (ecdsaHash L (vtx vm) (vtxIdx vm) ht), engAbs L vm)"
    using hash_value [where calc = "CalculateSignatureHashECDSA (libBlake3 L)", OF _ inv_gives(2)]
    by (simp add: ecdsaOps_def ecdsaHash_def)
qed (simp add: ecdsaOps_def onField_def engAbs_def verifyCached_def)

section \<open>Properties\<close>

text \<open>A signature of the input at index \<open>i\<close>, of the encoding the opcodes accept, holds under a key when both parse and
  the scheme verifies it for the signature hash of its hash type.\<close>

definition schnorrHolds :: "'k lib \<Rightarrow> DomainTransaction \<Rightarrow> int \<Rightarrow> bytes \<Rightarrow> bytes \<Rightarrow> bool" where
  "schnorrHolds L txn i = sigHolds (schnorrOps L) (schnorrHash L txn i) (sigVerify (schnorr L))"

definition ecdsaHolds :: "'k lib \<Rightarrow> DomainTransaction \<Rightarrow> int \<Rightarrow> bytes \<Rightarrow> bytes \<Rightarrow> bool" where
  "ecdsaHolds L txn i = sigHolds (ecdsaOps L) (ecdsaHash L txn i) (sigVerify (ecdsa L))"

definition multiSigVerdict ::
  "(bytes \<Rightarrow> bytes \<Rightarrow> bool) \<Rightarrow> bytes list \<Rightarrow> bytes list \<Rightarrow> bytes list \<Rightarrow> (goError, unit) result \<times> 'k Engine \<Rightarrow> bool" where
  "multiSigVerdict holds s sigs pks run \<longleftrightarrow>
     (if list_emb holds sigs pks then fst run = Inr () \<and> dstack (snd run) = s @ [[1]]
      else if list_all (\<lambda>sig. sig = []) sigs then fst run = Inr () \<and> dstack (snd run) = s @ [[]]
      else fst run = Inl (Error (scriptError ErrNullFail)))"

lemma verdictI:
  assumes inv: "engInv L E vm" and size: "engSize vm + 1 \<le> stackCap"
    and ok: "eng.ok L E 1 (\<lambda>_. True) m"
    and val: "m (engAbs L vm) =
      (if \<not> list_emb holds sigs pks \<and> list_ex (\<lambda>sig. length sig > 0) sigs
       then (Inl (Error (scriptError ErrNullFail)), engAbs L (vm\<lparr>numOps := n, dstack := s\<rparr>))
       else (Inr (), engAbs L (vm\<lparr>numOps := n, dstack := s @ [fromBool (list_emb holds sigs pks)]\<rparr>)))"
  shows "multiSigVerdict holds s sigs pks (m vm)"
proof -
  obtain r vm' where run: "m vm = (r, vm')" by (cases "m vm")
  from eng.okD [OF ok inv size] run have "m (engAbs L vm) = (r, engAbs L vm')" by (simp add: eng.okAt_def)
  with val have r: "(r, engAbs L vm') =
      (if \<not> list_emb holds sigs pks \<and> list_ex (\<lambda>sig. length sig > 0) sigs
       then (Inl (Error (scriptError ErrNullFail)), engAbs L (vm\<lparr>numOps := n, dstack := s\<rparr>))
       else (Inr (), engAbs L (vm\<lparr>numOps := n, dstack := s @ [fromBool (list_emb holds sigs pks)]\<rparr>)))" by simp
  have "list_ex (\<lambda>sig. length sig > 0) sigs \<longleftrightarrow> \<not> list_all (\<lambda>sig. sig = []) sigs"
    by (auto simp: list_ex_iff list_all_iff)
  moreover have "dstack vm' = d" if "engAbs L vm' = (engAbs L vm)\<lparr>numOps := n, dstack := d\<rparr>" for d
    using arg_cong [OF that, of dstack] by simp
  ultimately show ?thesis
    using r unfolding multiSigVerdict_def run by (auto simp: fromBool_def split: if_splits)
qed

text \<open>C7: The multisig opcodes succeed exactly when the signatures can be matched to the keys in order. For well encoded
  keys, and signatures that are well encoded or empty, the opcode pushes true when the signatures embed into the list of
  keys such that every signature holds under the key it is matched with; otherwise it pushes
  false if all signatures are empty, and fails with \<open>ErrNullFail\<close> if not. The greedy loop of the code loses no
  match, whatever the caches hold.\<close>

theorem multisig_matches:
  assumes "engInv L E vm" and "engSize vm + 1 \<le> stackCap" and "dstack vm = multiSigStack s sigs pks"
    and "length sigs \<le> length pks" "int (length pks) \<le> MaxPubKeysPerMultiSig"
      "numOps vm + int (length pks) \<le> MaxOpsPerScript"
  shows "(list_all (sigForm (schnorrOps L)) sigs \<longrightarrow> list_all (keyForm (schnorrOps L)) pks \<longrightarrow>
      multiSigVerdict (schnorrHolds L (vtx vm) (vtxIdx vm)) s sigs pks (opcodeCheckMultiSig L vm)) \<and>
    (list_all (sigForm (ecdsaOps L)) sigs \<longrightarrow> list_all (keyForm (ecdsaOps L)) pks \<longrightarrow>
      multiSigVerdict (ecdsaHolds L (vtx vm) (vtxIdx vm)) s sigs pks (opcodeCheckMultiSigECDSA L vm))"
proof -
  have small: "small (dstack vm)" using assms(2) by (auto simp: small_def engSize_def stackCap_def maxInt32_def)
  note schnorr = schnorr_values.multisig_value [OF assms(1,3) small assms(4-6)]
    and ecdsa = ecdsa_values.multisig_value [OF assms(1,3) small assms(4-6)]
  show ?thesis
    unfolding schnorrHolds_def ecdsaHolds_def opcodeCheckMultiSig_def opcodeCheckMultiSigECDSA_def
    using verdictI [OF assms(1,2) schnorr_ops.ok_checkMultiSigWith schnorr]
      verdictI [OF assms(1,2) ecdsa_ops.ok_checkMultiSigWith ecdsa]
    by blast
qed

text \<open>A signature that holds under the second of two keys.\<close>

definition exampleKeys :: "bytes list" where
  "exampleKeys = [replicate 32 1, replicate 32 2]"

definition exampleSig :: bytes where
  "exampleSig = replicate 32 2 @ schnorrHash toyLib exampleTx 0 1 @ [1]"

definition multiSigEngine :: "bytes Engine" where
  "multiSigEngine = exampleEngine\<lparr>dstack := multiSigStack [] [exampleSig] exampleKeys\<rparr>"

lemma example_hash: "length (schnorrHash toyLib exampleTx 0 1) = 32"
  by code_simp

lemma example_sig:
  "sigForm (schnorrOps toyLib) exampleSig" "list_all (keyForm (schnorrOps toyLib)) exampleKeys"
  "schnorrHolds toyLib exampleTx 0 exampleSig (replicate 32 2)"
  "\<not> schnorrHolds toyLib exampleTx 0 exampleSig (replicate 32 1)"
  "length exampleSig = 65"
  using example_hash
  by (simp_all add: exampleSig_def exampleKeys_def sigForm_def keyForm_def schnorrHolds_def sigHolds_def schnorrOps_def
      checkSignatureLength_def checkPubKeyEncoding_def toyLib_def toyScheme_def butlast_append append_eq_append_conv
      IsStandardSigHashType_def)

lemma NewEngine_start:
  assumes "NewEngine spk txn i fl c cE cM rv = Inr vm"
  shows "vtx vm = txn" "vtxIdx vm = i" "numOps vm = 0" "astack vm = []"
  using assms by (rule NewEngine_fields; simp)+

theorem multisig_matches_witness:
  "fst (opcodeCheckMultiSig toyLib multiSigEngine) = Inr () \<and> dstack (snd (opcodeCheckMultiSig toyLib multiSigEngine)) = [[1]]"
proof -
  have eng: "engInv toyLib 520 exampleEngine"
    using stepInv_engInv [OF NewEngine_stepInv(1) [OF example_call example_engine]]
      NewEngine_stepInv(2) [OF example_call example_engine]
    by (simp add: elemMax_def MaxScriptElementSize_def)
  note f = NewEngine_start [OF example_engine]
  have "numElem 1 = [1]" "numElem 2 = [2]" by code_simp+
  then have stack: "multiSigStack [] [exampleSig] exampleKeys = [exampleSig, [1], replicate 32 2, replicate 32 1, [2]]"
    by (simp add: multiSigStack_def exampleKeys_def)
  have inv: "engInv toyLib 520 multiSigEngine"
    using eng example_sig(5) stack
    by (simp add: multiSigEngine_def engInv_def engSafe_def elemsLe_def)
  have emb: "list_emb (schnorrHolds toyLib exampleTx 0) [exampleSig] exampleKeys"
    using example_sig(3,4) by (simp add: exampleKeys_def list_emb_greedy)
  have "engSize multiSigEngine + 1 \<le> stackCap" "dstack multiSigEngine = multiSigStack [] [exampleSig] exampleKeys"
    "vtx multiSigEngine = exampleTx" "vtxIdx multiSigEngine = 0" "numOps multiSigEngine = 0"
    using stack f by (simp_all add: multiSigEngine_def engSize_def stackCap_def)
  moreover have "length exampleKeys = 2" by (simp add: exampleKeys_def)
  ultimately show ?thesis
    using multisig_matches [OF inv, of "[]" "[exampleSig]" exampleKeys] example_sig(1,2) emb
    by (simp add: multiSigVerdict_def MaxPubKeysPerMultiSig_def MaxOpsPerScript_def)
qed

end
