(* ===== verification/Tx_Hash.thy ===== *)
theory Tx_Hash
  imports Sig_Hash
begin

text \<open>
  Transaction hashes and identifiers: \<^verbatim>\<open>src/domain/consensus/utils/consensushashing/transaction.go\<close>, over the writers
  of \<^verbatim>\<open>src/domain/consensus/utils/hashes/domains.go\<close>.

  The writers never fail and every element that is written has an encoding, so serialising gives the bytes
  that are written. What is shown: a transaction hash commits to every field that is part of a transaction, a transaction
  identifier to every field but the signature scripts, and the latter do not influence it.
\<close>

section \<open>Definitions\<close>

definition NewTransactionHashWriter :: HashWriter where
  "NewTransactionHashWriter = Blake3Writer (fixedSizeKey ''TransactionHash'') []"

definition NewTransactionIDWriter :: HashWriter where
  "NewTransactionIDWriter = Blake3Writer (fixedSizeKey ''TransactionID'') []"

definition IsCoinBase :: "DomainTransaction \<Rightarrow> bool" where
  "IsCoinBase tx \<longleftrightarrow> SubnetworkID tx = SubnetworkIDCoinbase"

type_synonym txEncoding = byte

definition txEncodingFull :: txEncoding where
  "txEncodingFull = 0"

definition txEncodingExcludeSignatureScript :: txEncoding where
  "txEncodingExcludeSignatureScript = push_bit 1 1"

definition writeOutpoint :: "DomainOutpoint \<Rightarrow> bytes" where
  "writeOutpoint outpoint = TransactionID outpoint @ PutUint32 (outIndex outpoint)"

definition writeVarBytes :: "bytes \<Rightarrow> bytes" where
  "writeVarBytes data = PutUint64 (word_of_nat (length data)) @ data"

definition writeTransactionInput :: "txEncoding \<Rightarrow> DomainTransactionInput \<Rightarrow> bytes" where
  "writeTransactionInput encodingFlags ti =
     writeOutpoint (PreviousOutpoint ti) @
     (if encodingFlags AND txEncodingExcludeSignatureScript \<noteq> txEncodingExcludeSignatureScript
      then writeVarBytes (SignatureScript ti) @ [SigOpCount ti]
      else writeVarBytes []) @
     PutUint64 (Sequence ti)"

definition writeTxOut :: "DomainTransactionOutput \<Rightarrow> bytes" where
  "writeTxOut out =
     PutUint64 (outValue out) @ PutUint16 (spkVersion (outScriptPublicKey out)) @
     writeVarBytes (Script (outScriptPublicKey out))"

definition serializeTransaction :: "txEncoding \<Rightarrow> DomainTransaction \<Rightarrow> bytes" where
  "serializeTransaction encodingFlags tx =
     PutUint16 (txVersion tx) @
     PutUint64 (word_of_nat (length (Inputs tx))) @
     concat (map (writeTransactionInput encodingFlags) (Inputs tx)) @
     PutUint64 (word_of_nat (length (Outputs tx))) @
     concat (map writeTxOut (Outputs tx)) @
     PutUint64 (LockTime tx) @ SubnetworkID tx @ PutUint64 (Gas tx) @ writeVarBytes (Payload tx)"

definition TransactionHash :: "blake3 \<Rightarrow> DomainTransaction \<Rightarrow> DomainHash" where
  "TransactionHash blake3 tx =
     Finalize blake3 (InfallibleWrite NewTransactionHashWriter (serializeTransaction txEncodingFull tx))"

text \<open>The identifier, and the transaction with the identifier cached on it.\<close>

definition computeTransactionID :: "blake3 \<Rightarrow> DomainTransaction \<Rightarrow> DomainTransactionID \<times> DomainTransaction" where
  "computeTransactionID blake3 tx =
     (case cachedID tx of
        Some txID \<Rightarrow> (txID, tx)
      | None \<Rightarrow>
          let encodingFlags = (if \<not> IsCoinBase tx then txEncodingExcludeSignatureScript else 0);
              transactionID = Finalize blake3 (InfallibleWrite NewTransactionIDWriter (serializeTransaction encodingFlags tx))
          in (transactionID, tx\<lparr>cachedID := Some transactionID\<rparr>))"

definition TransactionIDs :: "blake3 \<Rightarrow> DomainTransaction list \<Rightarrow> DomainTransactionID list" where
  "TransactionIDs blake3 txs = map (\<lambda>tx. fst (computeTransactionID blake3 tx)) txs"

section \<open>Encodings that can be read back\<close>

text \<open>An encoding determines what it encodes, up to \<open>f\<close>, whatever follows.\<close>

definition delimited :: "('a \<Rightarrow> bool) \<Rightarrow> ('a \<Rightarrow> 'b) \<Rightarrow> ('a \<Rightarrow> bytes) \<Rightarrow> bool" where
  "delimited P f enc \<longleftrightarrow> (\<forall>x y us vs. P x \<longrightarrow> P y \<longrightarrow> enc x @ us = enc y @ vs \<longrightarrow> f x = f y \<and> us = vs)"

lemma delimitedI:
  "(\<And>x y us vs. P x \<Longrightarrow> P y \<Longrightarrow> enc x @ us = enc y @ vs \<Longrightarrow> f x = f y \<and> us = vs) \<Longrightarrow> delimited P f enc"
  unfolding delimited_def by (intro allI impI)

lemma delimitedD: "delimited P f enc \<Longrightarrow> enc x @ us = enc y @ vs \<Longrightarrow> P x \<Longrightarrow> P y \<Longrightarrow> f x = f y \<and> us = vs"
  unfolding delimited_def by blast

lemma delimited_map:
  assumes "delimited P f enc" and "list_all P xs" "list_all P ys" and "length xs = length ys"
    and "concat (map enc xs) @ us = concat (map enc ys) @ vs"
  shows "map f xs = map f ys \<and> us = vs"
  using assms(4,2,3,5)
proof (induction xs ys rule: list_induct2)
  case (Cons x xs y ys)
  from Cons.prems have "enc x @ concat (map enc xs) @ us = enc y @ concat (map enc ys) @ vs" by simp
  from delimitedD [OF assms(1) this] Cons.prems
  have "f x = f y" "concat (map enc xs) @ us = concat (map enc ys) @ vs" by simp_all
  with Cons show ?case by simp
qed simp

lemma delimited_writeVarBytes: "delimited (\<lambda>b. length b < 2 ^ 64) (\<lambda>b. b) writeVarBytes"
  unfolding writeVarBytes_def by (rule delimitedI) (rule PutBytes_inj; simp only: append_assoc)

lemma delimited_list:
  assumes "delimited P f enc"
  shows "delimited (\<lambda>xs. list_all P xs \<and> length xs < 2 ^ 64) (map f)
    (\<lambda>xs. PutUint64 (word_of_nat (length xs)) @ concat (map enc xs))"
  unfolding delimited_def
proof (intro allI impI)
  fix xs ys us vs
  assume xs: "list_all P xs \<and> length xs < 2 ^ 64" and ys: "list_all P ys \<and> length ys < 2 ^ 64"
    and "(PutUint64 (word_of_nat (length xs)) @ concat (map enc xs)) @ us
      = (PutUint64 (word_of_nat (length ys)) @ concat (map enc ys)) @ vs"
  then have w: "(word_of_nat (length xs) :: 64 word) = word_of_nat (length ys)"
    and r: "concat (map enc xs) @ us = concat (map enc ys) @ vs" by simp_all
  from w have "length xs mod 2 ^ 64 = length ys mod 2 ^ 64" by (simp add: word_unat_eq_iff unat_of_nat)
  with xs ys have "length xs = length ys" by simp
  from delimited_map [OF assms _ _ this r] xs ys show "map f xs = map f ys \<and> us = vs" by simp
qed

text \<open>The sizes Go's arrays and slices have.\<close>

definition sizedInput :: "DomainTransactionInput \<Rightarrow> bool" where
  "sizedInput ti \<longleftrightarrow> wfInput ti \<and> length (SignatureScript ti) < 2 ^ 64"

definition sizedTx :: "DomainTransaction \<Rightarrow> bool" where
  "sizedTx tx \<longleftrightarrow>
     list_all sizedInput (Inputs tx) \<and> length (Inputs tx) < 2 ^ 64 \<and>
     list_all (\<lambda>out. length (Script (outScriptPublicKey out)) < 2 ^ 64) (Outputs tx) \<and> length (Outputs tx) < 2 ^ 64 \<and>
     length (SubnetworkID tx) = DomainSubnetworkIDSize \<and> length (Payload tx) < 2 ^ 64"

text \<open>What the hash commits to: everything but what the node attaches to a transaction while it works with it. What the
  identifier commits to: not the signature scripts either.\<close>

definition hashedInput :: "DomainTransactionInput \<Rightarrow> DomainTransactionInput" where
  "hashedInput ti = ti\<lparr>utxoEntry := None\<rparr>"

definition identifiedInput :: "DomainTransactionInput \<Rightarrow> DomainTransactionInput" where
  "identifiedInput ti = ti\<lparr>utxoEntry := None, SignatureScript := [], SigOpCount := 0\<rparr>"

definition txWith :: "(DomainTransactionInput \<Rightarrow> DomainTransactionInput) \<Rightarrow> DomainTransaction \<Rightarrow> DomainTransaction" where
  "txWith f tx = tx\<lparr>Inputs := map f (Inputs tx), Fee := 0, Mass := 0, cachedID := None\<rparr>"

lemma delimited_input_full: "delimited sizedInput hashedInput (writeTransactionInput txEncodingFull)"
proof (rule delimitedI)
  fix x y :: DomainTransactionInput and us vs
  assume sized: "sizedInput x" "sizedInput y"
    and eq: "writeTransactionInput txEncodingFull x @ us = writeTransactionInput txEncodingFull y @ vs"
  let ?po = PreviousOutpoint
  have len: "length (TransactionID (?po x)) = length (TransactionID (?po y))"
    using sized by (simp add: sizedInput_def wfInput_def)
  from eq have "TransactionID (?po x) @ PutUint32 (outIndex (?po x)) @ writeVarBytes (SignatureScript x) @ [SigOpCount x]
        @ PutUint64 (Sequence x) @ us
      = TransactionID (?po y) @ PutUint32 (outIndex (?po y)) @ writeVarBytes (SignatureScript y) @ [SigOpCount y]
        @ PutUint64 (Sequence y) @ vs"
    by (simp add: writeTransactionInput_def writeOutpoint_def txEncodingFull_def txEncodingExcludeSignatureScript_def)
  with len have a: "TransactionID (?po x) = TransactionID (?po y)" "outIndex (?po x) = outIndex (?po y)"
    and r: "writeVarBytes (SignatureScript x) @ [SigOpCount x] @ PutUint64 (Sequence x) @ us
      = writeVarBytes (SignatureScript y) @ [SigOpCount y] @ PutUint64 (Sequence y) @ vs"
    by simp_all
  from delimitedD [OF delimited_writeVarBytes r] sized
  have "SignatureScript x = SignatureScript y" "[SigOpCount x] @ PutUint64 (Sequence x) @ us = [SigOpCount y] @ PutUint64 (Sequence y) @ vs"
    by (simp_all add: sizedInput_def)
  then show "hashedInput x = hashedInput y \<and> us = vs" using a by (simp add: hashedInput_def)
qed

lemma delimited_input_id:
  "delimited sizedInput identifiedInput (writeTransactionInput txEncodingExcludeSignatureScript)"
proof (rule delimitedI)
  fix x y :: DomainTransactionInput and us vs
  assume sized: "sizedInput x" "sizedInput y"
    and eq: "writeTransactionInput txEncodingExcludeSignatureScript x @ us = writeTransactionInput txEncodingExcludeSignatureScript y @ vs"
  let ?po = PreviousOutpoint
  have len: "length (TransactionID (?po x)) = length (TransactionID (?po y))"
    using sized by (simp add: sizedInput_def wfInput_def)
  from eq have "TransactionID (?po x) @ PutUint32 (outIndex (?po x)) @ writeVarBytes [] @ PutUint64 (Sequence x) @ us
      = TransactionID (?po y) @ PutUint32 (outIndex (?po y)) @ writeVarBytes [] @ PutUint64 (Sequence y) @ vs"
    by (simp add: writeTransactionInput_def writeOutpoint_def)
  with len show "identifiedInput x = identifiedInput y \<and> us = vs" by (simp add: identifiedInput_def)
qed

lemma delimited_output:
  "delimited (\<lambda>out. length (Script (outScriptPublicKey out)) < 2 ^ 64) (\<lambda>out. out) writeTxOut"
proof (rule delimitedI)
  fix x y :: DomainTransactionOutput and us vs
  assume sized: "length (Script (outScriptPublicKey x)) < 2 ^ 64" "length (Script (outScriptPublicKey y)) < 2 ^ 64"
    and eq: "writeTxOut x @ us = writeTxOut y @ vs"
  from eq have a: "outValue x = outValue y" "spkVersion (outScriptPublicKey x) = spkVersion (outScriptPublicKey y)"
    and r: "writeVarBytes (Script (outScriptPublicKey x)) @ us = writeVarBytes (Script (outScriptPublicKey y)) @ vs"
    by (simp_all add: writeTxOut_def)
  from delimitedD [OF delimited_writeVarBytes r] sized a show "x = y \<and> us = vs" by simp
qed

lemma serializeTransaction_inj:
  assumes "delimited sizedInput f (writeTransactionInput flags)" and "sizedTx tx" "sizedTx tx'"
    and "serializeTransaction flags tx = serializeTransaction flags tx'"
  shows "txWith f tx = txWith f tx'"
proof -
  let ?ins = "\<lambda>t. PutUint64 (word_of_nat (length (Inputs t))) @ concat (map (writeTransactionInput flags) (Inputs t))"
  let ?outs = "\<lambda>t. PutUint64 (word_of_nat (length (Outputs t))) @ concat (map writeTxOut (Outputs t))"
  let ?rest = "\<lambda>t. PutUint64 (LockTime t) @ SubnetworkID t @ PutUint64 (Gas t) @ writeVarBytes (Payload t)"
  from assms(4) have v: "txVersion tx = txVersion tx'" and r: "?ins tx @ ?outs tx @ ?rest tx = ?ins tx' @ ?outs tx' @ ?rest tx'"
    by (simp_all add: serializeTransaction_def)
  from delimitedD [OF delimited_list [OF assms(1)] r] assms(2,3)
  have i: "map f (Inputs tx) = map f (Inputs tx')" and r: "?outs tx @ ?rest tx = ?outs tx' @ ?rest tx'"
    by (simp_all add: sizedTx_def)
  from delimitedD [OF delimited_list [OF delimited_output] r] assms(2,3)
  have outs: "Outputs tx = Outputs tx'" and r: "?rest tx = ?rest tx'" by (simp_all add: sizedTx_def)
  from r assms(2,3) have l: "LockTime tx = LockTime tx'" "SubnetworkID tx = SubnetworkID tx'" "Gas tx = Gas tx'"
    and r: "writeVarBytes (Payload tx) @ [] = writeVarBytes (Payload tx') @ []"
    by (simp_all add: sizedTx_def)
  from delimitedD [OF delimited_writeVarBytes r] assms(2,3) have "Payload tx = Payload tx'" by (simp add: sizedTx_def)
  with v i outs l show ?thesis by (simp add: txWith_def)
qed

text \<open>The encoding depends on nothing else.\<close>

lemma serializeTransaction_cong:
  assumes "txWith f tx = txWith f tx'"
    and "\<And>x y. f x = f y \<Longrightarrow> writeTransactionInput flags x = writeTransactionInput flags y"
  shows "serializeTransaction flags tx = serializeTransaction flags tx'"
proof -
  note same = arg_cong [OF assms(1)]
  have eq: "map f (Inputs tx) = map f (Inputs tx')"
      "txVersion tx = txVersion tx'" "Outputs tx = Outputs tx'" "LockTime tx = LockTime tx'"
      "SubnetworkID tx = SubnetworkID tx'" "Gas tx = Gas tx'" "Payload tx = Payload tx'"
    using same [of Inputs] same [of txVersion] same [of Outputs] same [of LockTime] same [of SubnetworkID] same [of Gas]
      same [of Payload] by (simp_all add: txWith_def)
  have len: "length (Inputs tx) = length (Inputs tx')" by (rule map_eq_imp_length_eq [OF eq(1)])
  have "map (writeTransactionInput flags) (Inputs tx) = map (writeTransactionInput flags) (Inputs tx')"
  proof (rule nth_equalityI)
    fix i assume "i < length (map (writeTransactionInput flags) (Inputs tx))"
    then have i: "i < length (Inputs tx)" by simp
    with len have "f (Inputs tx ! i) = f (Inputs tx' ! i)" using arg_cong [OF eq(1), of "\<lambda>l. l ! i"] by simp
    from assms(2) [OF this] i len
    show "map (writeTransactionInput flags) (Inputs tx) ! i = map (writeTransactionInput flags) (Inputs tx') ! i" by simp
  qed (simp add: len)
  with eq len show ?thesis by (simp only: serializeTransaction_def)
qed

lemma writeTransactionInput_hashed:
  assumes "hashedInput x = hashedInput y"
  shows "writeTransactionInput txEncodingFull x = writeTransactionInput txEncodingFull y"
  using arg_cong [OF assms, of PreviousOutpoint] arg_cong [OF assms, of SignatureScript]
    arg_cong [OF assms, of SigOpCount] arg_cong [OF assms, of Sequence]
  by (simp add: writeTransactionInput_def hashedInput_def)

lemma writeTransactionInput_identified:
  assumes "identifiedInput x = identifiedInput y"
  shows "writeTransactionInput txEncodingExcludeSignatureScript x = writeTransactionInput txEncodingExcludeSignatureScript y"
  using arg_cong [OF assms, of PreviousOutpoint] arg_cong [OF assms, of Sequence]
  by (simp add: writeTransactionInput_def identifiedInput_def)

text \<open>The hash function does not map these two messages to one hash.\<close>

definition noCollision :: "blake3 \<Rightarrow> string \<Rightarrow> bytes \<Rightarrow> bytes \<Rightarrow> bool" where
  "noCollision blake3 domain m m' \<longleftrightarrow> (blake3 (fixedSizeKey domain) m = blake3 (fixedSizeKey domain) m' \<longrightarrow> m = m')"

lemma hash_iff:
  assumes "delimited sizedInput f (writeTransactionInput flags)"
    and "\<And>x y. f x = f y \<Longrightarrow> writeTransactionInput flags x = writeTransactionInput flags y"
    and "sizedTx tx" "sizedTx tx'"
    and "noCollision blake3 domain (serializeTransaction flags tx) (serializeTransaction flags tx')"
  shows "blake3 (fixedSizeKey domain) (serializeTransaction flags tx)
      = blake3 (fixedSizeKey domain) (serializeTransaction flags tx') \<longleftrightarrow> txWith f tx = txWith f tx'"
proof
  assume "blake3 (fixedSizeKey domain) (serializeTransaction flags tx) = blake3 (fixedSizeKey domain) (serializeTransaction flags tx')"
  with assms(5) have "serializeTransaction flags tx = serializeTransaction flags tx'" by (simp add: noCollision_def)
  then show "txWith f tx = txWith f tx'" by (rule serializeTransaction_inj [OF assms(1,3,4)])
next
  assume "txWith f tx = txWith f tx'"
  then have "serializeTransaction flags tx = serializeTransaction flags tx'"
    by (rule serializeTransaction_cong) (rule assms(2))
  then show "blake3 (fixedSizeKey domain) (serializeTransaction flags tx) = blake3 (fixedSizeKey domain) (serializeTransaction flags tx')"
    by (simp only:)
qed

section \<open>Properties\<close>

text \<open>C9: Two transactions have the same hash exactly when they agree on everything a transaction consists of, unless BLAKE3 collides on
  their two encodings: no byte of one field can be read as part of another. Two transactions of the same kind have
  the same identifier exactly when they agree on everything, the signature scripts and
  signature operation counts of transactions that are no coinbases excepted. So signing a transaction, or
  changing its signatures, does not change its identifier.\<close>

theorem transaction_hash_commits:
  assumes "sizedTx tx" "sizedTx tx'" and "cachedID tx = None" "cachedID tx' = None" and "IsCoinBase tx = IsCoinBase tx'"
    and "noCollision blake3 ''TransactionHash'' (serializeTransaction txEncodingFull tx) (serializeTransaction txEncodingFull tx')"
    and "\<And>flags. flags \<in> {txEncodingFull, txEncodingExcludeSignatureScript} \<Longrightarrow>
      noCollision blake3 ''TransactionID'' (serializeTransaction flags tx) (serializeTransaction flags tx')"
  shows "(TransactionHash blake3 tx = TransactionHash blake3 tx' \<longleftrightarrow> txWith hashedInput tx = txWith hashedInput tx') \<and>
    (fst (computeTransactionID blake3 tx) = fst (computeTransactionID blake3 tx') \<longleftrightarrow>
       (if IsCoinBase tx then txWith hashedInput tx = txWith hashedInput tx'
        else txWith identifiedInput tx = txWith identifiedInput tx'))"
proof -
  have full: "blake3 (fixedSizeKey domain) (serializeTransaction txEncodingFull tx)
      = blake3 (fixedSizeKey domain) (serializeTransaction txEncodingFull tx') \<longleftrightarrow> txWith hashedInput tx = txWith hashedInput tx'"
    if "domain \<in> {''TransactionHash'', ''TransactionID''}" for domain
  proof (rule hash_iff [OF delimited_input_full writeTransactionInput_hashed assms(1,2)], assumption)
    show "noCollision blake3 domain (serializeTransaction txEncodingFull tx) (serializeTransaction txEncodingFull tx')"
      using that assms(6) assms(7) [of txEncodingFull] by (elim insertE) simp_all
  qed
  have part: "blake3 (fixedSizeKey ''TransactionID'') (serializeTransaction txEncodingExcludeSignatureScript tx)
      = blake3 (fixedSizeKey ''TransactionID'') (serializeTransaction txEncodingExcludeSignatureScript tx') \<longleftrightarrow>
      txWith identifiedInput tx = txWith identifiedInput tx'"
    by (rule hash_iff [OF delimited_input_id writeTransactionInput_identified assms(1,2)], assumption) (simp add: assms(7))
  have zero: "(0 :: txEncoding) = txEncodingFull" by (simp add: txEncodingFull_def)
  show ?thesis
    using full [of "''TransactionHash''"] full [of "''TransactionID''"] part assms(3-5)
    by (simp add: TransactionHash_def computeTransactionID_def NewTransactionHashWriter_def NewTransactionIDWriter_def zero
        Let_def)
qed

text \<open>The example transaction with another signature script.\<close>

definition resignedTx :: DomainTransaction where
  "resignedTx = exampleTx\<lparr>Inputs := map (\<lambda>ti. ti\<lparr>SignatureScript := [1, 2]\<rparr>) (Inputs exampleTx)\<rparr>"

theorem transaction_hash_commits_witness:
  "fst (computeTransactionID (\<lambda>key m. m) exampleTx) = fst (computeTransactionID (\<lambda>key m. m) resignedTx) \<and>
   TransactionHash (\<lambda>key m. m) exampleTx \<noteq> TransactionHash (\<lambda>key m. m) resignedTx"
proof -
  have "sizedTx exampleTx" "sizedTx resignedTx" "cachedID exampleTx = None" "cachedID resignedTx = None"
    by (simp_all add: resignedTx_def exampleTx_def sizedTx_def sizedInput_def wfInput_def DomainHashSize_def
        SubnetworkIDNative_def DomainSubnetworkIDSize_def)
  moreover have "\<not> IsCoinBase exampleTx" "\<not> IsCoinBase resignedTx" by code_simp+
  moreover have "txWith identifiedInput exampleTx = txWith identifiedInput resignedTx"
    "txWith hashedInput exampleTx \<noteq> txWith hashedInput resignedTx"
    by (simp_all add: txWith_def resignedTx_def exampleTx_def identifiedInput_def hashedInput_def)
  ultimately show ?thesis
    using transaction_hash_commits [of exampleTx resignedTx "\<lambda>key m. m"] by (simp add: noCollision_def)
qed

end
