(* ===== verification/Utxo_Diff.thy ===== *)
theory Utxo_Diff
  imports Tx_Hash "HOL-Library.AList"
begin

text \<open>
  UTXO diffs: \<^verbatim>\<open>src/domain/consensus/utils/utxo/{utxo_collection,diff_algebra,mutable_utxo_diff,changed_outpoints}.go\<close>.

  A collection is a Go map from outpoints to entries. It is modelled as an association list without
  duplicate keys, whose order is the order in which a \<open>range\<close> loop happens to visit the map; every such loop is a
  \<open>fold\<close> over the list. What the algebra does is stated about the maps the lists represent, and does not depend on
  the order. A diff is a value: which immutable views share the maps of a mutable diff is not modelled.
\<close>

section \<open>Collections\<close>

type_synonym utxoCollection = "(DomainOutpoint \<times> UTXOEntry) list"

definition Get :: "utxoCollection \<Rightarrow> DomainOutpoint \<Rightarrow> UTXOEntry option" where
  "Get uc outpoint = map_of uc outpoint"

definition Contains :: "utxoCollection \<Rightarrow> DomainOutpoint \<Rightarrow> bool" where
  "Contains uc outpoint \<longleftrightarrow> Get uc outpoint \<noteq> None"

definition collAdd :: "DomainOutpoint \<Rightarrow> UTXOEntry \<Rightarrow> utxoCollection \<Rightarrow> utxoCollection" where
  "collAdd outpoint entry uc = AList.update outpoint entry uc"

definition collRemove :: "DomainOutpoint \<Rightarrow> utxoCollection \<Rightarrow> utxoCollection" where
  "collRemove outpoint uc = AList.delete outpoint uc"

definition removeMultiple :: "utxoCollection \<Rightarrow> utxoCollection \<Rightarrow> utxoCollection" where
  "removeMultiple collectionToRemove uc = fold (\<lambda>(outpoint, _). AList.delete outpoint) collectionToRemove uc"

definition containsWithDAAScore :: "utxoCollection \<Rightarrow> DomainOutpoint \<Rightarrow> 64 word \<Rightarrow> bool" where
  "containsWithDAAScore uc outpoint daaScore =
     (case Get uc outpoint of None \<Rightarrow> False | Some entry \<Rightarrow> ueBlockDAAScore entry = daaScore)"

section \<open>Conflicts\<close>

datatype UTXOError =
    ConflictError string DomainOutpoint
  | AddTwice DomainOutpoint
  | RemoveTwice DomainOutpoint
  | OutputIndexTooBig

text \<open>\<open>rule\<close> tells of an outpoint and its two entries whether they are in conflict.\<close>

type_synonym conflictRule = "DomainOutpoint \<Rightarrow> UTXOEntry \<Rightarrow> UTXOEntry \<Rightarrow> bool"

definition checkIntersectionWithRule :: "utxoCollection \<Rightarrow> utxoCollection \<Rightarrow> conflictRule \<Rightarrow> DomainOutpoint option" where
  "checkIntersectionWithRule collectionA collectionB extraRule =
     (if length collectionA > length collectionB
      then map_option fst (find (\<lambda>(outpoint, entry).
        case Get collectionA outpoint of None \<Rightarrow> False | Some otherEntry \<Rightarrow> extraRule outpoint otherEntry entry) collectionB)
      else map_option fst (find (\<lambda>(outpoint, entry).
        case Get collectionB outpoint of None \<Rightarrow> False | Some otherEntry \<Rightarrow> extraRule outpoint entry otherEntry) collectionA))"

definition isTolerableConflict :: "UTXOEntry \<Rightarrow> UTXOEntry \<Rightarrow> bool" where
  "isTolerableConflict entryA entryB \<longleftrightarrow>
     (if ueIsCoinbase entryA \<and> ueIsCoinbase entryB then True
      else ueAmount entryA = ueAmount entryB \<and> ueScriptPublicKey entryA = ueScriptPublicKey entryB)"

lemma find_mem: "find P xs = Some x \<Longrightarrow> x \<in> set xs \<and> P x"
  by (auto simp: find_Some_iff)

lemma checkIntersection_Some:
  assumes "checkIntersectionWithRule A B rule = Some outpoint"
  shows "\<exists>a b. (outpoint, a) \<in> set A \<and> (outpoint, b) \<in> set B \<and> rule outpoint a b"
proof (cases "length A > length B")
  case True
  with assms obtain b where "find (\<lambda>(outpoint, entry). case Get A outpoint of
      None \<Rightarrow> False | Some otherEntry \<Rightarrow> rule outpoint otherEntry entry) B = Some (outpoint, b)"
    by (auto simp: checkIntersectionWithRule_def)
  from find_mem [OF this] show ?thesis by (auto simp: Get_def split: option.splits dest: map_of_SomeD)
next
  case False
  with assms obtain a where "find (\<lambda>(outpoint, entry). case Get B outpoint of
      None \<Rightarrow> False | Some otherEntry \<Rightarrow> rule outpoint entry otherEntry) A = Some (outpoint, a)"
    by (auto simp: checkIntersectionWithRule_def)
  from find_mem [OF this] show ?thesis by (auto simp: Get_def split: option.splits dest: map_of_SomeD)
qed

function resolveLoop ::
  "utxoCollection \<Rightarrow> utxoCollection \<Rightarrow> conflictRule \<Rightarrow> string \<Rightarrow> DomainOutpoint list \<Rightarrow> (UTXOError, unit) result" where
  "resolveLoop collectionA collectionB rule description seen =
     (case checkIntersectionWithRule collectionA collectionB
             (\<lambda>outpoint entryA entryB. outpoint \<notin> set seen \<and> rule outpoint entryA entryB) of
        None \<Rightarrow> Inr ()
      | Some offendingOutpoint \<Rightarrow>
          (case (Get collectionA offendingOutpoint, Get collectionB offendingOutpoint) of
             (Some entryA, Some entryB) \<Rightarrow>
               if \<not> isTolerableConflict entryA entryB then Inl (Error (ConflictError description offendingOutpoint))
               else resolveLoop collectionA collectionB rule description (offendingOutpoint # seen)
           | _ \<Rightarrow> Inl GoPanic))"
  by pat_completeness auto

termination
proof (relation "measure (\<lambda>(A, _, _, _, seen). card (fst ` set A - set seen))")
  fix A B rule description seen outpoint entries a b entryA entryB
  assume "checkIntersectionWithRule A B (\<lambda>outpoint entryA entryB. outpoint \<notin> set seen \<and> rule outpoint entryA entryB) = Some outpoint"
  from checkIntersection_Some [OF this] have "outpoint \<in> fst ` set A - set seen" by force
  then have "fst ` set A - set (outpoint # seen) \<subset> fst ` set A - set seen" by auto
  from psubset_card_mono [OF _ this] show "((A, B, rule, description, outpoint # seen), (A, B, rule, description, seen))
      \<in> measure (\<lambda>(A, _, _, _, seen). card (fst ` set A - set seen))"
    by simp
qed simp

declare resolveLoop.simps [simp del]

definition resolveConflicts ::
  "utxoCollection \<Rightarrow> utxoCollection \<Rightarrow> conflictRule \<Rightarrow> string \<Rightarrow> (UTXOError, unit) result" where
  "resolveConflicts collectionA collectionB rule description = resolveLoop collectionA collectionB rule description []"

section \<open>The algebra\<close>

definition intersectionWithRemainderHavingDAAScoreInPlace ::
  "utxoCollection \<Rightarrow> utxoCollection \<Rightarrow> utxoCollection \<times> utxoCollection \<Rightarrow> utxoCollection \<times> utxoCollection" where
  "intersectionWithRemainderHavingDAAScoreInPlace collection1 collection2 =
     fold (\<lambda>(outpoint, entry1) (res, remainder).
       if containsWithDAAScore collection2 outpoint (ueBlockDAAScore entry1)
       then (collAdd outpoint entry1 res, remainder)
       else (res, collAdd outpoint entry1 remainder)) collection1"

definition subtractionHavingDAAScoreInPlace :: "utxoCollection \<Rightarrow> utxoCollection \<Rightarrow> utxoCollection \<Rightarrow> utxoCollection" where
  "subtractionHavingDAAScoreInPlace collection1 collection2 =
     fold (\<lambda>(outpoint, entry) res.
       if \<not> containsWithDAAScore collection2 outpoint (ueBlockDAAScore entry) then collAdd outpoint entry res else res)
       collection1"

definition subtractionWithRemainderHavingDAAScoreInPlace ::
  "utxoCollection \<Rightarrow> utxoCollection \<Rightarrow> utxoCollection \<times> utxoCollection \<Rightarrow> utxoCollection \<times> utxoCollection" where
  "subtractionWithRemainderHavingDAAScoreInPlace collection1 collection2 =
     fold (\<lambda>(outpoint, entry) (res, remainder).
       if \<not> containsWithDAAScore collection2 outpoint (ueBlockDAAScore entry)
       then (collAdd outpoint entry res, remainder)
       else (res, collAdd outpoint entry remainder)) collection1"

record mutableUTXODiff =
  toAdd :: utxoCollection
  toRemove :: utxoCollection
  changed :: "DomainOutpoint list option"

definition newMutableUTXODiff :: mutableUTXODiff where
  "newMutableUTXODiff = \<lparr>toAdd = [], toRemove = [], changed = None\<rparr>"

definition recordChange :: "DomainOutpoint \<Rightarrow> mutableUTXODiff \<Rightarrow> mutableUTXODiff" where
  "recordChange outpoint mud =
     (case changed mud of None \<Rightarrow> mud | Some c \<Rightarrow> mud\<lparr>changed := Some (List.insert outpoint c)\<rparr>)"

text \<open>The rules under which two entries at one outpoint conflict, and the one check that \<open>diffFrom\<close> makes itself.\<close>

definition isNotAddedOutputRemovedWithDAAScore :: "mutableUTXODiff \<Rightarrow> mutableUTXODiff \<Rightarrow> conflictRule" where
  "isNotAddedOutputRemovedWithDAAScore this other outpoint entry diffEntry \<longleftrightarrow>
     \<not> (ueBlockDAAScore diffEntry \<noteq> ueBlockDAAScore entry \<and>
        (containsWithDAAScore (toAdd this) outpoint (ueBlockDAAScore diffEntry) \<or>
         containsWithDAAScore (toRemove other) outpoint (ueBlockDAAScore entry)))"

definition isNotRemovedOutputAddedWithDAAScore :: "mutableUTXODiff \<Rightarrow> mutableUTXODiff \<Rightarrow> conflictRule" where
  "isNotRemovedOutputAddedWithDAAScore this other outpoint entry diffEntry \<longleftrightarrow>
     \<not> (ueBlockDAAScore diffEntry \<noteq> ueBlockDAAScore entry \<and>
        (containsWithDAAScore (toRemove this) outpoint (ueBlockDAAScore diffEntry) \<or>
         containsWithDAAScore (toAdd other) outpoint (ueBlockDAAScore entry)))"

definition addedInBothConflict :: "mutableUTXODiff \<Rightarrow> mutableUTXODiff \<Rightarrow> DomainOutpoint \<times> UTXOEntry \<Rightarrow> bool" where
  "addedInBothConflict this other = (\<lambda>(outpoint, addedEntry).
     let inThisToRemove = Contains (toRemove this) outpoint; inOtherToRemove = Contains (toRemove other) outpoint
     in if inThisToRemove = inOtherToRemove then False
        else case (if inThisToRemove then Get (toRemove this) outpoint else Get (toRemove other) outpoint) of
          None \<Rightarrow> False
        | Some removedEntry \<Rightarrow> \<not> isTolerableConflict addedEntry removedEntry)"

definition diffFrom :: "mutableUTXODiff \<Rightarrow> mutableUTXODiff \<Rightarrow> (UTXOError, mutableUTXODiff) result" where
  "diffFrom this other =
     (case resolveConflicts (toRemove this) (toAdd other) (isNotAddedOutputRemovedWithDAAScore this other)
             ''both in this.toRemove and in other.toAdd'' of
        Inl e \<Rightarrow> Inl e
      | Inr _ \<Rightarrow>
      case resolveConflicts (toAdd this) (toRemove other) (isNotRemovedOutputAddedWithDAAScore this other)
             ''both in this.toAdd and in other.toRemove'' of
        Inl e \<Rightarrow> Inl e
      | Inr _ \<Rightarrow>
      case resolveConflicts (toRemove this) (toRemove other)
             (\<lambda>_ entry diffEntry. ueBlockDAAScore entry \<noteq> ueBlockDAAScore diffEntry)
             ''both in this.toRemove and other.toRemove with different DAA scores'' of
        Inl e \<Rightarrow> Inl e
      | Inr _ \<Rightarrow>
          let (resToRemove, inBothToAdd) =
                subtractionWithRemainderHavingDAAScoreInPlace (toAdd this) (toAdd other) ([], [])
          in case find (addedInBothConflict this other) inBothToAdd of
               Some (outpoint, _) \<Rightarrow> Inl (Error (ConflictError ''only one of this.toRemove and other.toRemove'' outpoint))
             | None \<Rightarrow>
                 let resToRemove' = subtractionHavingDAAScoreInPlace (toRemove other) (toRemove this) resToRemove;
                     resToAdd = subtractionHavingDAAScoreInPlace (toRemove this) (toRemove other) [];
                     resToAdd' = subtractionHavingDAAScoreInPlace (toAdd other) (toAdd this) resToAdd
                 in Inr \<lparr>toAdd = resToAdd', toRemove = resToRemove', changed = None\<rparr>)"

type_synonym 'a diffProc = "(mutableUTXODiff, UTXOError, 'a) proc"

definition recordAll :: "utxoCollection \<Rightarrow> mutableUTXODiff \<Rightarrow> mutableUTXODiff" where
  "recordAll uc mud = fold (\<lambda>(outpoint, _). recordChange outpoint) uc mud"

text \<open>The two passes over the other diff: its removals, then its additions.\<close>

definition applyRemovals :: "utxoCollection \<Rightarrow> mutableUTXODiff \<Rightarrow> mutableUTXODiff" where
  "applyRemovals removals this =
     (let (intersection, remainder) = intersectionWithRemainderHavingDAAScoreInPlace removals (toAdd this) ([], toRemove this)
      in this\<lparr>toRemove := remainder, toAdd := removeMultiple intersection (toAdd this)\<rparr>)"

definition applyAdditions :: "utxoCollection \<Rightarrow> mutableUTXODiff \<Rightarrow> mutableUTXODiff" where
  "applyAdditions additions this =
     (let (intersection, remainder) = intersectionWithRemainderHavingDAAScoreInPlace additions (toRemove this) ([], toAdd this)
      in this\<lparr>toAdd := remainder, toRemove := removeMultiple intersection (toRemove this)\<rparr>)"

definition withDiffInPlace :: "mutableUTXODiff \<Rightarrow> unit diffProc" where
  "withDiffInPlace other =
     andThen (modify (\<lambda>this. recordAll (toRemove other) (recordAll (toAdd other) this)))
     (bnd (gets (\<lambda>this. this)) (\<lambda>this.
     andThen (liftR (resolveConflicts (toRemove other) (toRemove this)
       (\<lambda>outpoint entryToAdd _. \<not> containsWithDAAScore (toAdd this) outpoint (ueBlockDAAScore entryToAdd))
       ''both in this.toRemove and in other.toRemove''))
     (andThen (liftR (resolveConflicts (toAdd other) (toAdd this)
       (\<lambda>outpoint _ existingEntry. \<not> containsWithDAAScore (toRemove other) outpoint (ueBlockDAAScore existingEntry))
       ''both in this.toAdd and in other.toAdd''))
     (modify (\<lambda>this. applyAdditions (toAdd other) (applyRemovals (toRemove other) this))))))"

definition cloneDiff :: "mutableUTXODiff \<Rightarrow> mutableUTXODiff" where
  "cloneDiff mud = \<lparr>toAdd = toAdd mud, toRemove = toRemove mud, changed = None\<rparr>"

definition withDiff :: "mutableUTXODiff \<Rightarrow> mutableUTXODiff \<Rightarrow> (UTXOError, mutableUTXODiff) result" where
  "withDiff this diff =
     (case withDiffInPlace diff (cloneDiff this) of (Inl e, _) \<Rightarrow> Inl e | (Inr _, clone) \<Rightarrow> Inr clone)"

definition Reversed :: "mutableUTXODiff \<Rightarrow> mutableUTXODiff" where
  "Reversed mud = \<lparr>toAdd = toRemove mud, toRemove = toAdd mud, changed = None\<rparr>"

section \<open>Transactions\<close>

record utxoDiffUndoEntry =
  undoOutpoint :: DomainOutpoint
  toAddEntry :: "UTXOEntry option"
  toRemoveEntry :: "UTXOEntry option"

definition snapshot :: "DomainOutpoint \<Rightarrow> mutableUTXODiff \<Rightarrow> utxoDiffUndoEntry" where
  "snapshot outpoint mud =
     \<lparr>undoOutpoint = outpoint, toAddEntry = Get (toAdd mud) outpoint, toRemoveEntry = Get (toRemove mud) outpoint\<rparr>"

definition restore :: "utxoDiffUndoEntry \<Rightarrow> mutableUTXODiff \<Rightarrow> mutableUTXODiff" where
  "restore u mud =
     (let mud1 = recordChange (undoOutpoint u) mud;
          mud2 = (case toAddEntry u of
                    Some e \<Rightarrow> mud1\<lparr>toAdd := collAdd (undoOutpoint u) e (toAdd mud1)\<rparr>
                  | None \<Rightarrow> mud1\<lparr>toAdd := collRemove (undoOutpoint u) (toAdd mud1)\<rparr>)
      in case toRemoveEntry u of
           Some e \<Rightarrow> mud2\<lparr>toRemove := collAdd (undoOutpoint u) e (toRemove mud2)\<rparr>
         | None \<Rightarrow> mud2\<lparr>toRemove := collRemove (undoOutpoint u) (toRemove mud2)\<rparr>)"

definition rollback :: "utxoDiffUndoEntry list \<Rightarrow> mutableUTXODiff \<Rightarrow> mutableUTXODiff" where
  "rollback undoLog mud = fold restore (rev undoLog) mud"

definition sameDAAScore :: "UTXOEntry \<Rightarrow> UTXOEntry \<Rightarrow> bool" where
  "sameDAAScore a b \<longleftrightarrow> ueBlockDAAScore a = ueBlockDAAScore b"

definition sameCoin :: "UTXOEntry \<Rightarrow> UTXOEntry \<Rightarrow> bool" where
  "sameCoin a b \<longleftrightarrow> ueAmount a = ueAmount b \<and> ueIsCoinbase a = ueIsCoinbase b \<and> ueScriptPublicKey a = ueScriptPublicKey b"

definition NewUTXOEntry :: "64 word \<Rightarrow> ScriptPublicKey \<Rightarrow> bool \<Rightarrow> 64 word \<Rightarrow> UTXOEntry" where
  "NewUTXOEntry amount scriptPubKey isCoinbase blockDAAScore =
     \<lparr>ueAmount = amount, ueScriptPublicKey = scriptPubKey, ueBlockDAAScore = blockDAAScore, ueIsCoinbase = isCoinbase\<rparr>"

definition addEntry :: "DomainOutpoint \<Rightarrow> UTXOEntry \<Rightarrow> unit diffProc" where
  "addEntry outpoint entry =
     andThen (modify (recordChange outpoint))
     (bnd (gets (\<lambda>mud. mud)) (\<lambda>mud.
     if containsWithDAAScore (toRemove mud) outpoint (ueBlockDAAScore entry) then
       case Get (toRemove mud) outpoint of
         None \<Rightarrow> panic
       | Some existing \<Rightarrow>
           if \<not> sameCoin existing entry
           then modify (\<lambda>mud. mud\<lparr>toRemove := collRemove outpoint (toRemove mud), toAdd := collAdd outpoint entry (toAdd mud)\<rparr>)
           else modify (\<lambda>mud. mud\<lparr>toRemove := collRemove outpoint (toRemove mud)\<rparr>)
     else
       case Get (toAdd mud) outpoint of
         Some existing \<Rightarrow>
           if sameCoin existing entry then
             if \<not> sameDAAScore existing entry
             then modify (\<lambda>mud. mud\<lparr>toAdd := collAdd outpoint entry (collRemove outpoint (toAdd mud))\<rparr>)
             else ret ()
           else raise (AddTwice outpoint)
       | None \<Rightarrow> modify (\<lambda>mud. mud\<lparr>toAdd := collAdd outpoint entry (toAdd mud)\<rparr>)))"

definition removeEntry :: "DomainOutpoint \<Rightarrow> UTXOEntry option \<Rightarrow> unit diffProc" where
  "removeEntry outpoint entry' =
     andThen (modify (recordChange outpoint))
     (bnd (gets (\<lambda>mud. mud)) (\<lambda>mud.
     case entry' of
       None \<Rightarrow> panic
     | Some entry \<Rightarrow>
         if containsWithDAAScore (toAdd mud) outpoint (ueBlockDAAScore entry) then
           case Get (toAdd mud) outpoint of
             None \<Rightarrow> panic
           | Some existing \<Rightarrow>
               if \<not> sameCoin existing entry
               then modify (\<lambda>mud. mud\<lparr>toAdd := collRemove outpoint (toAdd mud), toRemove := collAdd outpoint entry (toRemove mud)\<rparr>)
               else modify (\<lambda>mud. mud\<lparr>toAdd := collRemove outpoint (toAdd mud)\<rparr>)
         else if Contains (toRemove mud) outpoint then raise (RemoveTwice outpoint)
         else modify (\<lambda>mud. mud\<lparr>toRemove := collAdd outpoint entry (toRemove mud)\<rparr>)))"

text \<open>A step that is undone, together with the steps before it, when it returns an error.\<close>

definition orRollback :: "utxoDiffUndoEntry list \<Rightarrow> unit diffProc \<Rightarrow> unit diffProc" where
  "orRollback undoLog m mud =
     (case m mud of
        (Inl (Error e), mud') \<Rightarrow> (Inl (Error e), rollback undoLog mud')
      | res \<Rightarrow> res)"

fun removeInputs :: "bool \<Rightarrow> DomainTransactionInput list \<Rightarrow> utxoDiffUndoEntry list \<Rightarrow> utxoDiffUndoEntry list diffProc" where
  "removeInputs skipMissingInputs [] undoLog = ret undoLog"
| "removeInputs skipMissingInputs (input # inputs) undoLog =
     (if skipMissingInputs \<and> utxoEntry input = None then removeInputs skipMissingInputs inputs undoLog
      else
        bnd (gets (snapshot (PreviousOutpoint input))) (\<lambda>u.
        andThen (orRollback (undoLog @ [u]) (removeEntry (PreviousOutpoint input) (utxoEntry input)))
        (removeInputs skipMissingInputs inputs (undoLog @ [u]))))"

fun addOutputs ::
  "DomainTransactionID \<Rightarrow> bool \<Rightarrow> 64 word \<Rightarrow> nat \<Rightarrow> DomainTransactionOutput list \<Rightarrow> utxoDiffUndoEntry list \<Rightarrow> unit diffProc" where
  "addOutputs transactionID isCoinbase blockDAAScore i [] undoLog = ret ()"
| "addOutputs transactionID isCoinbase blockDAAScore i (output # outputs) undoLog =
     (if i > 4294967295 then orRollback undoLog (raise OutputIndexTooBig)
      else
        let outpoint = \<lparr>TransactionID = transactionID, outIndex = word_of_nat i\<rparr>;
            entry = NewUTXOEntry (outValue output) (outScriptPublicKey output) isCoinbase blockDAAScore
        in bnd (gets (snapshot outpoint)) (\<lambda>u.
           andThen (orRollback (undoLog @ [u]) (addEntry outpoint entry))
           (addOutputs transactionID isCoinbase blockDAAScore (i + 1) outputs (undoLog @ [u]))))"

definition addTransaction :: "blake3 \<Rightarrow> DomainTransaction \<Rightarrow> 64 word \<Rightarrow> bool \<Rightarrow> unit diffProc" where
  "addTransaction blake3 transaction blockDAAScore skipMissingInputs =
     bnd (removeInputs skipMissingInputs (Inputs transaction) []) (\<lambda>undoLog.
     addOutputs (fst (computeTransactionID blake3 transaction)) (IsCoinBase transaction) blockDAAScore 0 (Outputs transaction) undoLog)"

definition AddTransaction :: "blake3 \<Rightarrow> DomainTransaction \<Rightarrow> 64 word \<Rightarrow> unit diffProc" where
  "AddTransaction blake3 transaction blockDAAScore = addTransaction blake3 transaction blockDAAScore False"

definition AddOutputsSpendingResolvedInputs :: "blake3 \<Rightarrow> DomainTransaction \<Rightarrow> 64 word \<Rightarrow> unit diffProc" where
  "AddOutputsSpendingResolvedInputs blake3 transaction blockDAAScore = addTransaction blake3 transaction blockDAAScore True"

section \<open>Changed outpoints\<close>

definition CloneMutableRecordingChanges :: "mutableUTXODiff \<Rightarrow> mutableUTXODiff" where
  "CloneMutableRecordingChanges diff = (cloneDiff diff)\<lparr>changed := Some []\<rparr>"

definition restrictToOutpoints :: "mutableUTXODiff \<Rightarrow> DomainOutpoint list \<Rightarrow> mutableUTXODiff" where
  "restrictToOutpoints diff outpoints =
     fold (\<lambda>outpoint restricted.
       let restricted1 = (case Get (toAdd diff) outpoint of
             None \<Rightarrow> restricted | Some entry \<Rightarrow> restricted\<lparr>toAdd := collAdd outpoint entry (toAdd restricted)\<rparr>)
       in case Get (toRemove diff) outpoint of
            None \<Rightarrow> restricted1 | Some entry \<Rightarrow> restricted1\<lparr>toRemove := collAdd outpoint entry (toRemove restricted1)\<rparr>)
       outpoints newMutableUTXODiff"

text \<open>None when \<open>other\<close> does not record its changes: the caller then needs \<open>diffFrom\<close>.\<close>

definition DiffFromChanged :: "mutableUTXODiff \<Rightarrow> mutableUTXODiff \<Rightarrow> (UTXOError, mutableUTXODiff) result option" where
  "DiffFromChanged this other =
     map_option (\<lambda>c. diffFrom (restrictToOutpoints this c) (restrictToOutpoints other c)) (changed other)"

end
