(* ===== verification/Utxo_Algebra.thy ===== *)
theory Utxo_Algebra
  imports Utxo_Diff
begin

text \<open>
  What the algebra of UTXO diffs computes. A diff holds for every outpoint a slot: the entry it adds and the entry it
  removes. Composition and difference act slot by slot, which the first part shows of the loops of the code. The second
  part relates slots to the UTXO set they are applied to.
\<close>

section \<open>Loops over collections\<close>

definition wfColl :: "utxoCollection \<Rightarrow> bool" where
  "wfColl uc \<longleftrightarrow> distinct (map fst uc)"

definition wfDiff :: "mutableUTXODiff \<Rightarrow> bool" where
  "wfDiff d \<longleftrightarrow> wfColl (toAdd d) \<and> wfColl (toRemove d)"

lemma wfColl_ops [simp]:
  "wfColl []" "wfColl uc \<Longrightarrow> wfColl (collAdd k v uc)" "wfColl uc \<Longrightarrow> wfColl (collRemove k uc)"
  by (simp_all add: wfColl_def collAdd_def collRemove_def distinct_update distinct_delete)

lemma Get_ops [simp]:
  "Get [] = Map.empty" "Get (collAdd k v uc) = (Get uc)(k \<mapsto> v)" "Get (collRemove k uc) = (Get uc)(k := None)"
  by (auto simp: Get_def collAdd_def collRemove_def update_conv' delete_conv')

lemma wfColl_Get: "wfColl uc \<Longrightarrow> (k, v) \<in> set uc \<longleftrightarrow> Get uc k = Some v"
  by (simp add: wfColl_def Get_def)

lemma containsWithDAAScore_iff:
  "containsWithDAAScore uc outpoint s \<longleftrightarrow> (\<exists>e. Get uc outpoint = Some e \<and> ueBlockDAAScore e = s)"
  by (auto simp: containsWithDAAScore_def split: option.split)

lemma wfColl_fold:
  "wfColl uc \<Longrightarrow> wfColl (fold (\<lambda>(k, v) res. if P k v then collAdd k v res else res) xs uc)"
  by (induction xs arbitrary: uc) auto

lemma Get_fold:
  assumes "wfColl xs"
  shows "Get (fold (\<lambda>(k, v) res. if P k v then collAdd k v res else res) xs uc) k =
    (case Get xs k of Some v \<Rightarrow> if P k v then Some v else Get uc k | None \<Rightarrow> Get uc k)"
  using assms
proof (induction xs arbitrary: uc)
  case (Cons x xs)
  obtain k' v' where x: "x = (k', v')" by (cases x)
  with Cons.prems have wf: "wfColl xs" "Get xs k' = None" by (auto simp: wfColl_def Get_def map_of_eq_None_iff)
  have "Get (x # xs) k = (if k = k' then Some v' else Get xs k)" by (simp add: x Get_def)
  with Cons.IH [OF wf(1)] wf(2) x show ?case by (simp split: option.split)
qed simp

lemma fold_pair:
  "fold (\<lambda>(k, v) (res, rest). if P k v then (collAdd k v res, rest) else (res, collAdd k v rest)) xs (uc, uc') =
   (fold (\<lambda>(k, v) res. if P k v then collAdd k v res else res) xs uc,
    fold (\<lambda>(k, v) res. if \<not> P k v then collAdd k v res else res) xs uc')"
  by (induction xs arbitrary: uc uc') auto

lemma Get_removeMultiple: "Get (removeMultiple c uc) k = (if Get c k = None then Get uc k else None)"
proof -
  have "map_of (fold (\<lambda>(k, _). AList.delete k) c uc) k = (if map_of c k = None then map_of uc k else None)"
    for c uc :: utxoCollection
    by (induction c arbitrary: uc) (auto simp: delete_conv' split: if_splits)
  then show ?thesis by (simp add: removeMultiple_def Get_def)
qed

lemma wfColl_removeMultiple [simp]: "wfColl uc \<Longrightarrow> wfColl (removeMultiple c uc)"
proof -
  have "distinct (map fst uc) \<Longrightarrow> distinct (map fst (fold (\<lambda>(k, _). AList.delete k) c uc))" for uc :: utxoCollection
    by (induction c arbitrary: uc) (auto simp: distinct_delete)
  then show "wfColl uc \<Longrightarrow> wfColl (removeMultiple c uc)" by (simp add: wfColl_def removeMultiple_def)
qed

section \<open>Conflicts\<close>

lemma checkIntersection_None:
  assumes "wfColl A" "wfColl B"
  shows "checkIntersectionWithRule A B rule = None \<longleftrightarrow>
    (\<forall>k a b. Get A k = Some a \<longrightarrow> Get B k = Some b \<longrightarrow> \<not> rule k a b)"
proof (cases "length A > length B")
  case True
  then show ?thesis
    using wfColl_Get [OF assms(2)]
    by (auto simp: checkIntersectionWithRule_def find_None_iff split: option.split)
next
  case False
  then show ?thesis
    using wfColl_Get [OF assms(1)]
    by (auto simp: checkIntersectionWithRule_def find_None_iff split: option.split)
qed

lemma resolveLoop_spec:
  assumes "wfColl A" "wfColl B"
    and "\<forall>k \<in> set seen. \<forall>a b. Get A k = Some a \<longrightarrow> Get B k = Some b \<longrightarrow> isTolerableConflict a b"
  shows "if \<forall>k a b. Get A k = Some a \<longrightarrow> Get B k = Some b \<longrightarrow> rule k a b \<longrightarrow> isTolerableConflict a b
    then resolveLoop A B rule description seen = Inr ()
    else \<exists>e. resolveLoop A B rule description seen = Inl (Error e)"
  using assms
proof (induction A B rule description seen rule: resolveLoop.induct)
  case (1 A B rule description seen)
  let ?rule = "\<lambda>k a b. k \<notin> set seen \<and> rule k a b"
  show ?case
  proof (cases "checkIntersectionWithRule A B ?rule")
    case None
    with "1.prems" have "\<forall>k a b. Get A k = Some a \<longrightarrow> Get B k = Some b \<longrightarrow> rule k a b \<longrightarrow> isTolerableConflict a b"
      using checkIntersection_None [OF "1.prems"(1,2), of ?rule] by blast
    moreover have "resolveLoop A B rule description seen = Inr ()" by (subst resolveLoop.simps) (simp add: None)
    ultimately show ?thesis by simp
  next
    case (Some k)
    from checkIntersection_Some [OF Some] wfColl_Get "1.prems"(1,2)
    obtain a b where ab: "Get A k = Some a" "Get B k = Some b" "rule k a b" by blast
    show ?thesis
    proof (cases "isTolerableConflict a b")
      case False
      then have "resolveLoop A B rule description seen = Inl (Error (ConflictError description k))"
        by (subst resolveLoop.simps) (simp add: Some ab)
      with ab False show ?thesis by auto
    next
      case True
      then have step: "resolveLoop A B rule description seen = resolveLoop A B rule description (k # seen)"
        by (subst resolveLoop.simps) (simp add: Some ab)
      show ?thesis unfolding step
        by (rule "1.IH" [OF Some _ ab(1) _ _ "1.prems"(1,2)]) (use True ab "1.prems"(3) in auto)
    qed
  qed
qed

lemma resolveConflicts_spec:
  assumes "wfColl A" "wfColl B"
  shows "resolveConflicts A B rule description = Inr () \<longleftrightarrow>
      (\<forall>k a b. Get A k = Some a \<longrightarrow> Get B k = Some b \<longrightarrow> rule k a b \<longrightarrow> isTolerableConflict a b)"
    and "resolveConflicts A B rule description \<noteq> Inl GoPanic"
  using resolveLoop_spec [OF assms, of "[]" rule description] unfolding resolveConflicts_def
  by (auto split: if_splits)

section \<open>Slots\<close>

text \<open>The entry a diff adds at an outpoint, and the entry it removes there.\<close>

type_synonym slot = "UTXOEntry option \<times> UTXOEntry option"

definition slotOf :: "mutableUTXODiff \<Rightarrow> DomainOutpoint \<Rightarrow> slot" where
  "slotOf d k = (Get (toAdd d) k, Get (toRemove d) k)"

definition stamped :: "UTXOEntry option \<Rightarrow> UTXOEntry \<Rightarrow> bool" where
  "stamped x e \<longleftrightarrow> (case x of None \<Rightarrow> False | Some y \<Rightarrow> ueBlockDAAScore y = ueBlockDAAScore e)"

lemma stamped_simps [simp]:
  "\<not> stamped None e" "stamped (Some y) e \<longleftrightarrow> ueBlockDAAScore y = ueBlockDAAScore e"
  by (simp_all add: stamped_def)

lemma contains_stamped: "containsWithDAAScore uc k (ueBlockDAAScore e) = stamped (Get uc k) e"
  by (simp add: containsWithDAAScore_def stamped_def)

text \<open>Composition at one outpoint: the other diff's removal, then its addition.\<close>

fun removeSlot :: "slot \<Rightarrow> UTXOEntry option \<Rightarrow> slot" where
  "removeSlot s None = s"
| "removeSlot (a, r) (Some e) = (if stamped a e then (None, r) else (a, Some e))"

fun addSlot :: "slot \<Rightarrow> UTXOEntry option \<Rightarrow> slot" where
  "addSlot s None = s"
| "addSlot (a, r) (Some e) = (if stamped r e then (a, None) else (Some e, r))"

definition withSlot :: "slot \<Rightarrow> slot \<Rightarrow> slot" where
  "withSlot s t = addSlot (removeSlot s (snd t)) (fst t)"

definition withSlotOk :: "slot \<Rightarrow> slot \<Rightarrow> bool" where
  "withSlotOk s t \<longleftrightarrow>
     (\<forall>e r. snd t = Some e \<longrightarrow> snd s = Some r \<longrightarrow> \<not> stamped (fst s) e \<longrightarrow> isTolerableConflict e r) \<and>
     (\<forall>e a. fst t = Some e \<longrightarrow> fst s = Some a \<longrightarrow> \<not> stamped (snd t) a \<longrightarrow> isTolerableConflict e a)"

text \<open>Difference at one outpoint.\<close>

definition minus :: "UTXOEntry option \<Rightarrow> UTXOEntry option \<Rightarrow> UTXOEntry option \<Rightarrow> UTXOEntry option" where
  "minus x y z = (case x of None \<Rightarrow> z | Some e \<Rightarrow> if stamped y e then z else Some e)"

definition diffSlot :: "slot \<Rightarrow> slot \<Rightarrow> slot" where
  "diffSlot s t = (minus (fst t) (fst s) (minus (snd s) (snd t) None), minus (snd t) (snd s) (minus (fst s) (fst t) None))"

definition diffSlotOk :: "slot \<Rightarrow> slot \<Rightarrow> bool" where
  "diffSlotOk s t \<longleftrightarrow>
     (\<forall>r a. snd s = Some r \<longrightarrow> fst t = Some a \<longrightarrow>
        \<not> (ueBlockDAAScore a \<noteq> ueBlockDAAScore r \<and> (stamped (fst s) a \<or> stamped (snd t) r)) \<longrightarrow> isTolerableConflict r a) \<and>
     (\<forall>a r. fst s = Some a \<longrightarrow> snd t = Some r \<longrightarrow>
        \<not> (ueBlockDAAScore r \<noteq> ueBlockDAAScore a \<and> (stamped (snd s) r \<or> stamped (fst t) a)) \<longrightarrow> isTolerableConflict a r) \<and>
     (\<forall>r r'. snd s = Some r \<longrightarrow> snd t = Some r' \<longrightarrow> ueBlockDAAScore r \<noteq> ueBlockDAAScore r' \<longrightarrow> isTolerableConflict r r') \<and>
     (\<forall>a. fst s = Some a \<longrightarrow> stamped (fst t) a \<longrightarrow>
        (\<forall>r. snd s = Some r \<longrightarrow> snd t = None \<longrightarrow> isTolerableConflict a r) \<and>
        (\<forall>r. snd s = None \<longrightarrow> snd t = Some r \<longrightarrow> isTolerableConflict a r))"

lemma Get_subtraction:
  assumes "wfColl xs"
  shows "Get (subtractionHavingDAAScoreInPlace xs ys res) k = minus (Get xs k) (Get ys k) (Get res k)"
  using Get_fold [OF assms, of "\<lambda>k v. \<not> containsWithDAAScore ys k (ueBlockDAAScore v)" res k]
  by (simp add: subtractionHavingDAAScoreInPlace_def minus_def contains_stamped split: option.split)

lemma wfColl_subtraction [simp]: "wfColl res \<Longrightarrow> wfColl (subtractionHavingDAAScoreInPlace xs ys res)"
  unfolding subtractionHavingDAAScoreInPlace_def by (rule wfColl_fold)

lemma subtractionWithRemainder_eq:
  "subtractionWithRemainderHavingDAAScoreInPlace xs ys (res, rest) =
   (subtractionHavingDAAScoreInPlace xs ys res,
    fold (\<lambda>(k, v) res. if containsWithDAAScore ys k (ueBlockDAAScore v) then collAdd k v res else res) xs rest)"
  using fold_pair [of "\<lambda>k v. \<not> containsWithDAAScore ys k (ueBlockDAAScore v)" xs res rest]
  by (simp add: subtractionWithRemainderHavingDAAScoreInPlace_def subtractionHavingDAAScoreInPlace_def)

lemma intersectionWithRemainder_eq:
  "intersectionWithRemainderHavingDAAScoreInPlace xs ys (res, rest) =
   (fold (\<lambda>(k, v) res. if containsWithDAAScore ys k (ueBlockDAAScore v) then collAdd k v res else res) xs res,
    subtractionHavingDAAScoreInPlace xs ys rest)"
  using fold_pair [of "\<lambda>k v. containsWithDAAScore ys k (ueBlockDAAScore v)" xs res rest]
  by (simp add: intersectionWithRemainderHavingDAAScoreInPlace_def subtractionHavingDAAScoreInPlace_def)

lemma applyRemovals_slot:
  assumes "wfColl rs"
  shows "slotOf (applyRemovals rs d) k = removeSlot (slotOf d k) (Get rs k)"
  using Get_fold [OF assms, of "\<lambda>k v. containsWithDAAScore (toAdd d) k (ueBlockDAAScore v)" "[]" k] Get_subtraction [OF assms]
  by (cases "Get rs k")
    (auto simp: applyRemovals_def Let_def intersectionWithRemainder_eq slotOf_def Get_removeMultiple contains_stamped minus_def)

lemma applyAdditions_slot:
  assumes "wfColl as"
  shows "slotOf (applyAdditions as d) k = addSlot (slotOf d k) (Get as k)"
  using Get_fold [OF assms, of "\<lambda>k v. containsWithDAAScore (toRemove d) k (ueBlockDAAScore v)" "[]" k] Get_subtraction [OF assms]
  by (cases "Get as k")
    (auto simp: applyAdditions_def Let_def intersectionWithRemainder_eq slotOf_def Get_removeMultiple contains_stamped minus_def)

lemma wfDiff_apply [simp]:
  "wfDiff d \<Longrightarrow> wfDiff (applyRemovals rs d)" "wfDiff d \<Longrightarrow> wfDiff (applyAdditions rs d)"
  by (simp_all add: wfDiff_def applyRemovals_def applyAdditions_def Let_def intersectionWithRemainder_eq)

lemma recordChange_simps [simp]:
  "toAdd (recordChange k d) = toAdd d" "toRemove (recordChange k d) = toRemove d"
  by (simp_all add: recordChange_def split: option.split)

lemma recordAll_simps [simp]:
  "toAdd (recordAll uc d) = toAdd d" "toRemove (recordAll uc d) = toRemove d"
  by (induction uc arbitrary: d) (auto simp: recordAll_def)

lemma error_cases:
  fixes x :: "(UTXOError, unit) result"
  assumes "x \<noteq> Inr ()" and "x \<noteq> Inl GoPanic"
  shows "\<exists>e. x = Inl (Error e)"
proof (cases x)
  case (Inl f)
  with assms show ?thesis by (cases f) simp_all
qed (use assms in simp)

lemma withDiffInPlace_spec:
  assumes "wfDiff this" "wfDiff other" and run: "withDiffInPlace other this = (r, this')"
  shows "wfDiff this'"
    and "if \<forall>k. withSlotOk (slotOf this k) (slotOf other k)
      then r = Inr () \<and> (\<forall>k. slotOf this' k = withSlot (slotOf this k) (slotOf other k))
      else (\<exists>e. r = Inl (Error e)) \<and> (\<forall>k. slotOf this' k = slotOf this k)"
proof -
  let ?rec = "recordAll (toRemove other) (recordAll (toAdd other) this)"
  have wf: "wfColl (toAdd this)" "wfColl (toRemove this)" "wfColl (toAdd other)" "wfColl (toRemove other)" "wfDiff ?rec"
    using assms(1,2) by (simp_all add: wfDiff_def)
  have slots: "slotOf ?rec k = slotOf this k" for k by (simp add: slotOf_def)
  let ?c1 = "resolveConflicts (toRemove other) (toRemove this)
     (\<lambda>k e _. \<not> containsWithDAAScore (toAdd this) k (ueBlockDAAScore e)) ''both in this.toRemove and in other.toRemove''"
  let ?c2 = "resolveConflicts (toAdd other) (toAdd this)
     (\<lambda>k _ e. \<not> containsWithDAAScore (toRemove other) k (ueBlockDAAScore e)) ''both in this.toAdd and in other.toAdd''"
  note spec1 = resolveConflicts_spec [OF wf(4,2)] and spec2 = resolveConflicts_spec [OF wf(3,1)]
  have ok: "(\<forall>k. withSlotOk (slotOf this k) (slotOf other k)) \<longleftrightarrow> ?c1 = Inr () \<and> ?c2 = Inr ()"
    unfolding spec1(1) spec2(1) by (auto simp: withSlotOk_def slotOf_def contains_stamped)
  have res: "withDiffInPlace other this =
    (case ?c1 of Inl e \<Rightarrow> (Inl e, ?rec) | Inr _ \<Rightarrow> case ?c2 of Inl e \<Rightarrow> (Inl e, ?rec)
     | Inr _ \<Rightarrow> (Inr (), applyAdditions (toAdd other) (applyRemovals (toRemove other) ?rec)))"
    by (simp add: withDiffInPlace_def andThen_def bnd_def modify_def gets_def liftR_def split: sum.split)
  show "wfDiff this'" using run wf(5) unfolding res by (auto split: sum.splits)
  show "if \<forall>k. withSlotOk (slotOf this k) (slotOf other k)
      then r = Inr () \<and> (\<forall>k. slotOf this' k = withSlot (slotOf this k) (slotOf other k))
      else (\<exists>e. r = Inl (Error e)) \<and> (\<forall>k. slotOf this' k = slotOf this k)"
  proof (cases "?c1 = Inr () \<and> ?c2 = Inr ()")
    case True
    with run have "r = Inr ()" "this' = applyAdditions (toAdd other) (applyRemovals (toRemove other) ?rec)"
      unfolding res by simp_all
    moreover have "slotOf (applyAdditions (toAdd other) (applyRemovals (toRemove other) ?rec)) k
        = withSlot (slotOf this k) (slotOf other k)" for k
      using wf by (simp add: applyAdditions_slot applyRemovals_slot slots withSlot_def) (simp add: slotOf_def)
    ultimately show ?thesis using True ok by simp
  next
    case False
    then obtain e where "withDiffInPlace other this = (Inl (Error e), ?rec)"
    proof (cases "?c1 = Inr ()")
      case True
      with False error_cases [OF _ spec2(2)] obtain e where "?c2 = Inl (Error e)" by blast
      with True res that show thesis by simp
    next
      case False
      with error_cases [OF _ spec1(2)] obtain e where "?c1 = Inl (Error e)" by blast
      with res that show thesis by simp
    qed
    with run have "this' = ?rec" "r = Inl (Error e)" by simp_all
    with False ok slots show ?thesis by simp
  qed
qed

lemma inBoth_conflict:
  assumes "wfDiff this" "wfDiff other"
  defines "both \<equiv> fold (\<lambda>(k, v) res. if containsWithDAAScore (toAdd other) k (ueBlockDAAScore v) then collAdd k v res else res)
      (toAdd this) []"
  shows "find (addedInBothConflict this other) both = None \<longleftrightarrow>
    (\<forall>k a. Get (toAdd this) k = Some a \<longrightarrow> stamped (Get (toAdd other) k) a \<longrightarrow>
        (\<forall>r. Get (toRemove this) k = Some r \<longrightarrow> Get (toRemove other) k = None \<longrightarrow> isTolerableConflict a r) \<and>
        (\<forall>r. Get (toRemove this) k = None \<longrightarrow> Get (toRemove other) k = Some r \<longrightarrow> isTolerableConflict a r))"
proof -
  have wf: "wfColl both" unfolding both_def by (rule wfColl_fold) simp
  have get: "Get both k = Some a \<longleftrightarrow> Get (toAdd this) k = Some a \<and> stamped (Get (toAdd other) k) a" for k a
    using assms(1) Get_fold [of "toAdd this" "\<lambda>k v. containsWithDAAScore (toAdd other) k (ueBlockDAAScore v)" "[]" k]
    by (auto simp: both_def wfDiff_def contains_stamped split: option.splits if_splits)
  have conflict: "addedInBothConflict this other (k, a) \<longleftrightarrow>
      \<not> ((\<forall>r. Get (toRemove this) k = Some r \<longrightarrow> Get (toRemove other) k = None \<longrightarrow> isTolerableConflict a r) \<and>
         (\<forall>r. Get (toRemove this) k = None \<longrightarrow> Get (toRemove other) k = Some r \<longrightarrow> isTolerableConflict a r))" for k a
    by (cases "Get (toRemove this) k"; cases "Get (toRemove other) k")
      (simp_all add: addedInBothConflict_def Contains_def Let_def)
  have "find (addedInBothConflict this other) both = None \<longleftrightarrow> (\<forall>k a. Get both k = Some a \<longrightarrow> \<not> addedInBothConflict this other (k, a))"
    using wfColl_Get [OF wf] by (auto simp: find_None_iff)
  then show ?thesis unfolding get conflict by blast
qed

lemma diffFrom_spec:
  assumes "wfDiff this" "wfDiff other"
  shows "if \<forall>k. diffSlotOk (slotOf this k) (slotOf other k)
    then \<exists>d. diffFrom this other = Inr d \<and> wfDiff d \<and> changed d = None \<and> (\<forall>k. slotOf d k = diffSlot (slotOf this k) (slotOf other k))
    else \<exists>e. diffFrom this other = Inl (Error e)"
proof -
  have wf: "wfColl (toAdd this)" "wfColl (toRemove this)" "wfColl (toAdd other)" "wfColl (toRemove other)"
    using assms by (simp_all add: wfDiff_def)
  let ?c1 = "resolveConflicts (toRemove this) (toAdd other) (isNotAddedOutputRemovedWithDAAScore this other)
     ''both in this.toRemove and in other.toAdd''"
  let ?c2 = "resolveConflicts (toAdd this) (toRemove other) (isNotRemovedOutputAddedWithDAAScore this other)
     ''both in this.toAdd and in other.toRemove''"
  let ?c3 = "resolveConflicts (toRemove this) (toRemove other) (\<lambda>_ a b. ueBlockDAAScore a \<noteq> ueBlockDAAScore b)
     ''both in this.toRemove and other.toRemove with different DAA scores''"
  let ?both = "fold (\<lambda>(k, v) res. if containsWithDAAScore (toAdd other) k (ueBlockDAAScore v) then collAdd k v res else res)
      (toAdd this) []"
  let ?d = "\<lparr>toAdd = subtractionHavingDAAScoreInPlace (toAdd other) (toAdd this)
        (subtractionHavingDAAScoreInPlace (toRemove this) (toRemove other) []),
      toRemove = subtractionHavingDAAScoreInPlace (toRemove other) (toRemove this)
        (subtractionHavingDAAScoreInPlace (toAdd this) (toAdd other) []), changed = None\<rparr>"
  note spec1 = resolveConflicts_spec [OF wf(2,3)] and spec2 = resolveConflicts_spec [OF wf(1,4)]
    and spec3 = resolveConflicts_spec [OF wf(2,4)]
  have ok: "(\<forall>k. diffSlotOk (slotOf this k) (slotOf other k)) \<longleftrightarrow>
      ?c1 = Inr () \<and> ?c2 = Inr () \<and> ?c3 = Inr () \<and> find (addedInBothConflict this other) ?both = None"
    unfolding spec1(1) spec2(1) spec3(1) inBoth_conflict [OF assms]
    by (simp add: diffSlotOk_def slotOf_def isNotAddedOutputRemovedWithDAAScore_def isNotRemovedOutputAddedWithDAAScore_def
        contains_stamped) blast
  have res: "diffFrom this other = (case ?c1 of Inl e \<Rightarrow> Inl e | Inr _ \<Rightarrow> case ?c2 of Inl e \<Rightarrow> Inl e | Inr _ \<Rightarrow>
      case ?c3 of Inl e \<Rightarrow> Inl e | Inr _ \<Rightarrow> case find (addedInBothConflict this other) ?both of
        Some (k, _) \<Rightarrow> Inl (Error (ConflictError ''only one of this.toRemove and other.toRemove'' k)) | None \<Rightarrow> Inr ?d)"
    by (simp add: diffFrom_def subtractionWithRemainder_eq Let_def split: sum.split option.split)
  have slots: "slotOf ?d k = diffSlot (slotOf this k) (slotOf other k)" for k
    using wf by (simp add: slotOf_def diffSlot_def Get_subtraction)
  have d: "wfDiff ?d" by (simp add: wfDiff_def)
  show ?thesis
  proof (cases "\<forall>k. diffSlotOk (slotOf this k) (slotOf other k)")
    case True
    with ok res have "diffFrom this other = Inr ?d" by simp
    with True d slots show ?thesis by auto
  next
    case False
    from False [unfolded ok]
    have "?c1 \<noteq> Inr () \<or> ?c2 \<noteq> Inr () \<or> ?c3 \<noteq> Inr () \<or> find (addedInBothConflict this other) ?both \<noteq> None"
      by (simp only: de_Morgan_conj)
    moreover note e1 = error_cases [of ?c1, OF _ spec1(2)] and e2 = error_cases [of ?c2, OF _ spec2(2)]
      and e3 = error_cases [of ?c3, OF _ spec3(2)]
    ultimately have "\<exists>e. diffFrom this other = Inl (Error e)"
      unfolding res by (cases ?c1; cases ?c2; cases ?c3) (use e1 e2 e3 in \<open>auto split: option.split\<close>)
    then show ?thesis unfolding if_not_P [OF False] .
  qed
qed

lemma withDiff_spec:
  assumes "wfDiff this" "wfDiff other"
  shows "if \<forall>k. withSlotOk (slotOf this k) (slotOf other k)
    then \<exists>d. withDiff this other = Inr d \<and> wfDiff d \<and> (\<forall>k. slotOf d k = withSlot (slotOf this k) (slotOf other k))
    else \<exists>e. withDiff this other = Inl (Error e)"
proof -
  obtain r d where run: "withDiffInPlace other (cloneDiff this) = (r, d)" by (cases "withDiffInPlace other (cloneDiff this)")
  have clone: "wfDiff (cloneDiff this)" "slotOf (cloneDiff this) k = slotOf this k" for k
    using assms(1) by (simp_all add: cloneDiff_def wfDiff_def slotOf_def)
  from withDiffInPlace_spec [OF clone(1) assms(2) run] show ?thesis
    by (auto simp: withDiff_def run clone split: if_splits)
qed

section \<open>UTXO sets\<close>

text \<open>A UTXO set maps outpoints to entries. Applying a diff removes and then adds.\<close>

type_synonym utxoSet = "DomainOutpoint \<rightharpoonup> UTXOEntry"

definition applySlot :: "slot \<Rightarrow> UTXOEntry option \<Rightarrow> UTXOEntry option" where
  "applySlot s b = (case fst s of Some e \<Rightarrow> Some e | None \<Rightarrow> (if snd s = None then b else None))"

definition applyDiff :: "mutableUTXODiff \<Rightarrow> utxoSet \<Rightarrow> utxoSet" where
  "applyDiff d base k = applySlot (slotOf d k) (base k)"

text \<open>A diff fits a UTXO set when it removes what the set holds and adds what the set does not hold, or restamps
  what it removes with another DAA score.\<close>

definition validSlot :: "UTXOEntry option \<Rightarrow> slot \<Rightarrow> bool" where
  "validSlot b s \<longleftrightarrow>
     (\<forall>r. snd s = Some r \<longrightarrow> b = Some r) \<and>
     (\<forall>a. fst s = Some a \<longrightarrow> (case snd s of None \<Rightarrow> b = None | Some r \<Rightarrow> ueBlockDAAScore r \<noteq> ueBlockDAAScore a))"

definition validOn :: "utxoSet \<Rightarrow> mutableUTXODiff \<Rightarrow> bool" where
  "validOn base d \<longleftrightarrow> (\<forall>k. validSlot (base k) (slotOf d k))"

text \<open>Entries at one outpoint with one DAA score are one entry: the outpoint determines the transaction that created the
  coin, the DAA score the block that merged it.\<close>

definition oneEntry :: "UTXOEntry option set \<Rightarrow> bool" where
  "oneEntry es \<longleftrightarrow> (\<forall>x y. Some x \<in> es \<longrightarrow> Some y \<in> es \<longrightarrow> ueBlockDAAScore x = ueBlockDAAScore y \<longrightarrow> x = y)"

definition oneEntryPerScore :: "utxoSet \<Rightarrow> mutableUTXODiff \<Rightarrow> mutableUTXODiff \<Rightarrow> bool" where
  "oneEntryPerScore base d d' \<longleftrightarrow>
     (\<forall>k. oneEntry {base k, fst (slotOf d k), snd (slotOf d k), fst (slotOf d' k), snd (slotOf d' k)})"

lemma tolerable_refl [simp]: "isTolerableConflict e e"
  by (simp add: isTolerableConflict_def)

lemma withSlot_valid:
  assumes "validSlot b s" and "validSlot (applySlot s b) t" and "oneEntry {b, fst s, snd s, fst t, snd t}"
  shows "withSlotOk s t \<and> validSlot b (withSlot s t) \<and> applySlot (withSlot s t) b = applySlot t (applySlot s b)"
proof -
  obtain a r where s: "s = (a, r)" by (cases s)
  obtain a' r' where t: "t = (a', r')" by (cases t)
  show ?thesis
    using assms unfolding s t
    by (cases a; cases r; cases a'; cases r'; cases b)
      (auto simp: withSlotOk_def validSlot_def withSlot_def applySlot_def oneEntry_def)
qed

lemma diffSlot_valid:
  assumes "validSlot b s" and "validSlot b t" and "oneEntry {b, fst s, snd s, fst t, snd t}"
  shows "diffSlotOk s t \<and> validSlot (applySlot s b) (diffSlot s t) \<and>
    applySlot (diffSlot s t) (applySlot s b) = applySlot t b \<and> withSlotOk s (diffSlot s t) \<and> withSlot s (diffSlot s t) = t"
proof -
  obtain a r where s: "s = (a, r)" by (cases s)
  obtain a' r' where t: "t = (a', r')" by (cases t)
  show ?thesis
    using assms unfolding s t
    by (cases a; cases r; cases a'; cases r'; cases b)
      (auto simp: diffSlotOk_def withSlotOk_def validSlot_def withSlot_def applySlot_def oneEntry_def diffSlot_def minus_def)
qed

text \<open>Two runs with the same outcome: the same slots, or an error in both.\<close>

definition sameOutcome :: "(UTXOError, mutableUTXODiff) result \<Rightarrow> (UTXOError, mutableUTXODiff) result \<Rightarrow> bool" where
  "sameOutcome x y =
     (case (x, y) of
        (Inr d, Inr d') \<Rightarrow> slotOf d = slotOf d'
      | (Inl (Error _), Inl (Error _)) \<Rightarrow> True
      | _ \<Rightarrow> False)"

lemma sameOutcomeI:
  assumes "if P then \<exists>d. x = Inr d \<and> (\<forall>k. slotOf d k = f k) else \<exists>e. x = Inl (Error e)"
    and "if P then \<exists>d. y = Inr d \<and> (\<forall>k. slotOf d k = f k) else \<exists>e. y = Inl (Error e)"
  shows "sameOutcome x y"
  using assms by (cases P) (auto simp: sameOutcome_def fun_eq_iff)

lemma withDiff_outcome:
  assumes "wfDiff this" "wfDiff other"
  shows "if \<forall>k. withSlotOk (slotOf this k) (slotOf other k)
    then \<exists>d. withDiff this other = Inr d \<and> (\<forall>k. slotOf d k = withSlot (slotOf this k) (slotOf other k))
    else \<exists>e. withDiff this other = Inl (Error e)"
  using withDiff_spec [OF assms] by (auto split: if_splits)

lemma diffFrom_outcome:
  assumes "wfDiff this" "wfDiff other"
  shows "if \<forall>k. diffSlotOk (slotOf this k) (slotOf other k)
    then \<exists>d. diffFrom this other = Inr d \<and> (\<forall>k. slotOf d k = diffSlot (slotOf this k) (slotOf other k))
    else \<exists>e. diffFrom this other = Inl (Error e)"
  using diffFrom_spec [OF assms] by (auto split: if_splits)

section \<open>Properties\<close>

text \<open>C10: Composing diffs is applying them in turn. When a diff fits a UTXO set, and another fits the set it leads to, and an
  outpoint and a DAA score determine an entry, then \<open>withDiff\<close> returns no error, its result fits the first
  set, and applying the result gives the set that applying the one diff after the other gives.\<close>

theorem withDiff_composes:
  assumes "wfDiff this" "wfDiff other" and "validOn base this" and "validOn (applyDiff this base) other"
    and "oneEntryPerScore base this other"
  shows "\<exists>d. withDiff this other = Inr d \<and> validOn base d \<and> applyDiff d base = applyDiff other (applyDiff this base)"
proof -
  have slot: "withSlotOk (slotOf this k) (slotOf other k) \<and> validSlot (base k) (withSlot (slotOf this k) (slotOf other k)) \<and>
      applySlot (withSlot (slotOf this k) (slotOf other k)) (base k) = applySlot (slotOf other k) (applySlot (slotOf this k) (base k))" for k
    using assms(3-5) by (intro withSlot_valid) (simp_all add: validOn_def applyDiff_def oneEntryPerScore_def)
  then have ok: "\<forall>k. withSlotOk (slotOf this k) (slotOf other k)" by blast
  from withDiff_outcome [OF assms(1,2), unfolded if_P [OF ok]] obtain d where
    d: "withDiff this other = Inr d" "\<And>k. slotOf d k = withSlot (slotOf this k) (slotOf other k)" by blast
  with slot have "validOn base d" "applyDiff d base = applyDiff other (applyDiff this base)"
    by (simp_all add: validOn_def applyDiff_def fun_eq_iff)
  with d(1) show ?thesis by blast
qed

text \<open>C11: The difference of two diffs leads from the set of the one to the set of the other. When two diffs fit a
  common UTXO set, \<open>diffFrom\<close> returns no error and a diff that, applied after the first, gives the set of the
  second; composing the first with it gives back exactly the entries of the second.\<close>

theorem diffFrom_leads_over:
  assumes "wfDiff this" "wfDiff other" and "validOn base this" and "validOn base other"
    and "oneEntryPerScore base this other"
  shows "\<exists>d c. diffFrom this other = Inr d \<and> validOn (applyDiff this base) d \<and>
    applyDiff d (applyDiff this base) = applyDiff other base \<and> withDiff this d = Inr c \<and> slotOf c = slotOf other"
proof -
  let ?s = "slotOf this" and ?t = "slotOf other"
  have slot: "diffSlotOk (?s k) (?t k) \<and> validSlot (applySlot (?s k) (base k)) (diffSlot (?s k) (?t k)) \<and>
      applySlot (diffSlot (?s k) (?t k)) (applySlot (?s k) (base k)) = applySlot (?t k) (base k) \<and>
      withSlotOk (?s k) (diffSlot (?s k) (?t k)) \<and> withSlot (?s k) (diffSlot (?s k) (?t k)) = ?t k" for k
    using assms(3-5) by (intro diffSlot_valid) (simp_all add: validOn_def oneEntryPerScore_def)
  then have ok: "\<forall>k. diffSlotOk (?s k) (?t k)" by blast
  from diffFrom_spec [OF assms(1,2), unfolded if_P [OF ok]] obtain d where
    d: "diffFrom this other = Inr d" "wfDiff d" "\<And>k. slotOf d k = diffSlot (?s k) (?t k)" by blast
  have ok': "\<forall>k. withSlotOk (?s k) (slotOf d k)" using slot by (simp add: d(3))
  from withDiff_outcome [OF assms(1) d(2), unfolded if_P [OF ok']] obtain c where
    c: "withDiff this d = Inr c" "\<And>k. slotOf c k = withSlot (?s k) (slotOf d k)" by blast
  have "slotOf c = ?t" using slot by (simp add: fun_eq_iff c(2) d(3))
  moreover have "validOn (applyDiff this base) d" "applyDiff d (applyDiff this base) = applyDiff other base"
    using slot by (simp_all add: validOn_def applyDiff_def fun_eq_iff d(3))
  ultimately show ?thesis using d(1) c(1) by blast
qed

text \<open>C16: The order in which Go's maps are iterated does not matter: composition and difference of diffs with the same
  entries both fail or give diffs with the same entries, so two nodes that compute them reach the same UTXO set.\<close>

theorem diff_order_irrelevant:
  assumes "wfDiff this" "wfDiff other" "wfDiff this'" "wfDiff other'"
    and "slotOf this = slotOf this'" and "slotOf other = slotOf other'"
  shows "sameOutcome (withDiff this other) (withDiff this' other') \<and> sameOutcome (diffFrom this other) (diffFrom this' other')"
  using sameOutcomeI [OF withDiff_outcome [OF assms(1,2)] withDiff_outcome [OF assms(3,4), folded assms(5,6)]]
    sameOutcomeI [OF diffFrom_outcome [OF assms(1,2)] diffFrom_outcome [OF assms(3,4), folded assms(5,6)]]
  by blast

text \<open>A coin is restamped: one diff removes it, the next adds it with another DAA score.\<close>

definition exampleOutpoint :: DomainOutpoint where
  "exampleOutpoint = \<lparr>TransactionID = replicate 32 5, outIndex = 0\<rparr>"

definition exampleCoin :: "64 word \<Rightarrow> UTXOEntry" where
  "exampleCoin score = NewUTXOEntry 7 \<lparr>Script = [0x51], spkVersion = 0\<rparr> False score"

definition spendDiff :: mutableUTXODiff where
  "spendDiff = \<lparr>toAdd = [], toRemove = [(exampleOutpoint, exampleCoin 5)], changed = None\<rparr>"

definition createDiff :: mutableUTXODiff where
  "createDiff = \<lparr>toAdd = [(exampleOutpoint, exampleCoin 9)], toRemove = [], changed = None\<rparr>"

definition restampDiff :: mutableUTXODiff where
  "restampDiff = \<lparr>toAdd = [(exampleOutpoint, exampleCoin 9)], toRemove = [(exampleOutpoint, exampleCoin 5)], changed = None\<rparr>"

lemma example_diffs [simp]: "wfDiff spendDiff" "wfDiff createDiff" "wfDiff restampDiff"
  by (simp_all add: spendDiff_def createDiff_def restampDiff_def wfDiff_def wfColl_def)

lemma example_slots:
  "slotOf spendDiff k = (if k = exampleOutpoint then (None, Some (exampleCoin 5)) else (None, None))"
  "slotOf createDiff k = (if k = exampleOutpoint then (Some (exampleCoin 9), None) else (None, None))"
  "slotOf restampDiff k = (if k = exampleOutpoint then (Some (exampleCoin 9), Some (exampleCoin 5)) else (None, None))"
  by (simp_all add: slotOf_def Get_def spendDiff_def createDiff_def restampDiff_def)

lemma example_scores [simp]: "ueBlockDAAScore (exampleCoin s) = s"
  by (simp add: exampleCoin_def NewUTXOEntry_def)

abbreviation exampleSet :: utxoSet where
  "exampleSet \<equiv> [exampleOutpoint \<mapsto> exampleCoin 5]"

lemma example_valid:
  "validOn exampleSet spendDiff" "validOn exampleSet restampDiff" "validOn (applyDiff spendDiff exampleSet) createDiff"
  "oneEntryPerScore exampleSet spendDiff createDiff" "oneEntryPerScore exampleSet spendDiff restampDiff"
  by (auto simp: validOn_def validSlot_def applyDiff_def applySlot_def example_slots oneEntryPerScore_def oneEntry_def)

theorem withDiff_composes_witness:
  "\<exists>d. withDiff spendDiff createDiff = Inr d \<and> applyDiff d exampleSet exampleOutpoint = Some (exampleCoin 9)"
proof -
  have "applyDiff createDiff (applyDiff spendDiff exampleSet) exampleOutpoint = Some (exampleCoin 9)"
    by (simp add: applyDiff_def applySlot_def example_slots)
  with withDiff_composes [OF example_diffs(1,2) example_valid(1,3,4)] show ?thesis by auto
qed

theorem diffFrom_leads_over_witness:
  "\<exists>d c. diffFrom spendDiff restampDiff = Inr d \<and> withDiff spendDiff d = Inr c \<and> slotOf c = slotOf restampDiff"
  using diffFrom_leads_over [OF example_diffs(1,3) example_valid(1,2,5)] by blast

text \<open>The same two entries in two orders.\<close>

definition twoEntries :: "bool \<Rightarrow> mutableUTXODiff" where
  "twoEntries flipped =
     (let x = (exampleOutpoint, exampleCoin 5); y = (exampleOutpoint\<lparr>outIndex := 1\<rparr>, exampleCoin 6)
      in \<lparr>toAdd = [], toRemove = (if flipped then [y, x] else [x, y]), changed = None\<rparr>)"

theorem diff_order_irrelevant_witness:
  "sameOutcome (diffFrom (twoEntries False) createDiff) (diffFrom (twoEntries True) createDiff)"
proof -
  have "wfDiff (twoEntries b)" for b
    by (cases b) (simp_all add: twoEntries_def wfDiff_def wfColl_def exampleOutpoint_def)
  moreover have "slotOf (twoEntries False) = slotOf (twoEntries True)"
    by (auto simp: fun_eq_iff slotOf_def Get_def twoEntries_def exampleOutpoint_def)
  ultimately show ?thesis
    using diff_order_irrelevant [of "twoEntries False" createDiff "twoEntries True" createDiff] by simp
qed

end
