(* ===== verification/Utxo_Tx.thy ===== *)
theory Utxo_Tx
  imports Utxo_Algebra
begin

text \<open>
  Transactions applied to a UTXO diff: they are applied as a whole or not at all, and the set the diff leads to loses the
  inputs and gains the outputs. The changes a diff records suffice to compute its difference from the diff it was cloned
  from, and no operation ever makes a diff remove and add entries with the same DAA score.
\<close>

section \<open>One entry\<close>

fun addEntrySlot :: "slot \<Rightarrow> UTXOEntry \<Rightarrow> slot option" where
  "addEntrySlot (a, r) e =
     (if stamped r e then (if \<forall>x. r = Some x \<longrightarrow> sameCoin x e then Some (a, None) else Some (Some e, None))
      else case a of
        None \<Rightarrow> Some (Some e, r)
      | Some x \<Rightarrow> if sameCoin x e then Some (Some e, r) else None)"

fun removeEntrySlot :: "slot \<Rightarrow> UTXOEntry \<Rightarrow> slot option" where
  "removeEntrySlot (a, r) e =
     (if stamped a e then (if \<forall>x. a = Some x \<longrightarrow> sameCoin x e then Some (None, r) else Some (None, Some e))
      else if r \<noteq> None then None else Some (a, Some e))"

lemma sameCoin_stamped: "sameCoin x e \<Longrightarrow> ueBlockDAAScore x = ueBlockDAAScore e \<Longrightarrow> x = e"
  by (simp add: sameCoin_def UTXOEntry.equality)

text \<open>A step that acts on the slot of \<open>k\<close> only and records it.\<close>

definition actsOn :: "DomainOutpoint \<Rightarrow> slot option \<Rightarrow> mutableUTXODiff \<Rightarrow> (UTXOError, unit) result \<times> mutableUTXODiff \<Rightarrow> bool" where
  "actsOn k s d run \<longleftrightarrow>
     (case run of (res, d') \<Rightarrow>
        wfDiff d' \<and> changed d' = map_option (List.insert k) (changed d) \<and>
        (case s of
           Some s' \<Rightarrow> res = Inr () \<and> slotOf d' = (slotOf d)(k := s')
         | None \<Rightarrow> (\<exists>e. res = Inl (Error e)) \<and> slotOf d' = slotOf d))"

lemma recordChange_changed [simp]: "changed (recordChange k d) = map_option (List.insert k) (changed d)"
  by (simp add: recordChange_def split: option.split)

lemma slotOf_recordChange [simp]: "slotOf (recordChange k d) = slotOf d"
  by (simp add: slotOf_def fun_eq_iff)

lemma addEntry_acts:
  assumes "wfDiff d"
  shows "actsOn k (addEntrySlot (slotOf d k) e) d (addEntry k e d)"
proof -
  let ?d = "recordChange k d"
  have wf: "wfColl (toAdd d)" "wfColl (toRemove d)" using assms by (simp_all add: wfDiff_def)
  show ?thesis
  proof (cases "stamped (Get (toRemove d) k) e")
    case True
    then obtain x where "Get (toRemove d) k = Some x" "ueBlockDAAScore x = ueBlockDAAScore e"
      by (cases "Get (toRemove d) k") simp_all
    with wf show ?thesis
      by (cases "sameCoin x e")
        (auto simp: actsOn_def addEntry_def andThen_def bnd_def modify_def gets_def contains_stamped slotOf_def wfDiff_def fun_eq_iff)
  next
    case False
    with wf show ?thesis
      by (cases "Get (toAdd d) k")
        (auto simp: actsOn_def addEntry_def andThen_def bnd_def modify_def gets_def ret_def raise_def contains_stamped slotOf_def
          wfDiff_def sameDAAScore_def fun_eq_iff dest: sameCoin_stamped)
  qed
qed

lemma removeEntry_acts:
  assumes "wfDiff d"
  shows "actsOn k (removeEntrySlot (slotOf d k) e) d (removeEntry k (Some e) d)"
proof -
  have wf: "wfColl (toAdd d)" "wfColl (toRemove d)" using assms by (simp_all add: wfDiff_def)
  show ?thesis
  proof (cases "stamped (Get (toAdd d) k) e")
    case True
    then obtain x where "Get (toAdd d) k = Some x" "ueBlockDAAScore x = ueBlockDAAScore e"
      by (cases "Get (toAdd d) k") simp_all
    with wf show ?thesis
      by (cases "sameCoin x e")
        (auto simp: actsOn_def removeEntry_def andThen_def bnd_def modify_def gets_def contains_stamped slotOf_def wfDiff_def fun_eq_iff)
  next
    case False
    with wf show ?thesis
      by (cases "Get (toRemove d) k")
        (auto simp: actsOn_def removeEntry_def andThen_def bnd_def modify_def gets_def raise_def contains_stamped slotOf_def
          wfDiff_def Contains_def fun_eq_iff)
  qed
qed

lemma removeEntry_None: "removeEntry k None d = (Inl GoPanic, recordChange k d)"
  by (simp add: removeEntry_def andThen_def bnd_def modify_def gets_def panic_def)

section \<open>Rolling back\<close>

lemma restore_slot: "slotOf (restore u d) = (slotOf d)(undoOutpoint u := (toAddEntry u, toRemoveEntry u))"
  by (auto simp: restore_def Let_def slotOf_def fun_eq_iff split: option.split)

lemma restore_wf: "wfDiff d \<Longrightarrow> wfDiff (restore u d)"
  by (auto simp: restore_def Let_def wfDiff_def split: option.split)

lemma rollback_snoc: "rollback (undoLog @ [u]) d = rollback undoLog (restore u d)"
  by (simp add: rollback_def)

lemma rollback_slot_cong: "slotOf d = slotOf d' \<Longrightarrow> slotOf (rollback undoLog d) = slotOf (rollback undoLog d')"
proof (induction undoLog arbitrary: d d' rule: rev_induct)
  case (snoc u undoLog)
  then show ?case by (simp add: rollback_snoc restore_slot)
qed (simp add: rollback_def)

lemma rollback_wf: "wfDiff d \<Longrightarrow> wfDiff (rollback undoLog d)"
proof (induction undoLog arbitrary: d rule: rev_induct)
  case (snoc u undoLog)
  then show ?case by (simp add: rollback_snoc restore_wf)
qed (simp add: rollback_def)

lemma snapshot_restores:
  assumes "slotOf d' = (slotOf d)(k := s)"
  shows "slotOf (rollback (undoLog @ [snapshot k d]) d') = slotOf (rollback undoLog d)"
proof -
  have "slotOf (restore (snapshot k d) d') = slotOf d"
    using assms by (auto simp: restore_slot snapshot_def slotOf_def fun_eq_iff)
  then show ?thesis unfolding rollback_snoc by (rule rollback_slot_cong)
qed

section \<open>Recorded changes\<close>

text \<open>Whatever is not recorded is as before.\<close>

definition tracks :: "mutableUTXODiff \<Rightarrow> mutableUTXODiff \<Rightarrow> bool" where
  "tracks d d' \<longleftrightarrow>
     (case changed d of
        None \<Rightarrow> changed d' = None
      | Some c \<Rightarrow> (case changed d' of
          None \<Rightarrow> False
        | Some c' \<Rightarrow> set c \<subseteq> set c' \<and> (\<forall>k. k \<notin> set c' \<longrightarrow> slotOf d' k = slotOf d k)))"

lemma tracks_refl: "tracks d d"
  by (simp add: tracks_def split: option.split)

lemma tracks_trans: "tracks d d' \<Longrightarrow> tracks d' d'' \<Longrightarrow> tracks d d''"
  by (fastforce simp: tracks_def split: option.splits)

lemma tracks_restore: "tracks d (restore u d)"
proof -
  have "changed (restore u d) = map_option (List.insert (undoOutpoint u)) (changed d)"
    by (simp add: restore_def Let_def split: option.split)
  then show ?thesis by (auto simp: tracks_def restore_slot split: option.split)
qed

lemma tracks_rollback: "tracks d (rollback undoLog d)"
proof (induction undoLog arbitrary: d rule: rev_induct)
  case (snoc u undoLog)
  then show ?case unfolding rollback_snoc by (blast intro: tracks_trans tracks_restore)
qed (simp add: rollback_def tracks_refl)

lemma tracks_acts: "actsOn k s d (r, d') \<Longrightarrow> tracks d d'"
  by (auto simp: actsOn_def tracks_def split: option.splits)

lemma tracks_recordChange: "tracks d (recordChange k d)"
  by (auto simp: tracks_def split: option.split)

section \<open>Normal diffs\<close>

definition normalSlot :: "slot \<Rightarrow> bool" where
  "normalSlot s \<longleftrightarrow> (\<forall>a r. s = (Some a, Some r) \<longrightarrow> ueBlockDAAScore a \<noteq> ueBlockDAAScore r)"

definition normalDiff :: "mutableUTXODiff \<Rightarrow> bool" where
  "normalDiff d \<longleftrightarrow> (\<forall>k. normalSlot (slotOf d k))"

lemma normal_entrySlots:
  "normalSlot s \<Longrightarrow> addEntrySlot s e = Some s' \<Longrightarrow> normalSlot s'"
  "normalSlot s \<Longrightarrow> removeEntrySlot s e = Some s' \<Longrightarrow> normalSlot s'"
  by (cases s; auto simp: normalSlot_def split: if_splits option.splits)+

lemma normal_acts:
  assumes "actsOn k s d (r, d')" and "normalDiff d" and "\<And>s'. s = Some s' \<Longrightarrow> normalSlot s'"
  shows "normalDiff d'"
  using assms by (auto simp: actsOn_def normalDiff_def split: option.splits)

lemma normal_cong: "slotOf d = slotOf d' \<Longrightarrow> normalDiff d = normalDiff d'"
  by (simp add: normalDiff_def)

section \<open>A transaction\<close>

text \<open>
  What a part of a transaction keeps, given the undo log it starts with: if it succeeds, rolling back its log undoes
  it, and if it fails, it has been undone together with everything before it.
\<close>

definition undoable ::
  "utxoDiffUndoEntry list \<Rightarrow> mutableUTXODiff \<Rightarrow> (UTXOError, utxoDiffUndoEntry list) result \<times> mutableUTXODiff \<Rightarrow> bool" where
  "undoable undoLog d run \<longleftrightarrow>
     (case run of (r, d') \<Rightarrow>
        wfDiff d' \<and> tracks d d' \<and>
        (case r of
           Inr undoLog' \<Rightarrow> slotOf (rollback undoLog' d') = slotOf (rollback undoLog d) \<and> (normalDiff d \<longrightarrow> normalDiff d')
         | Inl (Error _) \<Rightarrow> slotOf d' = slotOf (rollback undoLog d)
         | Inl GoPanic \<Rightarrow> (normalDiff d \<longrightarrow> normalDiff d')))"

text \<open>One step: snapshot, act, roll back on error.\<close>

lemma step_undoable:
  assumes "wfDiff d" and acts: "actsOn k s d (m d)" and normal: "\<And>s'. normalDiff d \<Longrightarrow> s = Some s' \<Longrightarrow> normalSlot s'"
  shows "case orRollback (undoLog @ [snapshot k d]) m d of
    (Inl f, d') \<Rightarrow> undoable undoLog d (Inl f, d')
  | (Inr _, d') \<Rightarrow> undoable undoLog d (Inr (undoLog @ [snapshot k d]), d')"
proof -
  obtain r d1 where run: "m d = (r, d1)" by (cases "m d")
  note acts = acts [unfolded run]
  show ?thesis
  proof (cases s)
    case None
    with acts obtain e where r: "r = Inl (Error e)" "slotOf d1 = slotOf d" "wfDiff d1" by (auto simp: actsOn_def)
    then have "slotOf d1 = (slotOf d)(k := slotOf d k)" by simp
    from snapshot_restores [OF this] r run tracks_acts [OF acts] show ?thesis
      by (auto simp: orRollback_def undoable_def rollback_wf intro: tracks_trans tracks_rollback)
  next
    case (Some s')
    with acts have r: "r = Inr ()" "slotOf d1 = (slotOf d)(k := s')" "wfDiff d1" by (auto simp: actsOn_def)
    with run snapshot_restores [OF r(2)] tracks_acts [OF acts] normal_acts [OF acts] normal Some show ?thesis
      by (simp add: orRollback_def undoable_def)
  qed
qed

lemma undoable_trans:
  assumes "undoable undoLog d (Inr undoLog1, d1)" and "undoable undoLog1 d1 run"
  shows "undoable undoLog d run"
  using assms by (auto simp: undoable_def intro: tracks_trans split: sum.splits fail.splits prod.splits)

lemma addEntry_step:
  assumes "wfDiff d" and "orRollback (undoLog @ [snapshot k d]) (addEntry k e) d = (r, d1)"
  shows "case r of Inl f \<Rightarrow> undoable undoLog d (Inl f, d1) | Inr _ \<Rightarrow> undoable undoLog d (Inr (undoLog @ [snapshot k d]), d1)"
proof -
  have "normalSlot s'" if "normalDiff d" "addEntrySlot (slotOf d k) e = Some s'" for s'
    using that normal_entrySlots(1) [of "slotOf d k" e s'] by (simp add: normalDiff_def)
  from step_undoable [where m = "addEntry k e", OF assms(1) addEntry_acts [OF assms(1)] this, of undoLog] assms(2)
  show ?thesis by (simp split: sum.split)
qed

lemma removeEntry_step:
  assumes "wfDiff d" and "orRollback (undoLog @ [snapshot k d]) (removeEntry k (Some e)) d = (r, d1)"
  shows "case r of Inl f \<Rightarrow> undoable undoLog d (Inl f, d1) | Inr _ \<Rightarrow> undoable undoLog d (Inr (undoLog @ [snapshot k d]), d1)"
proof -
  have "normalSlot s'" if "normalDiff d" "removeEntrySlot (slotOf d k) e = Some s'" for s'
    using that normal_entrySlots(2) [of "slotOf d k" e s'] by (simp add: normalDiff_def)
  from step_undoable [where m = "removeEntry k (Some e)", OF assms(1) removeEntry_acts [OF assms(1)] this, of undoLog] assms(2)
  show ?thesis by (simp split: sum.split)
qed

lemma removeInputs_undoable: "wfDiff d \<Longrightarrow> undoable undoLog d (removeInputs skip ins undoLog d)"
proof (induction ins arbitrary: d undoLog)
  case Nil
  then show ?case by (simp add: ret_def undoable_def tracks_refl)
next
  case (Cons i ins)
  let ?k = "PreviousOutpoint i" and ?log = "undoLog @ [snapshot (PreviousOutpoint i) d]"
  show ?case
  proof (cases "utxoEntry i")
    case None
    show ?thesis
    proof (cases skip)
      case True
      with None Cons show ?thesis by simp
    next
      case False
      with None have "removeInputs skip (i # ins) undoLog d = (Inl GoPanic, recordChange ?k d)"
        by (simp add: bnd_def gets_def andThen_def orRollback_def removeEntry_None)
      with Cons.prems show ?thesis
        by (auto simp: undoable_def tracks_recordChange wfDiff_def intro: normal_cong [THEN iffD1, rotated])
    qed
  next
    case (Some e)
    obtain r d1 where run: "orRollback ?log (removeEntry ?k (Some e)) d = (r, d1)"
      by (cases "orRollback ?log (removeEntry ?k (Some e)) d")
    have step: "case r of Inl f \<Rightarrow> undoable undoLog d (Inl f, d1) | Inr _ \<Rightarrow> undoable undoLog d (Inr ?log, d1)"
      by (rule removeEntry_step [OF Cons.prems run])
    show ?thesis
    proof (cases r)
      case (Inl f)
      with step run Some show ?thesis by (simp add: bnd_def gets_def andThen_def)
    next
      case (Inr u)
      with step have one: "undoable undoLog d (Inr ?log, d1)" by simp
      then have "wfDiff d1" by (simp add: undoable_def)
      from undoable_trans [OF one Cons.IH [OF this]] run Inr Some show ?thesis by (simp add: bnd_def gets_def andThen_def)
    qed
  qed
qed

text \<open>The outputs come last, so their log is not returned.\<close>

definition finishes :: "utxoDiffUndoEntry list \<Rightarrow> mutableUTXODiff \<Rightarrow> (UTXOError, unit) result \<times> mutableUTXODiff \<Rightarrow> bool" where
  "finishes undoLog d run \<longleftrightarrow>
     (case run of
        (Inl f, d') \<Rightarrow> undoable undoLog d (Inl f, d')
      | (Inr _, d') \<Rightarrow> wfDiff d' \<and> tracks d d' \<and> (normalDiff d \<longrightarrow> normalDiff d'))"

lemma finishes_trans:
  assumes "undoable undoLog d (Inr undoLog1, d1)" and "finishes undoLog1 d1 run"
  shows "finishes undoLog d run"
proof -
  obtain r d2 where run: "run = (r, d2)" by (cases run)
  show ?thesis
  proof (cases r)
    case (Inl f)
    with assms(2) run have "undoable undoLog1 d1 (Inl f, d2)" by (simp add: finishes_def)
    from undoable_trans [OF assms(1) this] run Inl show ?thesis by (simp add: finishes_def)
  next
    case (Inr u)
    with assms run show ?thesis by (auto simp: finishes_def undoable_def intro: tracks_trans)
  qed
qed

lemma addOutputs_finishes: "wfDiff d \<Longrightarrow> finishes undoLog d (addOutputs txID coinbase score i outs undoLog d)"
proof (induction outs arbitrary: d undoLog i)
  case Nil
  then show ?case by (simp add: ret_def finishes_def tracks_refl)
next
  case (Cons out outs)
  let ?k = "\<lparr>TransactionID = txID, outIndex = word_of_nat i\<rparr>"
  let ?e = "NewUTXOEntry (outValue out) (outScriptPublicKey out) coinbase score"
  let ?log = "undoLog @ [snapshot ?k d]"
  show ?case
  proof (cases "i > 4294967295")
    case True
    with Cons.prems show ?thesis
      by (simp add: orRollback_def raise_def finishes_def undoable_def rollback_wf tracks_rollback)
  next
    case False
    obtain r d1 where run: "orRollback ?log (addEntry ?k ?e) d = (r, d1)"
      by (cases "orRollback ?log (addEntry ?k ?e) d")
    have step: "case r of Inl f \<Rightarrow> undoable undoLog d (Inl f, d1) | Inr _ \<Rightarrow> undoable undoLog d (Inr ?log, d1)"
      by (rule addEntry_step [OF Cons.prems run])
    show ?thesis
    proof (cases r)
      case (Inl f)
      with step run False show ?thesis by (simp add: bnd_def gets_def andThen_def Let_def finishes_def)
    next
      case (Inr u)
      with step have one: "undoable undoLog d (Inr ?log, d1)" by simp
      then have "wfDiff d1" by (simp add: undoable_def)
      from finishes_trans [OF one Cons.IH [OF this]] run Inr False show ?thesis
        by (simp add: bnd_def gets_def andThen_def Let_def)
    qed
  qed
qed

lemma addTransaction_finishes:
  assumes "wfDiff d"
  shows "finishes [] d (addTransaction blake3 tx score skip d)"
proof -
  obtain r d1 where run: "removeInputs skip (Inputs tx) [] d = (r, d1)" by (cases "removeInputs skip (Inputs tx) [] d")
  with removeInputs_undoable [OF assms, of "[]" skip "Inputs tx"] have one: "undoable [] d (r, d1)" by simp
  show ?thesis
  proof (cases r)
    case (Inl f)
    with run one show ?thesis by (simp add: addTransaction_def bnd_def finishes_def)
  next
    case (Inr undoLog)
    with one have one: "undoable [] d (Inr undoLog, d1)" by simp
    then have "wfDiff d1" by (simp add: undoable_def)
    from finishes_trans [OF one addOutputs_finishes [OF this]] run Inr show ?thesis by (simp add: addTransaction_def bnd_def)
  qed
qed

text \<open>What holds of a transaction on every outcome.\<close>

lemma addTransaction_outcome:
  assumes "wfDiff d" and "addTransaction blake3 tx score skip d = (r, d')"
  shows "wfDiff d'" and "tracks d d'" and "normalDiff d \<Longrightarrow> normalDiff d'" and "r = Inl (Error e) \<Longrightarrow> slotOf d' = slotOf d"
proof -
  have fin: "finishes [] d (r, d')" using addTransaction_finishes [OF assms(1), of blake3 tx score skip] assms(2) by simp
  then show "wfDiff d'" "tracks d d'" "r = Inl (Error e) \<Longrightarrow> slotOf d' = slotOf d"
    by (auto simp: finishes_def undoable_def rollback_def split: sum.splits fail.splits)
  show "normalDiff d'" if "normalDiff d"
    using fin that normal_cong [of d' d]
    by (auto simp: finishes_def undoable_def rollback_def split: sum.splits fail.splits)
qed

section \<open>What a transaction does to a UTXO set\<close>

definition spendInputs :: "DomainTransactionInput list \<Rightarrow> utxoSet \<Rightarrow> utxoSet" where
  "spendInputs ins S k = (if k \<in> PreviousOutpoint ` set ins then None else S k)"

definition outputOutpoint :: "DomainTransactionID \<Rightarrow> nat \<Rightarrow> DomainOutpoint" where
  "outputOutpoint txID i = \<lparr>TransactionID = txID, outIndex = word_of_nat i\<rparr>"

definition outputEntry :: "bool \<Rightarrow> 64 word \<Rightarrow> DomainTransactionOutput \<Rightarrow> UTXOEntry" where
  "outputEntry coinbase score out = NewUTXOEntry (outValue out) (outScriptPublicKey out) coinbase score"

fun createOutputs ::
  "DomainTransactionID \<Rightarrow> bool \<Rightarrow> 64 word \<Rightarrow> nat \<Rightarrow> DomainTransactionOutput list \<Rightarrow> utxoSet \<Rightarrow> utxoSet" where
  "createOutputs txID coinbase score i [] S = S"
| "createOutputs txID coinbase score i (out # outs) S =
     createOutputs txID coinbase score (i + 1) outs (S(outputOutpoint txID i \<mapsto> outputEntry coinbase score out))"

lemma removeEntrySlot_valid:
  assumes "validSlot b s" and "applySlot s b = Some e"
  shows "\<exists>s'. removeEntrySlot s e = Some s' \<and> validSlot b s' \<and> applySlot s' b = None"
proof -
  obtain a r where s: "s = (a, r)" by (cases s)
  show ?thesis
    using assms unfolding s
    by (cases a; cases r; cases b) (auto simp: validSlot_def applySlot_def sameCoin_def)
qed

lemma addEntrySlot_valid:
  assumes "validSlot b s" and "applySlot s b = None" and "\<And>r. b = Some r \<Longrightarrow> sameCoin r e"
  shows "\<exists>s'. addEntrySlot s e = Some s' \<and> validSlot b s' \<and> applySlot s' b = Some e"
proof -
  obtain a r where s: "s = (a, r)" by (cases s)
  show ?thesis
    using assms unfolding s
    by (cases a; cases r; cases b) (auto simp: validSlot_def applySlot_def dest: sameCoin_stamped)
qed

lemma acts_valid:
  assumes "actsOn k (Some s') d (r, d')" and "validOn base d" and "validSlot (base k) s'"
  shows "r = Inr ()" and "wfDiff d'" and "validOn base d'" and "applyDiff d' base = (applyDiff d base)(k := applySlot s' (base k))"
  using assms by (auto simp: actsOn_def validOn_def applyDiff_def fun_eq_iff)

lemma removeInputs_applies:
  assumes "wfDiff d" "validOn base d" and "distinct (map PreviousOutpoint ins)"
    and "\<And>i. i \<in> set ins \<Longrightarrow> utxoEntry i \<noteq> None \<and> applyDiff d base (PreviousOutpoint i) = utxoEntry i"
  shows "\<exists>undoLog' d'. removeInputs skip ins undoLog d = (Inr undoLog', d') \<and> wfDiff d' \<and> validOn base d' \<and>
    applyDiff d' base = spendInputs ins (applyDiff d base)"
  using assms
proof (induction ins arbitrary: d undoLog)
  case Nil
  then show ?case by (simp add: ret_def spendInputs_def)
next
  case (Cons i ins)
  let ?k = "PreviousOutpoint i" and ?log = "undoLog @ [snapshot (PreviousOutpoint i) d]"
  from Cons.prems(4) [of i] obtain e where e: "utxoEntry i = Some e" "applySlot (slotOf d ?k) (base ?k) = Some e"
    by (auto simp: applyDiff_def)
  from Cons.prems(2) have "validSlot (base ?k) (slotOf d ?k)" by (simp add: validOn_def)
  from removeEntrySlot_valid [OF this e(2)] obtain s' where
    s': "removeEntrySlot (slotOf d ?k) e = Some s'" "validSlot (base ?k) s'" "applySlot s' (base ?k) = None" by blast
  obtain r d1 where run: "removeEntry ?k (Some e) d = (r, d1)" by (cases "removeEntry ?k (Some e) d")
  from removeEntry_acts [OF Cons.prems(1), of ?k e] s'(1) run have "actsOn ?k (Some s') d (r, d1)" by simp
  note one = acts_valid [OF this Cons.prems(2) s'(2)]
  have "\<exists>undoLog' d'. removeInputs skip ins ?log d1 = (Inr undoLog', d') \<and> wfDiff d' \<and> validOn base d' \<and>
      applyDiff d' base = spendInputs ins (applyDiff d1 base)"
  proof (rule Cons.IH [OF one(2,3)])
    fix j assume j: "j \<in> set ins"
    with Cons.prems(3) have "PreviousOutpoint j \<noteq> ?k" by (metis distinct.simps(2) image_eqI list.map(2) set_map)
    with j Cons.prems(4) [of j] one(4) show "utxoEntry j \<noteq> None \<and> applyDiff d1 base (PreviousOutpoint j) = utxoEntry j" by simp
  qed (use Cons.prems(3) in simp)
  moreover have "removeInputs skip (i # ins) undoLog d = removeInputs skip ins ?log d1"
    using e(1) run one(1) by (simp add: bnd_def gets_def andThen_def orRollback_def)
  moreover have "spendInputs ins (applyDiff d1 base) = spendInputs (i # ins) (applyDiff d base)"
    using one(4) s'(3) by (auto simp: spendInputs_def fun_eq_iff)
  ultimately show ?case by simp
qed

lemma outputOutpoint_inj: "i < 2 ^ 32 \<Longrightarrow> j < 2 ^ 32 \<Longrightarrow> outputOutpoint txID i = outputOutpoint txID j \<longleftrightarrow> i = j"
  by (simp add: outputOutpoint_def word_of_nat_eq_iff take_bit_nat_eq_self)

lemma addOutputs_applies:
  assumes "wfDiff d" "validOn base d" and "i + length outs \<le> 2 ^ 32"
    and "\<And>j. j < length outs \<Longrightarrow> applyDiff d base (outputOutpoint txID (i + j)) = None \<and>
      (\<forall>r. base (outputOutpoint txID (i + j)) = Some r \<longrightarrow> sameCoin r (outputEntry coinbase score (outs ! j)))"
  shows "\<exists>d'. addOutputs txID coinbase score i outs undoLog d = (Inr (), d') \<and> wfDiff d' \<and> validOn base d' \<and>
    applyDiff d' base = createOutputs txID coinbase score i outs (applyDiff d base)"
  using assms
proof (induction outs arbitrary: d i undoLog)
  case Nil
  then show ?case by (simp add: ret_def)
next
  case (Cons out outs)
  let ?k = "outputOutpoint txID i" and ?e = "outputEntry coinbase score out"
  let ?log = "undoLog @ [snapshot (outputOutpoint txID i) d]"
  have "validSlot (base ?k) (slotOf d ?k)" using Cons.prems(2) by (simp add: validOn_def)
  moreover have "applySlot (slotOf d ?k) (base ?k) = None" using Cons.prems(4) [of 0] by (simp add: applyDiff_def)
  moreover have "sameCoin r ?e" if "base ?k = Some r" for r using Cons.prems(4) [of 0] that by simp
  ultimately obtain s' where
    s': "addEntrySlot (slotOf d ?k) ?e = Some s'" "validSlot (base ?k) s'" "applySlot s' (base ?k) = Some ?e"
    using addEntrySlot_valid [of "base ?k" "slotOf d ?k" ?e] by blast
  obtain r d1 where run: "addEntry ?k ?e d = (r, d1)" by (cases "addEntry ?k ?e d")
  from addEntry_acts [OF Cons.prems(1), of ?k ?e] s'(1) run have "actsOn ?k (Some s') d (r, d1)" by simp
  note one = acts_valid [OF this Cons.prems(2) s'(2)]
  have i: "i < 2 ^ 32" "i + 1 + length outs \<le> 2 ^ 32" using Cons.prems(3) by simp_all
  have "\<exists>d'. addOutputs txID coinbase score (i + 1) outs ?log d1 = (Inr (), d') \<and> wfDiff d' \<and> validOn base d' \<and>
      applyDiff d' base = createOutputs txID coinbase score (i + 1) outs (applyDiff d1 base)"
  proof (rule Cons.IH [OF one(2,3) i(2)])
    fix j assume j: "j < length outs"
    with i have "outputOutpoint txID (i + 1 + j) \<noteq> ?k" by (subst outputOutpoint_inj) simp_all
    with j Cons.prems(4) [of "j + 1"] one(4)
    show "applyDiff d1 base (outputOutpoint txID (i + 1 + j)) = None \<and>
      (\<forall>r. base (outputOutpoint txID (i + 1 + j)) = Some r \<longrightarrow> sameCoin r (outputEntry coinbase score (outs ! j)))" by simp
  qed
  moreover have "addOutputs txID coinbase score i (out # outs) undoLog d = addOutputs txID coinbase score (i + 1) outs ?log d1"
    using i run one(1)
    by (simp add: bnd_def gets_def andThen_def orRollback_def Let_def outputOutpoint_def outputEntry_def)
  ultimately show ?case using one(4) s'(3) by simp
qed

section \<open>Recorded changes\<close>

lemma recordAll_changed: "changed (recordAll uc d) = map_option (fold (\<lambda>(k, _). List.insert k) uc) (changed d)"
  unfolding recordAll_def by (induction uc arbitrary: d) (auto simp: option.map_comp comp_def option.map_id)

lemma set_fold_insert: "set (fold (\<lambda>(k, _). List.insert k) uc c) = fst ` set uc \<union> set c"
  by (induction uc arbitrary: c) auto

lemma apply_changed [simp]: "changed (applyRemovals uc d) = changed d" "changed (applyAdditions uc d) = changed d"
  by (simp_all add: applyRemovals_def applyAdditions_def split: prod.split)

lemma withDiffInPlace_changed:
  assumes "withDiffInPlace other d = (r, d')"
  shows "changed d' = changed (recordAll (toRemove other) (recordAll (toAdd other) d))"
proof -
  have "changed (snd (withDiffInPlace other d)) = changed (recordAll (toRemove other) (recordAll (toAdd other) d))"
    by (simp add: withDiffInPlace_def andThen_def bnd_def modify_def gets_def liftR_def split: sum.split)
  with assms show ?thesis by simp
qed

lemma withSlot_empty: "withSlot s (None, None) = s"
  by (simp add: withSlot_def)

lemma Get_notin: "k \<notin> fst ` set uc \<Longrightarrow> Get uc k = None"
  by (simp add: Get_def map_of_eq_None_iff)

lemma tracks_withDiffInPlace:
  assumes "wfDiff d" "wfDiff other" and run: "withDiffInPlace other d = (r, d')"
  shows "tracks d d'"
proof -
  have "slotOf d' k = slotOf d k" if "k \<notin> fst ` set (toAdd other)" "k \<notin> fst ` set (toRemove other)" for k
  proof -
    have "slotOf other k = (None, None)" using that by (simp add: slotOf_def Get_notin)
    then show ?thesis
      using withDiffInPlace_spec(2) [OF assms] withSlot_empty [of "slotOf d k"] by (metis (no_types, lifting))
  qed
  then show ?thesis
    by (auto simp: tracks_def withDiffInPlace_changed [OF run] recordAll_changed set_fold_insert split: option.split)
qed

lemma normal_withSlot: "normalSlot s \<Longrightarrow> normalSlot (withSlot s t)"
  by (cases s; cases t; cases "fst s"; cases "snd s"; cases "fst t"; cases "snd t") (auto simp: normalSlot_def withSlot_def)

lemma normal_diffSlot: "normalSlot s \<Longrightarrow> normalSlot t \<Longrightarrow> normalSlot (diffSlot s t)"
  by (cases s; cases t; cases "fst s"; cases "snd s"; cases "fst t"; cases "snd t")
    (auto simp: normalSlot_def diffSlot_def minus_def split: if_splits)

lemma diffSlot_self: "normalSlot s \<Longrightarrow> diffSlotOk s s \<and> diffSlot s s = (None, None)"
  by (cases s; cases "fst s"; cases "snd s") (auto simp: normalSlot_def diffSlot_def diffSlotOk_def minus_def)

lemma normal_withDiffInPlace:
  assumes "wfDiff d" "wfDiff other" and "withDiffInPlace other d = (r, d')" and "normalDiff d"
  shows "normalDiff d'"
  using withDiffInPlace_spec(2) [OF assms(1-3)] assms(4) normal_withSlot
  by (auto simp: normalDiff_def split: if_splits)

lemma slotOf_sel: "fst (slotOf d k) = Get (toAdd d) k" "snd (slotOf d k) = Get (toRemove d) k"
  by (simp_all add: slotOf_def)

lemma restrictToOutpoints_slot:
  "wfDiff (restrictToOutpoints d c)"
  "slotOf (restrictToOutpoints d c) k = (if k \<in> set c then slotOf d k else (None, None))"
proof -
  let ?f = "\<lambda>k x. let x1 = (case Get (toAdd d) k of None \<Rightarrow> x | Some e \<Rightarrow> x\<lparr>toAdd := collAdd k e (toAdd x)\<rparr>)
    in case Get (toRemove d) k of None \<Rightarrow> x1 | Some e \<Rightarrow> x1\<lparr>toRemove := collAdd k e (toRemove x1)\<rparr>"
  have step: "wfDiff x \<Longrightarrow> wfDiff (?f j x)"
    "slotOf (?f j x) k = (if k = j then (case Get (toAdd d) j of None \<Rightarrow> fst (slotOf x j) | e \<Rightarrow> e,
       case Get (toRemove d) j of None \<Rightarrow> snd (slotOf x j) | e \<Rightarrow> e) else slotOf x k)" for j k x
    by (auto simp: wfDiff_def slotOf_def Let_def split: option.split)
  have fold: "wfDiff (fold ?f c x)" if "wfDiff x" for x
    using that by (induction c arbitrary: x) (simp_all add: step(1) del: Let_def)
  have slots: "slotOf (fold ?f c x) k = (if k \<in> set c then (case Get (toAdd d) k of None \<Rightarrow> fst (slotOf x k) | e \<Rightarrow> e,
       case Get (toRemove d) k of None \<Rightarrow> snd (slotOf x k) | e \<Rightarrow> e) else slotOf x k)" for x
    by (induction c arbitrary: x) (auto simp: step(2) slotOf_sel split: option.split)
  have start: "wfDiff newMutableUTXODiff" "slotOf newMutableUTXODiff k = (None, None)"
    by (simp_all add: newMutableUTXODiff_def wfDiff_def wfColl_def slotOf_def Get_def)
  show "wfDiff (restrictToOutpoints d c)" using fold [OF start(1)] by (simp add: restrictToOutpoints_def)
  show "slotOf (restrictToOutpoints d c) k = (if k \<in> set c then slotOf d k else (None, None))"
    unfolding restrictToOutpoints_def slots start(2) by (auto simp: slotOf_def split: option.split)
qed

text \<open>What a caller does to a diff: it applies transactions and composes other diffs into it; whatever the outcome, it goes on
  with the diff it is left with.\<close>

datatype diffOp = ApplyTransaction DomainTransaction "64 word" bool | ApplyDiff mutableUTXODiff

fun runDiffOps :: "blake3 \<Rightarrow> diffOp list \<Rightarrow> mutableUTXODiff \<Rightarrow> mutableUTXODiff" where
  "runDiffOps b3 [] d = d"
| "runDiffOps b3 (ApplyTransaction tx score skip # ops) d = runDiffOps b3 ops (snd (addTransaction b3 tx score skip d))"
| "runDiffOps b3 (ApplyDiff other # ops) d = runDiffOps b3 ops (snd (withDiffInPlace other d))"

fun wfOp :: "diffOp \<Rightarrow> bool" where
  "wfOp (ApplyTransaction tx score skip) = True"
| "wfOp (ApplyDiff other) = wfDiff other"

lemma runDiffOps_outcome:
  assumes "wfDiff d" "normalDiff d" "list_all wfOp ops"
  shows "wfDiff (runDiffOps b3 ops d) \<and> normalDiff (runDiffOps b3 ops d) \<and> tracks d (runDiffOps b3 ops d)"
  using assms
proof (induction b3 ops d rule: runDiffOps.induct)
  case (1 b3 d)
  then show ?case by (simp add: tracks_refl)
next
  case (2 b3 tx score skip ops d)
  from addTransaction_outcome [OF 2(2) surjective_pairing, of b3 tx score skip] 2 show ?case by (auto intro: tracks_trans)
next
  case (3 b3 other ops d)
  from 3(4) have other: "wfDiff other" by simp
  from withDiffInPlace_spec(1) [OF 3(2) other surjective_pairing] tracks_withDiffInPlace [OF 3(2) other surjective_pairing]
    normal_withDiffInPlace [OF 3(2) other surjective_pairing 3(3)] 3
  show ?case by (auto intro: tracks_trans)
qed

lemma recording_clone:
  "wfDiff (CloneMutableRecordingChanges d) = wfDiff d" "slotOf (CloneMutableRecordingChanges d) = slotOf d"
  "changed (CloneMutableRecordingChanges d) = Some []" "normalDiff (CloneMutableRecordingChanges d) = normalDiff d"
proof -
  show "slotOf (CloneMutableRecordingChanges d) = slotOf d"
    by (simp add: CloneMutableRecordingChanges_def cloneDiff_def slotOf_def fun_eq_iff)
  then show "normalDiff (CloneMutableRecordingChanges d) = normalDiff d" by (rule normal_cong)
qed (simp_all add: CloneMutableRecordingChanges_def cloneDiff_def wfDiff_def)

text \<open>Restricting two diffs to a set of outpoints outside which they agree keeps their difference.\<close>

lemma restrict_diffSlots:
  assumes "\<And>k. k \<notin> set c \<Longrightarrow> slotOf d' k = slotOf d k" and "normalDiff d"
  defines "rd \<equiv> restrictToOutpoints d c" and "rd' \<equiv> restrictToOutpoints d' c"
  shows "diffSlotOk (slotOf rd k) (slotOf rd' k) = diffSlotOk (slotOf d k) (slotOf d' k)"
    and "diffSlot (slotOf rd k) (slotOf rd' k) = diffSlot (slotOf d k) (slotOf d' k)"
proof -
  have "diffSlotOk (None, None) (None, None) \<and> diffSlot (None, None) (None, None) = (None, None)"
    by (rule diffSlot_self) (simp add: normalSlot_def)
  moreover have "diffSlotOk (slotOf d k) (slotOf d k) \<and> diffSlot (slotOf d k) (slotOf d k) = (None, None)"
    using assms(2) by (intro diffSlot_self) (simp add: normalDiff_def)
  ultimately show "diffSlotOk (slotOf rd k) (slotOf rd' k) = diffSlotOk (slotOf d k) (slotOf d' k)"
    and "diffSlot (slotOf rd k) (slotOf rd' k) = diffSlot (slotOf d k) (slotOf d' k)"
    using assms(1) [of k] by (simp_all add: rd_def rd'_def restrictToOutpoints_slot)
qed

lemma DiffFromChanged_outcome:
  assumes "wfDiff d" "wfDiff d'" "normalDiff d" and "changed d' = Some c" and "\<And>k. k \<notin> set c \<Longrightarrow> slotOf d' k = slotOf d k"
  shows "\<exists>res. DiffFromChanged d d' = Some res \<and> sameOutcome res (diffFrom d d')"
proof -
  let ?rd = "restrictToOutpoints d c" and ?rd' = "restrictToOutpoints d' c"
  have same: "diffSlotOk (slotOf ?rd k) (slotOf ?rd' k) = diffSlotOk (slotOf d k) (slotOf d' k)"
    "diffSlot (slotOf ?rd k) (slotOf ?rd' k) = diffSlot (slotOf d k) (slotOf d' k)" for k
    using restrict_diffSlots [of c d' d k] assms(3,5) by blast+
  from diffFrom_outcome [OF restrictToOutpoints_slot(1) [of d c] restrictToOutpoints_slot(1) [of d' c]]
  have "sameOutcome (diffFrom ?rd ?rd') (diffFrom d d')"
    by (intro sameOutcomeI [OF _ diffFrom_outcome [OF assms(1,2)]]) (simp only: same)
  with assms(4) show ?thesis by (simp add: DiffFromChanged_def)
qed

section \<open>Diffs the code builds\<close>

inductive builtDiff :: "blake3 \<Rightarrow> mutableUTXODiff \<Rightarrow> bool" for b3 where
  built_new: "builtDiff b3 newMutableUTXODiff"
| built_transaction: "builtDiff b3 d \<Longrightarrow> builtDiff b3 (snd (addTransaction b3 tx score skip d))"
| built_inPlace: "builtDiff b3 d \<Longrightarrow> builtDiff b3 other \<Longrightarrow> builtDiff b3 (snd (withDiffInPlace other d))"
| built_withDiff: "builtDiff b3 d \<Longrightarrow> builtDiff b3 other \<Longrightarrow> withDiff d other = Inr d' \<Longrightarrow> builtDiff b3 d'"
| built_diffFrom: "builtDiff b3 d \<Longrightarrow> builtDiff b3 other \<Longrightarrow> diffFrom d other = Inr d' \<Longrightarrow> builtDiff b3 d'"
| built_changed: "builtDiff b3 d \<Longrightarrow> builtDiff b3 other \<Longrightarrow> DiffFromChanged d other = Some (Inr d') \<Longrightarrow> builtDiff b3 d'"
| built_Reversed: "builtDiff b3 d \<Longrightarrow> builtDiff b3 (Reversed d)"
| built_clone: "builtDiff b3 d \<Longrightarrow> builtDiff b3 (cloneDiff d)"
| built_recording: "builtDiff b3 d \<Longrightarrow> builtDiff b3 (CloneMutableRecordingChanges d)"

lemma normal_new: "wfDiff newMutableUTXODiff \<and> normalDiff newMutableUTXODiff"
  by (simp add: newMutableUTXODiff_def wfDiff_def wfColl_def normalDiff_def normalSlot_def slotOf_def Get_def)

lemma normal_withDiff:
  assumes "wfDiff d \<and> normalDiff d" "wfDiff other" "withDiff d other = Inr d'"
  shows "wfDiff d' \<and> normalDiff d'"
  using withDiff_spec [of d other] assms normal_withSlot by (auto simp: normalDiff_def split: if_splits)

lemma normal_diffFrom:
  assumes "wfDiff d \<and> normalDiff d" "wfDiff other \<and> normalDiff other" "diffFrom d other = Inr d'"
  shows "wfDiff d' \<and> normalDiff d'"
  using diffFrom_spec [of d other] assms normal_diffSlot by (auto simp: normalDiff_def split: if_splits)

lemma normal_restrict: "wfDiff d \<and> normalDiff d \<Longrightarrow> wfDiff (restrictToOutpoints d c) \<and> normalDiff (restrictToOutpoints d c)"
  by (simp add: normalDiff_def normalSlot_def restrictToOutpoints_slot)

lemma normal_Reversed: "wfDiff d \<and> normalDiff d \<Longrightarrow> wfDiff (Reversed d) \<and> normalDiff (Reversed d)"
  by (auto simp: wfDiff_def Reversed_def normalDiff_def normalSlot_def slotOf_def) (metis)

lemma normal_clone: "wfDiff d \<and> normalDiff d \<Longrightarrow> wfDiff (cloneDiff d) \<and> normalDiff (cloneDiff d)"
  by (simp add: wfDiff_def cloneDiff_def normalDiff_def normalSlot_def slotOf_def)

section \<open>Properties\<close>

text \<open>C13: A transaction is applied to a diff as a whole or not at all: when \<open>AddTransaction\<close> or
  \<open>AddOutputsSpendingResolvedInputs\<close> returns an error, the diff adds and removes the entries it added and removed
  before, whatever inputs and outputs were processed first.\<close>

theorem addTransaction_atomic:
  assumes "wfDiff d" and "addTransaction blake3 tx score skip d = (Inl (Error e), d')"
  shows "wfDiff d' \<and> slotOf d' = slotOf d"
  using addTransaction_outcome(1,4) [OF assms] by simp

text \<open>C12: A transaction moves the UTXO set as it should: when the diff fits a base set, the inputs carry the entries the current
  set has at their outpoints, no outpoint is spent twice, and every output is created at an outpoint that is then
  free, then the transaction is applied without error, the diff still fits the base, and the set it leads to is the
  set before without the inputs and with the outputs, stamped with the DAA score.\<close>

theorem addTransaction_applies:
  assumes "wfDiff d" "validOn base d" and "distinct (map PreviousOutpoint (Inputs tx))" and "length (Outputs tx) \<le> 2 ^ 32"
    and "\<And>i. i \<in> set (Inputs tx) \<Longrightarrow> utxoEntry i \<noteq> None \<and> applyDiff d base (PreviousOutpoint i) = utxoEntry i"
    and "\<And>j. j < length (Outputs tx) \<Longrightarrow>
      spendInputs (Inputs tx) (applyDiff d base) (outputOutpoint (fst (computeTransactionID blake3 tx)) j) = None \<and>
      (\<forall>r. base (outputOutpoint (fst (computeTransactionID blake3 tx)) j) = Some r \<longrightarrow>
        sameCoin r (outputEntry (IsCoinBase tx) score (Outputs tx ! j)))"
  shows "\<exists>d'. addTransaction blake3 tx score skip d = (Inr (), d') \<and> wfDiff d' \<and> validOn base d' \<and>
    applyDiff d' base = createOutputs (fst (computeTransactionID blake3 tx)) (IsCoinBase tx) score 0 (Outputs tx)
      (spendInputs (Inputs tx) (applyDiff d base))"
proof -
  from removeInputs_applies [OF assms(1-3,5), of skip "[]"] obtain undoLog d1 where
    d1: "removeInputs skip (Inputs tx) [] d = (Inr undoLog, d1)" "wfDiff d1" "validOn base d1"
      "applyDiff d1 base = spendInputs (Inputs tx) (applyDiff d base)" by blast
  with addOutputs_applies [of d1 base 0 "Outputs tx" "fst (computeTransactionID blake3 tx)" "IsCoinBase tx" score undoLog]
    assms(4,6)
  show ?thesis by (simp add: addTransaction_def bnd_def)
qed

text \<open>C14: The difference computed from the recorded changes is the difference. Start from a recording clone of a diff, apply any
  transactions and diffs in any order, with any outcomes: \<open>DiffFromChanged\<close>, which looks at the recorded outpoints only,
  and \<open>diffFrom\<close>, which looks at all entries, both fail or give the same entries.\<close>

theorem diff_from_changed_agrees:
  assumes "wfDiff d" "normalDiff d" "list_all wfOp ops"
  shows "\<exists>res. DiffFromChanged d (runDiffOps b3 ops (CloneMutableRecordingChanges d)) = Some res \<and>
    sameOutcome res (diffFrom d (runDiffOps b3 ops (CloneMutableRecordingChanges d)))"
proof -
  let ?c = "CloneMutableRecordingChanges d"
  have run: "wfDiff (runDiffOps b3 ops ?c)" "tracks ?c (runDiffOps b3 ops ?c)"
    using runDiffOps_outcome [of ?c ops b3] assms by (simp_all add: recording_clone)
  from run(2) obtain c where "changed (runDiffOps b3 ops ?c) = Some c"
    "\<And>k. k \<notin> set c \<Longrightarrow> slotOf (runDiffOps b3 ops ?c) k = slotOf d k"
    by (auto simp: tracks_def recording_clone split: option.splits)
  from DiffFromChanged_outcome [OF assms(1) run(1) assms(2) this] show ?thesis .
qed

text \<open>C15: No operation makes a diff inconsistent: every diff built from the empty diff by applying transactions (whatever the
  outcome), composing, subtracting, reversing and cloning holds an outpoint at most once in each of its two
  collections, and where it both removes and adds at an outpoint the two entries have different DAA scores.\<close>

theorem built_diffs_normal:
  assumes "builtDiff b3 d"
  shows "wfDiff d \<and> normalDiff d"
  using assms
proof induction
  case built_new
  show ?case by (rule normal_new)
next
  case (built_transaction d tx score skip)
  then show ?case using addTransaction_outcome [OF _ surjective_pairing, of d b3 tx score skip] by blast
next
  case (built_inPlace d other)
  then show ?case
    using withDiffInPlace_spec(1) [OF _ _ surjective_pairing, of d other] normal_withDiffInPlace [OF _ _ surjective_pairing, of d other]
    by blast
next
  case (built_changed d other d')
  then obtain c where "diffFrom (restrictToOutpoints d c) (restrictToOutpoints other c) = Inr d'"
    by (auto simp: DiffFromChanged_def)
  from normal_diffFrom [OF normal_restrict normal_restrict this] built_changed show ?case by blast
next
  case (built_recording d)
  then show ?case by (simp add: recording_clone)
qed (metis normal_withDiff, metis normal_diffFrom, (rule normal_Reversed normal_clone; assumption)+)

text \<open>An entry added again with the DAA score of the pending removal does not win over a pending addition with another DAA
  score: the removal is cancelled, and the pending addition stays as it is, so the diff ends up with the older
  stamp and without the entry it was told to add.\<close>

theorem restamp_back_keeps_pending:
  assumes "wfDiff d" and "slotOf d k = (Some pending, Some removed)" and "sameCoin removed e"
    and "ueBlockDAAScore removed = ueBlockDAAScore e" and "ueBlockDAAScore pending \<noteq> ueBlockDAAScore e"
  shows "\<exists>d'. addEntry k e d = (Inr (), d') \<and> slotOf d' k = (Some pending, None)"
  using addEntry_acts [OF assms(1), of k e] assms(2-5) by (cases "addEntry k e d") (simp add: actsOn_def)

section \<open>Witnesses\<close>

definition spendTx :: DomainTransaction where
  "spendTx = exampleTx\<lparr>Inputs := [(hd (Inputs exampleTx))\<lparr>PreviousOutpoint := exampleOutpoint, utxoEntry := Some (exampleCoin 5)\<rparr>],
     Outputs := [\<lparr>outValue = 7, outScriptPublicKey = \<lparr>Script = [0x51], spkVersion = 0\<rparr>\<rparr>], cachedID := Some (replicate 32 7)\<rparr>"

definition doubleSpendTx :: DomainTransaction where
  "doubleSpendTx = spendTx\<lparr>Inputs := Inputs spendTx @ Inputs spendTx\<rparr>"

abbreviation noHash :: blake3 where
  "noHash \<equiv> \<lambda>_ _. []"

lemma new_diff [simp]: "wfDiff newMutableUTXODiff" "slotOf newMutableUTXODiff k = (None, None)" "normalDiff newMutableUTXODiff"
  using normal_new by (simp_all add: newMutableUTXODiff_def slotOf_def Get_def)

theorem addTransaction_atomic_witness:
  "\<exists>e d'. addTransaction noHash doubleSpendTx 9 False newMutableUTXODiff = (Inl (Error e), d') \<and> slotOf d' exampleOutpoint = (None, None)"
proof -
  have "fst (addTransaction noHash doubleSpendTx 9 False newMutableUTXODiff) = Inl (Error (RemoveTwice exampleOutpoint))" by code_simp
  then obtain d' where run: "addTransaction noHash doubleSpendTx 9 False newMutableUTXODiff = (Inl (Error (RemoveTwice exampleOutpoint)), d')"
    by (cases "addTransaction noHash doubleSpendTx 9 False newMutableUTXODiff") simp
  with addTransaction_atomic [OF new_diff(1) run] show ?thesis by simp
qed

theorem addTransaction_applies_witness:
  "\<exists>d'. addTransaction noHash spendTx 9 False newMutableUTXODiff = (Inr (), d') \<and> applyDiff d' exampleSet exampleOutpoint = None \<and>
     applyDiff d' exampleSet (outputOutpoint (replicate 32 7) 0) = Some (exampleCoin 9)"
proof -
  have id: "fst (computeTransactionID noHash spendTx) = replicate 32 7" by (simp add: computeTransactionID_def spendTx_def)
  have neq: "outputOutpoint (replicate 32 7) 0 \<noteq> exampleOutpoint" by (simp add: outputOutpoint_def exampleOutpoint_def)
  have tx: "Inputs spendTx = [(hd (Inputs exampleTx))\<lparr>PreviousOutpoint := exampleOutpoint, utxoEntry := Some (exampleCoin 5)\<rparr>]"
    "length (Outputs spendTx) = 1" by (simp_all add: spendTx_def)
  have coinbase: "\<not> IsCoinBase spendTx" by code_simp
  have base: "applyDiff newMutableUTXODiff exampleSet = exampleSet" "validOn exampleSet newMutableUTXODiff"
    by (simp_all add: applyDiff_def applySlot_def fun_eq_iff validOn_def validSlot_def)
  from addTransaction_applies [OF new_diff(1) base(2), of spendTx noHash 9 False] neq neq [symmetric]
  show ?thesis
    by (simp add: id tx base(1) spendInputs_def coinbase)
      (auto simp: spendTx_def outputEntry_def exampleCoin_def spendInputs_def)
qed

theorem diff_from_changed_agrees_witness:
  "\<exists>res. DiffFromChanged spendDiff (runDiffOps noHash [ApplyDiff createDiff] (CloneMutableRecordingChanges spendDiff)) = Some res \<and>
    sameOutcome res (diffFrom spendDiff (runDiffOps noHash [ApplyDiff createDiff] (CloneMutableRecordingChanges spendDiff)))"
  by (rule diff_from_changed_agrees) (simp_all add: normalDiff_def normalSlot_def example_slots)

theorem built_diffs_normal_witness:
  "normalDiff (Reversed (snd (addTransaction noHash spendTx 9 False newMutableUTXODiff)))"
  using built_diffs_normal [OF built_Reversed [OF built_transaction [OF built_new]]] by blast

theorem restamp_back_keeps_pending_witness:
  "\<exists>d'. addEntry exampleOutpoint (exampleCoin 5) restampDiff = (Inr (), d') \<and> slotOf d' exampleOutpoint = (Some (exampleCoin 9), None)"
  by (rule restamp_back_keeps_pending [where removed = "exampleCoin 5"]) (simp_all add: example_slots sameCoin_def)

end
