(* ===== verification/Utxo_Serial.thy ===== *)
theory Utxo_Serial
  imports Utxo_Diff
begin

text \<open>
  Entries of the UTXO set as bytes: \<^verbatim>\<open>src/domain/consensus/utils/utxo/serialization.go\<close> over the readers of
  \<^verbatim>\<open>src/domain/consensus/utils/serialization/common.go\<close> and
  \<^verbatim>\<open>src/util/binaryserializer/binaryserializer.go\<close>. These bytes are what the multiset behind a block's UTXO
  commitment holds.

  A reader is a procedure on the bytes that are left. The locale \<open>codec\<close> says what an encoder and its reader owe each
  other; every reader interprets it, and the readers of composite values follow.
\<close>

section \<open>Readers\<close>

datatype readError = EOF | UnexpectedEOF | Malformed | InvalidHashSize

type_synonym 'a reader = "(bytes, readError, 'a) proc"

text \<open>\<open>io.ReadFull\<close> into a slice of \<open>n\<close> bytes.\<close>

definition ReadFull :: "nat \<Rightarrow> bytes reader" where
  "ReadFull n r =
     (if n \<le> length r then (Inr (take n r), drop n r)
      else (Inl (Error (if r = [] then EOF else UnexpectedEOF)), []))"

definition Uint8 :: "byte reader" where
  "Uint8 = bnd (ReadFull 1) (\<lambda>buf. ret (hd buf))"

definition Uint16 :: "16 word reader" where
  "Uint16 = bnd (ReadFull 2) (\<lambda>buf. ret (word_of_nat (leNat buf)))"

definition Uint32 :: "32 word reader" where
  "Uint32 = bnd (ReadFull 4) (\<lambda>buf. ret (word_of_nat (leNat buf)))"

definition Uint64 :: "64 word reader" where
  "Uint64 = bnd (ReadFull 8) (\<lambda>buf. ret (word_of_nat (leNat buf)))"

text \<open>\<open>ReadElement\<close> into a variable of each type that occurs below.\<close>

definition ReadElement_uint16 :: "16 word reader" where
  "ReadElement_uint16 = Uint16"

definition ReadElement_uint32 :: "32 word reader" where
  "ReadElement_uint32 = Uint32"

definition ReadElement_uint64 :: "64 word reader" where
  "ReadElement_uint64 = Uint64"

definition ReadElement_bool :: "bool reader" where
  "ReadElement_bool =
     bnd Uint8 (\<lambda>rv. if rv = 0 then ret False else if rv = 1 then ret True else raise Malformed)"

text \<open>\<open>make([]byte, n)\<close> panics when no address space is that large: 48 bits on the 64-bit platforms.\<close>

definition makeBytes :: "64 word \<Rightarrow> unit reader" where
  "makeBytes n = (if unat n > 2 ^ 48 then panic else ret ())"

section \<open>Outpoints and entries\<close>

fun WriteElements :: "element list \<Rightarrow> bytes option" where
  "WriteElements [] = Some []"
| "WriteElements (e # es) =
     (case WriteElement e of None \<Rightarrow> None | Some b \<Rightarrow> map_option ((@) b) (WriteElements es))"

definition serializeOutpoint :: "DomainOutpoint \<Rightarrow> bytes option" where
  "serializeOutpoint outpoint =
     map_option ((@) (TransactionID outpoint)) (WriteElement (ElUint32 (outIndex outpoint)))"

definition FromBytes :: "bytes \<Rightarrow> DomainTransactionID reader" where
  "FromBytes transactionIDBytes =
     (if length transactionIDBytes \<noteq> DomainHashSize then raise InvalidHashSize else ret transactionIDBytes)"

definition deserializeOutpoint :: "DomainOutpoint reader" where
  "deserializeOutpoint =
     bnd (ReadFull DomainHashSize) (\<lambda>transactionIDBytes.
     bnd (FromBytes transactionIDBytes) (\<lambda>transactionID.
     bnd ReadElement_uint32 (\<lambda>index.
     ret \<lparr>TransactionID = transactionID, outIndex = index\<rparr>)))"

definition serializeUTXOEntry :: "UTXOEntry \<Rightarrow> bytes option" where
  "serializeUTXOEntry entry =
     (case WriteElements [ElUint64 (ueBlockDAAScore entry), ElUint64 (ueAmount entry), ElBool (ueIsCoinbase entry)] of
        None \<Rightarrow> None
      | Some b1 \<Rightarrow>
     (case WriteElement (ElUint16 (spkVersion (ueScriptPublicKey entry))) of
        None \<Rightarrow> None
      | Some b2 \<Rightarrow>
     (case WriteElement (ElUint64 (word_of_nat (length (Script (ueScriptPublicKey entry))))) of
        None \<Rightarrow> None
      | Some b3 \<Rightarrow> Some (b1 @ b2 @ b3 @ Script (ueScriptPublicKey entry)))))"

definition deserializeUTXOEntry :: "UTXOEntry reader" where
  "deserializeUTXOEntry =
     bnd ReadElement_uint64 (\<lambda>blockDAAScore.
     bnd ReadElement_uint64 (\<lambda>amount.
     bnd ReadElement_bool (\<lambda>isCoinbase.
     bnd ReadElement_uint16 (\<lambda>version.
     bnd ReadElement_uint64 (\<lambda>scriptPubKeyLen.
     andThen (makeBytes scriptPubKeyLen)
     (bnd (ReadFull (unat scriptPubKeyLen)) (\<lambda>scriptPubKeyScript.
     ret (NewUTXOEntry amount \<lparr>Script = scriptPubKeyScript, spkVersion = version\<rparr> isCoinbase blockDAAScore))))))))"

definition SerializeUTXO :: "UTXOEntry \<Rightarrow> DomainOutpoint \<Rightarrow> bytes option" where
  "SerializeUTXO entry outpoint =
     (case serializeOutpoint outpoint of
        None \<Rightarrow> None
      | Some b \<Rightarrow> map_option ((@) b) (serializeUTXOEntry entry))"

definition DeserializeUTXO :: "bytes \<Rightarrow> (readError, UTXOEntry \<times> DomainOutpoint) result" where
  "DeserializeUTXO utxoBytes =
     fst (bnd deserializeOutpoint (\<lambda>outpoint. bnd deserializeUTXOEntry (\<lambda>entry. ret (entry, outpoint))) utxoBytes)"

section \<open>Codecs\<close>

text \<open>A reader returns a value exactly when the bytes begin with its encoding, and leaves the rest.\<close>

locale codec =
  fixes valid :: "'a \<Rightarrow> bool" and enc :: "'a \<Rightarrow> bytes" and dec :: "'a reader"
  assumes dec_iff: "dec r = (Inr x, rest) \<longleftrightarrow> valid x \<and> r = enc x @ rest"
begin

lemma dec_enc: "valid x \<Longrightarrow> dec (enc x @ rest) = (Inr x, rest)"
  by (simp add: dec_iff)

lemma enc_inj:
  assumes "valid x" "valid y" "enc x @ us = enc y @ vs"
  shows "x = y \<and> us = vs"
  using dec_enc [OF assms(1), of us] dec_enc [OF assms(2), of vs] unfolding assms(3) by simp

lemma bnd_iff: "bnd dec f r = (Inr y, rest) \<longleftrightarrow> (\<exists>x r'. valid x \<and> r = enc x @ r' \<and> f x r' = (Inr y, rest))"
proof
  assume run: "bnd dec f r = (Inr y, rest)"
  then obtain x r' where "dec r = (Inr x, r')" "f x r' = (Inr y, rest)"
    by (auto simp: bnd_def split: prod.splits sum.splits)
  then show "\<exists>x r'. valid x \<and> r = enc x @ r' \<and> f x r' = (Inr y, rest)" by (auto simp: dec_iff)
qed (auto simp: bnd_def dec_enc)

end

lemma ReadFull_iff: "ReadFull n r = (Inr x, rest) \<longleftrightarrow> length x = n \<and> r = x @ rest"
  by (auto simp: ReadFull_def)

interpretation raw: codec "\<lambda>x. length x = n" "\<lambda>x. x" "ReadFull n" for n
  by unfold_locales (rule ReadFull_iff)

lemma word_of_leNat:
  assumes "256 ^ k = (2 :: nat) ^ LENGTH('w)"
  shows "length buf = k \<and> word_of_nat (leNat buf) = (x :: 'w :: len word) \<longleftrightarrow> buf = putUintLE k (unat x)"
proof (intro iffI conjI)
  assume buf: "length buf = k \<and> word_of_nat (leNat buf) = x"
  with leNat_less [of buf] assms have "unat x = leNat buf"
    by (auto simp: unat_of_nat)
  with buf show "buf = putUintLE k (unat x)" by (simp add: putUintLE_leNat)
next
  assume buf: "buf = putUintLE k (unat x)"
  then show "length buf = k" by simp
  have "unat x < 256 ^ k" using unsigned_less [of x, where ?'a = nat] by (simp add: assms)
  with buf show "word_of_nat (leNat buf) = x" by (simp add: leNat_putUintLE)
qed

lemma read_word:
  assumes "256 ^ k = (2 :: nat) ^ LENGTH('w)"
  shows "bnd (ReadFull k) (\<lambda>buf. ret (word_of_nat (leNat buf) :: 'w :: len word)) r = (Inr x, rest) \<longleftrightarrow>
    r = putUintLE k (unat x) @ rest"
  unfolding raw.bnd_iff using word_of_leNat [OF assms, of _ x] by (auto simp: ret_def)

interpretation u8: codec "\<lambda>_. True" PutUint8 Uint8
  by unfold_locales (auto simp: Uint8_def raw.bnd_iff ret_def PutUint8_def length_Suc_conv)

interpretation u16: codec "\<lambda>_. True" PutUint16 ReadElement_uint16
  by unfold_locales (simp add: ReadElement_uint16_def Uint16_def PutUint16_def read_word)

interpretation u32: codec "\<lambda>_. True" PutUint32 ReadElement_uint32
  by unfold_locales (simp add: ReadElement_uint32_def Uint32_def PutUint32_def read_word)

interpretation u64: codec "\<lambda>_. True" PutUint64 ReadElement_uint64
  by unfold_locales (simp add: ReadElement_uint64_def Uint64_def PutUint64_def read_word)

interpretation boolean: codec "\<lambda>_. True" "\<lambda>b. PutUint8 (if b then 1 else 0)" ReadElement_bool
  by unfold_locales (auto simp: ReadElement_bool_def u8.bnd_iff ret_def raise_def split: if_splits intro: exI [of _ 0])

section \<open>Composite values\<close>

definition outpointBytes :: "DomainOutpoint \<Rightarrow> bytes" where
  "outpointBytes k = TransactionID k @ PutUint32 (outIndex k)"

definition entryBytes :: "UTXOEntry \<Rightarrow> bytes" where
  "entryBytes e = PutUint64 (ueBlockDAAScore e) @ PutUint64 (ueAmount e) @ PutUint8 (if ueIsCoinbase e then 1 else 0) @
     PutUint16 (spkVersion (ueScriptPublicKey e)) @ PutUint64 (word_of_nat (length (Script (ueScriptPublicKey e)))) @
     Script (ueScriptPublicKey e)"

definition sizedEntry :: "UTXOEntry \<Rightarrow> bool" where
  "sizedEntry e \<longleftrightarrow> length (Script (ueScriptPublicKey e)) \<le> 2 ^ 48"

lemma SerializeUTXO_eq: "SerializeUTXO e k = Some (outpointBytes k @ entryBytes e)"
  by (simp add: SerializeUTXO_def serializeOutpoint_def serializeUTXOEntry_def outpointBytes_def entryBytes_def)

interpretation outpoint: codec "\<lambda>k. length (TransactionID k) = DomainHashSize" outpointBytes deserializeOutpoint
proof unfold_locales
  fix r rest and k :: DomainOutpoint
  show "deserializeOutpoint r = (Inr k, rest) \<longleftrightarrow> length (TransactionID k) = DomainHashSize \<and> r = outpointBytes k @ rest"
    by (cases k) (auto simp: deserializeOutpoint_def raw.bnd_iff u32.bnd_iff FromBytes_def bnd_def [of "ret _"] ret_def outpointBytes_def)
qed

lemma sized_script: "length s \<le> 2 ^ 48 \<Longrightarrow> unat (word_of_nat (length s) :: 64 word) = length s"
  by (simp add: unat_of_nat)

lemma script_reader:
  "andThen (makeBytes n) (bnd (ReadFull (unat n)) f) r = (Inr y, rest) \<longleftrightarrow>
     (\<exists>s r'. length s \<le> 2 ^ 48 \<and> n = word_of_nat (length s) \<and> r = s @ r' \<and> f s r' = (Inr y, rest))"
proof (cases "unat n > 2 ^ 48")
  case True
  then show ?thesis by (auto simp: makeBytes_def andThen_def bnd_def panic_def sized_script)
next
  case False
  then have "length s = unat n \<longleftrightarrow> length s \<le> 2 ^ 48 \<and> n = word_of_nat (length s)" for s :: bytes
    by (auto simp: sized_script)
  with False show ?thesis
    by (simp add: makeBytes_def andThen_def bnd_def [of "ret _"] ret_def raw.bnd_iff)
qed

interpretation entry: codec sizedEntry entryBytes deserializeUTXOEntry
proof unfold_locales
  fix r rest and e :: UTXOEntry
  show "deserializeUTXOEntry r = (Inr e, rest) \<longleftrightarrow> sizedEntry e \<and> r = entryBytes e @ rest"
    by (cases e, cases "ueScriptPublicKey e")
      (auto simp: deserializeUTXOEntry_def u64.bnd_iff boolean.bnd_iff u16.bnd_iff script_reader ret_def NewUTXOEntry_def
        sizedEntry_def entryBytes_def)
qed

section \<open>Properties\<close>

text \<open>C19: Entries of the UTXO set are written and read canonically: \<open>DeserializeUTXO\<close> returns an entry and an outpoint exactly
  when the bytes begin with what \<open>SerializeUTXO\<close> writes for them, and \<open>SerializeUTXO\<close> never fails. So what is written is
  read back, and two different coins never have the same bytes.\<close>

theorem utxo_serialization_canonical:
  "DeserializeUTXO bs = Inr (e, k) \<longleftrightarrow>
     length (TransactionID k) = DomainHashSize \<and> sizedEntry e \<and> (\<exists>written rest. SerializeUTXO e k = Some written \<and> bs = written @ rest)"
proof -
  let ?run = "bnd deserializeOutpoint (\<lambda>outpoint. bnd deserializeUTXOEntry (\<lambda>entry. ret (entry, outpoint)))"
  have "DeserializeUTXO bs = Inr (e, k) \<longleftrightarrow> (\<exists>rest. ?run bs = (Inr (e, k), rest))"
    unfolding DeserializeUTXO_def by (cases "?run bs") auto
  then show ?thesis by (auto simp: outpoint.bnd_iff entry.bnd_iff ret_def SerializeUTXO_eq)
qed

end
