(* ===== verification/Utxo_Accept.thy ===== *)
theory Utxo_Accept
  imports Utxo_Tx Utxo_Serial
begin

text \<open>
  The UTXO commitment: \<^verbatim>\<open>src/domain/consensus/utils/utxo/acceptance.go\<close>. A block's acceptance data is applied twice, to
  a UTXO diff and to a multiset of serialised coins whose hash the block's header commits to. The two are to
  describe one set.

  The multiset is MuHash, a third-party package: it is the parameter \<open>w\<close>, a record of what \<open>Add\<close> and \<open>Remove\<close> do to
  the value of a multiset (the quotient that its hash is taken of). The hypothesis \<open>multisetLaws\<close> is MuHash's
  documented behaviour: the order of additions does not matter, and a removal cancels an addition.
\<close>

section \<open>Acceptance data\<close>

record TransactionAcceptanceData =
  tadTransaction :: DomainTransaction
  tadFee :: "64 word"
  tadIsAccepted :: bool
  tadInputUTXOEntries :: "UTXOEntry list"

record BlockAcceptanceData =
  badBlockHash :: DomainHash
  badTransactionAcceptanceData :: "TransactionAcceptanceData list"

type_synonym AcceptanceData = "BlockAcceptanceData list"

record 'm MultisetWriter =
  msAdd :: "bytes \<Rightarrow> 'm \<Rightarrow> 'm"
  msRemove :: "bytes \<Rightarrow> 'm \<Rightarrow> 'm"

datatype multisetError = SerializeFailed | OutputIndexNotUint32 | LookupFailed

text \<open>The multiset and the outpoints \<open>ApplyAcceptanceDataToMultiset\<close> has added in this run.\<close>

record 'm multisetState =
  ms :: 'm
  addedHere :: "DomainOutpoint list"

type_synonym 'm multisetProc = "('m multisetState, multisetError, unit) proc"

definition AcceptedUTXOBlockDAAScore :: "64 word \<Rightarrow> 64 word" where
  "AcceptedUTXOBlockDAAScore mergingBlockDAAScore = mergingBlockDAAScore"

text \<open>The position only decides whether a warning is logged.\<close>

definition IsAcceptedCoinbase :: "DomainTransaction \<Rightarrow> nat \<Rightarrow> bool" where
  "IsAcceptedCoinbase transaction positionInBlock = IsCoinBase transaction"

fun forEachInBlock ::
  "(DomainTransaction \<Rightarrow> bool \<Rightarrow> ('s, 'e, unit) proc) \<Rightarrow> nat \<Rightarrow> TransactionAcceptanceData list \<Rightarrow> ('s, 'e, unit) proc" where
  "forEachInBlock apply i [] = ret ()"
| "forEachInBlock apply i (tad # tads) =
     (if \<not> tadIsAccepted tad then forEachInBlock apply (i + 1) tads
      else andThen (apply (tadTransaction tad) (IsAcceptedCoinbase (tadTransaction tad) i)) (forEachInBlock apply (i + 1) tads))"

fun forEachAcceptedTransaction ::
  "AcceptanceData \<Rightarrow> (DomainTransaction \<Rightarrow> bool \<Rightarrow> ('s, 'e, unit) proc) \<Rightarrow> ('s, 'e, unit) proc" where
  "forEachAcceptedTransaction [] apply = ret ()"
| "forEachAcceptedTransaction (bad # bads) apply =
     andThen (forEachInBlock apply 0 (badTransactionAcceptanceData bad)) (forEachAcceptedTransaction bads apply)"

section \<open>The multiset\<close>

definition addUTXO :: "'m MultisetWriter \<Rightarrow> UTXOEntry \<Rightarrow> DomainOutpoint \<Rightarrow> 'm multisetProc" where
  "addUTXO w entry outpoint =
     (case SerializeUTXO entry outpoint of
        None \<Rightarrow> raise SerializeFailed
      | Some b \<Rightarrow> modify (\<lambda>s. s\<lparr>ms := msAdd w b (ms s)\<rparr>))"

definition removeUTXO :: "'m MultisetWriter \<Rightarrow> UTXOEntry \<Rightarrow> DomainOutpoint \<Rightarrow> 'm multisetProc" where
  "removeUTXO w entry outpoint =
     (case SerializeUTXO entry outpoint of
        None \<Rightarrow> raise SerializeFailed
      | Some b \<Rightarrow> modify (\<lambda>s. s\<lparr>ms := msRemove w b (ms s)\<rparr>))"

text \<open>The writer with the roles of adding and removing exchanged, for the reverse direction.\<close>

definition directed :: "bool \<Rightarrow> 'm MultisetWriter \<Rightarrow> 'm MultisetWriter" where
  "directed reverse w = (if reverse then \<lparr>msAdd = msRemove w, msRemove = msAdd w\<rparr> else w)"

text \<open>A lookup in the base set: the entry, which may be nil, and whether it was found.\<close>

type_synonym baseLookup = "DomainOutpoint \<Rightarrow> (multisetError, UTXOEntry option \<times> bool) result"

definition resolveExisting :: "mutableUTXODiff option \<Rightarrow> baseLookup option \<Rightarrow> baseLookup" where
  "resolveExisting selectedParentPastUTXO baseUTXO outpoint =
     (let inBase = (case baseUTXO of None \<Rightarrow> Inr (None, False) | Some lookup \<Rightarrow> lookup outpoint)
      in case selectedParentPastUTXO of
           None \<Rightarrow> inBase
         | Some past \<Rightarrow>
             if Contains (toRemove past) outpoint then Inr (None, False)
             else case Get (toAdd past) outpoint of
                    Some entry \<Rightarrow> Inr (Some entry, True)
                  | None \<Rightarrow> inBase)"

text \<open>Whether to skip an output, and the prior entry to remove.\<close>

definition skipDuplicate ::
  "mutableUTXODiff option \<Rightarrow> baseLookup option \<Rightarrow> DomainOutpoint \<Rightarrow> UTXOEntry \<Rightarrow>
    ('m multisetState, multisetError, bool \<times> UTXOEntry option) proc" where
  "skipDuplicate selectedParentPastUTXO baseUTXO outpoint newEntry =
     bnd (gets addedHere) (\<lambda>here.
     if outpoint \<in> set here then ret (True, None)
     else bnd (liftR (resolveExisting selectedParentPastUTXO baseUTXO outpoint)) (\<lambda>(existing, found).
     let remember = modify (\<lambda>s. s\<lparr>addedHere := outpoint # addedHere s\<rparr>)
     in if \<not> found then andThen remember (ret (False, None))
        else case existing of
               None \<Rightarrow> andThen remember (ret (False, None))
             | Some ex \<Rightarrow>
                 if ueAmount ex \<noteq> ueAmount newEntry \<or> ueIsCoinbase ex \<noteq> ueIsCoinbase newEntry \<or>
                    ueScriptPublicKey ex \<noteq> ueScriptPublicKey newEntry
                 then andThen remember (ret (False, None))
                 else andThen remember
                   (if ueBlockDAAScore ex = ueBlockDAAScore newEntry then ret (True, None) else ret (False, Some ex))))"

fun spendFromMultiset :: "'m MultisetWriter \<Rightarrow> DomainTransactionInput list \<Rightarrow> 'm multisetProc" where
  "spendFromMultiset w [] = ret ()"
| "spendFromMultiset w (input # inputs) =
     (case utxoEntry input of
        None \<Rightarrow> spendFromMultiset w inputs
      | Some entry \<Rightarrow> andThen (removeUTXO w entry (PreviousOutpoint input)) (spendFromMultiset w inputs))"

type_synonym 'm duplicateCheck =
  "DomainOutpoint \<Rightarrow> UTXOEntry \<Rightarrow> ('m multisetState, multisetError, bool \<times> UTXOEntry option) proc"

fun createInMultiset ::
  "'m MultisetWriter \<Rightarrow> DomainTransactionID \<Rightarrow> 64 word \<Rightarrow> bool \<Rightarrow> 'm duplicateCheck option \<Rightarrow> nat \<Rightarrow>
    DomainTransactionOutput list \<Rightarrow> 'm multisetProc" where
  "createInMultiset w transactionID score isCoinbase skipDup i [] = ret ()"
| "createInMultiset w transactionID score isCoinbase skipDup i (output # outputs) =
     (if i > 4294967295 then raise OutputIndexNotUint32
      else
        let outpoint = \<lparr>TransactionID = transactionID, outIndex = word_of_nat i\<rparr>;
            entry = NewUTXOEntry (outValue output) (outScriptPublicKey output) isCoinbase (AcceptedUTXOBlockDAAScore score);
            rest = createInMultiset w transactionID score isCoinbase skipDup (i + 1) outputs
        in case skipDup of
             None \<Rightarrow> andThen (addUTXO w entry outpoint) rest
           | Some check \<Rightarrow>
               bnd (check outpoint entry) (\<lambda>(skip, removePrior).
               andThen (case removePrior of None \<Rightarrow> ret () | Some prior \<Rightarrow> removeUTXO w prior outpoint)
               (if skip then rest else andThen (addUTXO w entry outpoint) rest)))"

definition applyTransactionToMultiset ::
  "'m MultisetWriter \<Rightarrow> blake3 \<Rightarrow> DomainTransaction \<Rightarrow> 64 word \<Rightarrow> bool \<Rightarrow> bool \<Rightarrow> 'm duplicateCheck option \<Rightarrow> 'm multisetProc" where
  "applyTransactionToMultiset w blake3 transaction mergingBlockDAAScore isCoinbase reverse skipDup =
     (let transactionID = fst (computeTransactionID blake3 transaction);
          w' = directed reverse w
      in andThen (spendFromMultiset w' (Inputs transaction))
           (createInMultiset w' transactionID mergingBlockDAAScore isCoinbase skipDup 0 (Outputs transaction)))"

definition ApplyAcceptanceDataToMultiset ::
  "'m MultisetWriter \<Rightarrow> blake3 \<Rightarrow> AcceptanceData \<Rightarrow> 64 word \<Rightarrow> mutableUTXODiff option \<Rightarrow> baseLookup option \<Rightarrow> 'm \<Rightarrow>
    (multisetError, unit) result \<times> 'm" where
  "ApplyAcceptanceDataToMultiset w blake3 acceptanceData mergingBlockDAAScore selectedParentPastUTXO baseUTXO m =
     (case forEachAcceptedTransaction acceptanceData (\<lambda>transaction isCoinbase.
             applyTransactionToMultiset w blake3 transaction mergingBlockDAAScore isCoinbase False
               (Some (skipDuplicate selectedParentPastUTXO baseUTXO)))
           \<lparr>ms = m, addedHere = []\<rparr> of
        (res, s) \<Rightarrow> (res, ms s))"

fun removeBlockFromMultiset :: "'m MultisetWriter \<Rightarrow> blake3 \<Rightarrow> 64 word \<Rightarrow> (nat \<times> TransactionAcceptanceData) list \<Rightarrow> 'm multisetProc" where
  "removeBlockFromMultiset w blake3 score [] = ret ()"
| "removeBlockFromMultiset w blake3 score ((j, tad) # tads) =
     (if \<not> tadIsAccepted tad then removeBlockFromMultiset w blake3 score tads
      else andThen (applyTransactionToMultiset w blake3 (tadTransaction tad) score (IsAcceptedCoinbase (tadTransaction tad) j) True None)
        (removeBlockFromMultiset w blake3 score tads))"

fun removeBlocksFromMultiset :: "'m MultisetWriter \<Rightarrow> blake3 \<Rightarrow> 64 word \<Rightarrow> AcceptanceData \<Rightarrow> 'm multisetProc" where
  "removeBlocksFromMultiset w blake3 score [] = ret ()"
| "removeBlocksFromMultiset w blake3 score (bad # bads) =
     andThen (removeBlockFromMultiset w blake3 score (rev (enumerate 0 (badTransactionAcceptanceData bad))))
       (removeBlocksFromMultiset w blake3 score bads)"

definition RemoveAcceptanceDataFromMultiset ::
  "'m MultisetWriter \<Rightarrow> blake3 \<Rightarrow> AcceptanceData \<Rightarrow> 64 word \<Rightarrow> 'm \<Rightarrow> (multisetError, unit) result \<times> 'm" where
  "RemoveAcceptanceDataFromMultiset w blake3 acceptanceData mergingBlockDAAScore m =
     (case removeBlocksFromMultiset w blake3 mergingBlockDAAScore (rev acceptanceData) \<lparr>ms = m, addedHere = []\<rparr> of
        (res, s) \<Rightarrow> (res, ms s))"

section \<open>The diff\<close>

definition ApplyAcceptanceDataToDiff :: "blake3 \<Rightarrow> AcceptanceData \<Rightarrow> 64 word \<Rightarrow> unit diffProc" where
  "ApplyAcceptanceDataToDiff blake3 acceptanceData mergingBlockDAAScore =
     forEachAcceptedTransaction acceptanceData (\<lambda>transaction _.
       AddOutputsSpendingResolvedInputs blake3 transaction (AcceptedUTXOBlockDAAScore mergingBlockDAAScore))"

section \<open>Multisets of coins\<close>

definition coinBytes :: "UTXOEntry \<Rightarrow> DomainOutpoint \<Rightarrow> bytes" where
  "coinBytes e k = outpointBytes k @ entryBytes e"

definition multisetLaws :: "'m MultisetWriter \<Rightarrow> bool" where
  "multisetLaws w \<longleftrightarrow>
     (\<forall>x y m. msAdd w x (msAdd w y m) = msAdd w y (msAdd w x m)) \<and> (\<forall>x m. msRemove w x (msAdd w x m) = m)"

text \<open>A multiset that holds every coin of a set once, and nothing else.\<close>

definition multisetOf :: "'m MultisetWriter \<Rightarrow> 'm \<Rightarrow> utxoSet \<Rightarrow> 'm \<Rightarrow> bool" where
  "multisetOf w m0 S m \<longleftrightarrow>
     (\<exists>coins. distinct (map fst coins) \<and> map_of coins = S \<and> m = fold (\<lambda>(k, e). msAdd w (coinBytes e k)) coins m0)"

lemma multisetOf_add:
  assumes "multisetOf w m0 S m" and "S k = None"
  shows "multisetOf w m0 (S(k \<mapsto> e)) (msAdd w (coinBytes e k) m)"
proof -
  from assms(1) obtain coins where coins: "distinct (map fst coins)" "map_of coins = S"
    "m = fold (\<lambda>(k, e). msAdd w (coinBytes e k)) coins m0" by (auto simp: multisetOf_def)
  from coins(2) assms(2) have new: "k \<notin> fst ` set coins" by (metis map_of_eq_None_iff)
  then have "map_of (coins @ [(k, e)]) = S(k \<mapsto> e)"
    using coins(2) assms(2) by (auto simp: fun_eq_iff map_add_def split: option.split)
  with coins new show ?thesis by (auto simp: multisetOf_def intro: exI [of _ "coins @ [(k, e)]"])
qed

lemma fold_msAdd:
  "multisetLaws w \<Longrightarrow> fold (\<lambda>(k, e). msAdd w (coinBytes e k)) coins (msAdd w b m)
    = msAdd w b (fold (\<lambda>(k, e). msAdd w (coinBytes e k)) coins m)"
  by (induction coins arbitrary: m) (auto simp: multisetLaws_def)

lemma multisetOf_remove:
  assumes "multisetLaws w" and "multisetOf w m0 S m" and "S k = Some e"
  shows "multisetOf w m0 (S(k := None)) (msRemove w (coinBytes e k) m)"
proof -
  from assms(2) obtain coins where coins: "distinct (map fst coins)" "map_of coins = S"
    "m = fold (\<lambda>(k, e). msAdd w (coinBytes e k)) coins m0" by (auto simp: multisetOf_def)
  from coins(2) assms(3) have "(k, e) \<in> set coins" by (metis map_of_SomeD)
  then obtain us vs where split: "coins = us @ (k, e) # vs" by (metis split_list)
  from coins(1) have new: "k \<notin> fst ` set us" "k \<notin> fst ` set vs" "distinct (map fst (us @ vs))" by (auto simp: split)
  have "map_of (us @ vs) x = (S(k := None)) x" for x
  proof (cases "x = k")
    case True
    with new(1,2) show ?thesis by (simp add: map_add_None map_of_eq_None_iff)
  next
    case False
    then show ?thesis by (simp add: coins(2) [symmetric] split map_add_def split: option.split)
  qed
  moreover have "msRemove w (coinBytes e k) m = fold (\<lambda>(k, e). msAdd w (coinBytes e k)) (us @ vs) m0"
    using assms(1) fold_msAdd [OF assms(1), of vs] by (simp add: coins(3) split multisetLaws_def)
  ultimately show ?thesis using new(3) by (auto simp: multisetOf_def fun_eq_iff intro!: exI [of _ "us @ vs"])
qed

section \<open>Diffs over a base\<close>

text \<open>A diff removes only what the base has. It may add what the base has already: so does \<open>addEntry\<close> when a coin of the base is
  accepted again with another DAA score.\<close>

definition looseSlot :: "UTXOEntry option \<Rightarrow> slot \<Rightarrow> bool" where
  "looseSlot b s \<longleftrightarrow> (\<forall>r. snd s = Some r \<longrightarrow> b = Some r) \<and> normalSlot s"

definition looseOn :: "utxoSet \<Rightarrow> mutableUTXODiff \<Rightarrow> bool" where
  "looseOn base d \<longleftrightarrow> (\<forall>k. looseSlot (base k) (slotOf d k))"

text \<open>An addition over the base: removing it again does not remove the coin of the base.\<close>

definition addsOver :: "slot \<Rightarrow> bool" where
  "addsOver s \<longleftrightarrow> fst s \<noteq> None \<and> snd s = None"

lemma removeEntrySlot_loose:
  assumes "looseSlot b s" and "applySlot s b = Some e" and "addsOver s \<Longrightarrow> b = None"
  shows "\<exists>s'. removeEntrySlot s e = Some s' \<and> looseSlot b s' \<and> applySlot s' b = None"
proof -
  obtain a r where s: "s = (a, r)" by (cases s)
  show ?thesis
    using assms unfolding s
    by (cases a; cases r; cases b) (auto simp: looseSlot_def normalSlot_def addsOver_def applySlot_def sameCoin_def)
qed

lemma addEntrySlot_again:
  assumes "looseSlot b s" and "applySlot s b = Some e"
  shows "\<exists>s'. addEntrySlot s e = Some s' \<and> looseSlot b s' \<and> applySlot s' b = Some e"
proof -
  obtain a r where s: "s = (a, r)" by (cases s)
  show ?thesis
    using assms unfolding s
    by (cases a; cases r; cases b) (auto simp: looseSlot_def normalSlot_def applySlot_def sameCoin_def)
qed

lemma addEntrySlot_loose:
  assumes "looseSlot b s" and "fst s = None \<or> snd s = None"
    and "\<And>x. b = Some x \<or> applySlot s b = Some x \<Longrightarrow> sameCoin x e"
  shows "\<exists>s'. addEntrySlot s e = Some s' \<and> looseSlot b s' \<and> applySlot s' b = Some e"
proof -
  obtain a r where s: "s = (a, r)" by (cases s)
  show ?thesis
    using assms unfolding s
    by (cases a; cases r; cases b) (auto simp: looseSlot_def normalSlot_def applySlot_def dest: sameCoin_stamped)
qed

lemma acts_loose:
  assumes "actsOn k (Some s') d (r, d')" and "looseOn base d" and "looseSlot (base k) s'"
  shows "r = Inr ()" and "wfDiff d'" and "looseOn base d'"
    and "applyDiff d' base = (applyDiff d base)(k := applySlot s' (base k))" and "\<And>j. j \<noteq> k \<Longrightarrow> slotOf d' j = slotOf d j"
  using assms by (auto simp: actsOn_def looseOn_def applyDiff_def fun_eq_iff)

section \<open>Clean acceptance data\<close>

text \<open>
  What acceptance data has to satisfy for the two representations to agree, with \<open>S\<close> the current set and \<open>A\<close> the outpoints
  created so far: a spent coin is in the set with the entry the input carries, and is not an addition over the base;
  a created coin is created at most once (or again while it is still there), the coin of the base or of the past at its outpoint is
  the same coin, it is still what it was in the past, and the past does not hold it restamped.
\<close>

fun cleanInputs :: "mutableUTXODiff \<Rightarrow> utxoSet \<Rightarrow> DomainOutpoint set \<Rightarrow> utxoSet \<Rightarrow> DomainTransactionInput list \<Rightarrow> bool" where
  "cleanInputs past base A S [] \<longleftrightarrow> True"
| "cleanInputs past base A S (i # ins) \<longleftrightarrow>
     (case utxoEntry i of
        None \<Rightarrow> cleanInputs past base A S ins
      | Some e \<Rightarrow>
          S (PreviousOutpoint i) = Some e \<and>
          (PreviousOutpoint i \<in> A \<or> addsOver (slotOf past (PreviousOutpoint i)) \<longrightarrow> base (PreviousOutpoint i) = None) \<and>
          cleanInputs past base A (S(PreviousOutpoint i := None)) ins)"

fun spendResolved :: "DomainTransactionInput list \<Rightarrow> utxoSet \<Rightarrow> utxoSet" where
  "spendResolved [] S = S"
| "spendResolved (i # ins) S =
     (case utxoEntry i of None \<Rightarrow> spendResolved ins S | Some _ \<Rightarrow> spendResolved ins (S(PreviousOutpoint i := None)))"

definition cleanOutput ::
  "mutableUTXODiff \<Rightarrow> utxoSet \<Rightarrow> DomainOutpoint set \<Rightarrow> utxoSet \<Rightarrow> DomainOutpoint \<Rightarrow> UTXOEntry \<Rightarrow> bool" where
  "cleanOutput past base A S k e \<longleftrightarrow>
     (if k \<in> A then S k = Some e
      else S k = applyDiff past base k \<and> (fst (slotOf past k) = None \<or> snd (slotOf past k) = None) \<and>
        (\<forall>x. base k = Some x \<or> S k = Some x \<longrightarrow> sameCoin x e))"

fun cleanOutputs ::
  "mutableUTXODiff \<Rightarrow> utxoSet \<Rightarrow> DomainTransactionID \<Rightarrow> bool \<Rightarrow> 64 word \<Rightarrow> DomainOutpoint set \<Rightarrow> utxoSet \<Rightarrow> nat \<Rightarrow>
    DomainTransactionOutput list \<Rightarrow> bool" where
  "cleanOutputs past base txID coinbase score A S i [] \<longleftrightarrow> True"
| "cleanOutputs past base txID coinbase score A S i (out # outs) \<longleftrightarrow>
     i < 2 ^ 32 \<and> cleanOutput past base A S (outputOutpoint txID i) (outputEntry coinbase score out) \<and>
     cleanOutputs past base txID coinbase score (insert (outputOutpoint txID i) A)
       (S(outputOutpoint txID i \<mapsto> outputEntry coinbase score out)) (i + 1) outs"

fun createdOutpoints :: "DomainTransactionID \<Rightarrow> nat \<Rightarrow> DomainTransactionOutput list \<Rightarrow> DomainOutpoint set \<Rightarrow> DomainOutpoint set" where
  "createdOutpoints txID i [] A = A"
| "createdOutpoints txID i (out # outs) A = createdOutpoints txID (i + 1) outs (insert (outputOutpoint txID i) A)"

definition txID_of :: "blake3 \<Rightarrow> DomainTransaction \<Rightarrow> DomainTransactionID" where
  "txID_of b3 tx = fst (computeTransactionID b3 tx)"

text \<open>The set after a transaction.\<close>

definition afterTransaction :: "blake3 \<Rightarrow> 64 word \<Rightarrow> DomainTransaction \<Rightarrow> utxoSet \<Rightarrow> utxoSet" where
  "afterTransaction b3 score tx S = createOutputs (txID_of b3 tx) (IsCoinBase tx) score 0 (Outputs tx) (spendResolved (Inputs tx) S)"

fun cleanTransactions ::
  "blake3 \<Rightarrow> mutableUTXODiff \<Rightarrow> utxoSet \<Rightarrow> 64 word \<Rightarrow> DomainOutpoint set \<Rightarrow> utxoSet \<Rightarrow> DomainTransaction list \<Rightarrow> bool" where
  "cleanTransactions b3 past base score A S [] \<longleftrightarrow> True"
| "cleanTransactions b3 past base score A S (tx # txs) \<longleftrightarrow>
     cleanInputs past base A S (Inputs tx) \<and>
     cleanOutputs past base (txID_of b3 tx) (IsCoinBase tx) score A (spendResolved (Inputs tx) S) 0 (Outputs tx) \<and>
     cleanTransactions b3 past base score (createdOutpoints (txID_of b3 tx) 0 (Outputs tx) A) (afterTransaction b3 score tx S) txs"

definition acceptedTransactions :: "AcceptanceData \<Rightarrow> DomainTransaction list" where
  "acceptedTransactions ad = concat (map (\<lambda>bad. map tadTransaction (filter tadIsAccepted (badTransactionAcceptanceData bad))) ad)"

section \<open>The two representations agree\<close>

definition agree ::
  "'m MultisetWriter \<Rightarrow> 'm \<Rightarrow> mutableUTXODiff \<Rightarrow> utxoSet \<Rightarrow> DomainOutpoint set \<Rightarrow> utxoSet \<Rightarrow> mutableUTXODiff \<Rightarrow> 'm multisetState \<Rightarrow> bool" where
  "agree w m0 past base A S d s \<longleftrightarrow>
     wfDiff d \<and> looseOn base d \<and> applyDiff d base = S \<and>
     (\<forall>k. k \<notin> A \<longrightarrow> slotOf d k = slotOf past k \<or> S k = None \<and> applyDiff past base k \<noteq> None) \<and>
     multisetOf w m0 S (ms s) \<and> set (addedHere s) = A"

lemma addUTXO_eq: "addUTXO w e k = modify (\<lambda>s. s\<lparr>ms := msAdd w (coinBytes e k) (ms s)\<rparr>)"
  by (simp add: addUTXO_def SerializeUTXO_eq coinBytes_def)

lemma removeUTXO_eq: "removeUTXO w e k = modify (\<lambda>s. s\<lparr>ms := msRemove w (coinBytes e k) (ms s)\<rparr>)"
  by (simp add: removeUTXO_def SerializeUTXO_eq coinBytes_def)

lemma agree_spend:
  assumes "multisetLaws w" and ag: "agree w m0 past base A S d s" and "S k = Some e"
    and "k \<in> A \<or> addsOver (slotOf past k) \<longrightarrow> base k = None"
  shows "\<exists>d'. removeEntry k (Some e) d = (Inr (), d') \<and>
    agree w m0 past base A (S(k := None)) d' (s\<lparr>ms := msRemove w (coinBytes e k) (ms s)\<rparr>)"
proof -
  have d: "wfDiff d" "looseOn base d" "applyDiff d base = S" using ag by (simp_all add: agree_def)
  have old: "slotOf d k = slotOf past k" if "k \<notin> A" using ag that assms(3) by (auto simp: agree_def)
  have "looseSlot (base k) (slotOf d k)" "applySlot (slotOf d k) (base k) = Some e"
    using d(2) assms(3) by (simp_all add: looseOn_def flip: d(3)) (simp add: applyDiff_def)
  moreover have "addsOver (slotOf d k) \<Longrightarrow> base k = None" using assms(4) old by auto
  ultimately obtain s' where s': "removeEntrySlot (slotOf d k) e = Some s'" "looseSlot (base k) s'" "applySlot s' (base k) = None"
    using removeEntrySlot_loose by blast
  obtain r d' where run: "removeEntry k (Some e) d = (r, d')" by (cases "removeEntry k (Some e) d")
  from removeEntry_acts [OF d(1), of k e] s'(1) run have "actsOn k (Some s') d (r, d')" by simp
  note one = acts_loose [OF this d(2) s'(2)]
  have "applyDiff past base k \<noteq> None" if "k \<notin> A"
    using old [OF that] assms(3) by (simp add: applyDiff_def flip: d(3))
  then have "agree w m0 past base A (S(k := None)) d' (s\<lparr>ms := msRemove w (coinBytes e k) (ms s)\<rparr>)"
    using one ag s'(3) multisetOf_remove [of w m0 S "ms s" k e, OF assms(1) _ assms(3)] by (auto simp: agree_def)
  with run one(1) show ?thesis by simp
qed

lemma agree_inputs:
  assumes "multisetLaws w" and "agree w m0 past base A S d s" and "cleanInputs past base A S ins"
  shows "\<exists>undoLog' d' s'. removeInputs True ins undoLog d = (Inr undoLog', d') \<and> spendFromMultiset w ins s = (Inr (), s') \<and>
    agree w m0 past base A (spendResolved ins S) d' s'"
  using assms(2,3)
proof (induction ins arbitrary: d s S undoLog)
  case Nil
  then show ?case by (simp add: ret_def)
next
  case (Cons i ins)
  show ?case
  proof (cases "utxoEntry i")
    case None
    with Cons.prems(2) have "cleanInputs past base A S ins" by simp
    from Cons.IH [OF Cons.prems(1) this, of undoLog] None show ?thesis by simp
  next
    case (Some e)
    let ?s = "s\<lparr>ms := msRemove w (coinBytes e (PreviousOutpoint i)) (ms s)\<rparr>"
    from Some Cons.prems(2) have clean: "S (PreviousOutpoint i) = Some e"
      "PreviousOutpoint i \<in> A \<or> addsOver (slotOf past (PreviousOutpoint i)) \<longrightarrow> base (PreviousOutpoint i) = None"
      "cleanInputs past base A (S(PreviousOutpoint i := None)) ins" by simp_all
    from agree_spend [OF assms(1) Cons.prems(1) clean(1,2)] obtain d' where
      d': "removeEntry (PreviousOutpoint i) (Some e) d = (Inr (), d')" "agree w m0 past base A (S(PreviousOutpoint i := None)) d' ?s"
      by blast
    have run: "removeInputs True (i # ins) undoLog d = removeInputs True ins (undoLog @ [snapshot (PreviousOutpoint i) d]) d'"
      "spendFromMultiset w (i # ins) s = spendFromMultiset w ins ?s"
      "spendResolved (i # ins) S = spendResolved ins (S(PreviousOutpoint i := None))"
      using Some d'(1) by (simp_all add: bnd_def gets_def andThen_def orRollback_def removeUTXO_eq modify_def)
    show ?thesis unfolding run by (rule Cons.IH [OF d'(2) clean(3)])
  qed
qed

text \<open>What the multiset does with a created coin.\<close>

definition putCoin :: "'m MultisetWriter \<Rightarrow> utxoSet \<Rightarrow> DomainOutpoint \<Rightarrow> UTXOEntry \<Rightarrow> 'm multisetState \<Rightarrow> 'm multisetState" where
  "putCoin w S k e s =
     s\<lparr>addedHere := (if k \<in> set (addedHere s) then addedHere s else k # addedHere s),
       ms := (case S k of
          None \<Rightarrow> msAdd w (coinBytes e k) (ms s)
        | Some x \<Rightarrow> if x = e then ms s else msAdd w (coinBytes e k) (msRemove w (coinBytes x k) (ms s)))\<rparr>"

lemma multisetState_same [simp]:
  "(s :: 'm multisetState)\<lparr>addedHere := addedHere s\<rparr> = s" "s\<lparr>addedHere := a, ms := ms s\<rparr> = s\<lparr>addedHere := a\<rparr>"
  by (cases s; simp)+

definition baseLookupOf :: "utxoSet \<Rightarrow> baseLookup" where
  "baseLookupOf base k = Inr (base k, base k \<noteq> None)"

lemma resolveExisting_held:
  assumes "fst (slotOf past k) = None \<or> snd (slotOf past k) = None"
  shows "resolveExisting (Some past) (Some (baseLookupOf base)) k = Inr (applyDiff past base k, applyDiff past base k \<noteq> None)"
  using assms
  by (auto simp: resolveExisting_def baseLookupOf_def Let_def Contains_def applyDiff_def applySlot_def slotOf_def split: option.split)

lemma skipDuplicate_clean:
  assumes "cleanOutput past base (set (addedHere s)) S k e"
  shows "skipDuplicate (Some past) (Some (baseLookupOf base)) k e s =
    (Inr (case S k of None \<Rightarrow> (False, None)
      | Some x \<Rightarrow> if k \<in> set (addedHere s) \<or> x = e then (True, None) else (False, Some x)),
     s\<lparr>addedHere := (if k \<in> set (addedHere s) then addedHere s else k # addedHere s)\<rparr>)"
proof (cases "k \<in> set (addedHere s)")
  case True
  with assms show ?thesis by (simp add: skipDuplicate_def cleanOutput_def bnd_def gets_def ret_def)
next
  case False
  with assms have slot: "fst (slotOf past k) = None \<or> snd (slotOf past k) = None" and S: "applyDiff past base k = S k"
    by (simp_all add: cleanOutput_def)
  note res = resolveExisting_held [OF slot, of base, unfolded S]
  show ?thesis
  proof (cases "S k")
    case None
    with False show ?thesis
      by (simp add: skipDuplicate_def res bnd_def gets_def ret_def modify_def andThen_def liftR_def Let_def)
  next
    case (Some x)
    with assms False have "sameCoin x e" by (simp add: cleanOutput_def)
    then have "ueAmount x = ueAmount e" "ueIsCoinbase x = ueIsCoinbase e" "ueScriptPublicKey x = ueScriptPublicKey e"
      and "x = e \<longleftrightarrow> ueBlockDAAScore x = ueBlockDAAScore e"
      using sameCoin_stamped [of x e] by (auto simp: sameCoin_def)
    with Some False show ?thesis
      by (simp add: skipDuplicate_def res bnd_def gets_def ret_def modify_def andThen_def liftR_def Let_def)
  qed
qed

lemma create_step:
  assumes "cleanOutput past base (set (addedHere s)) S (outputOutpoint txID i) (outputEntry coinbase score out)" and "i < 2 ^ 32"
  shows "createInMultiset w txID score coinbase (Some (skipDuplicate (Some past) (Some (baseLookupOf base)))) i (out # outs) s =
    createInMultiset w txID score coinbase (Some (skipDuplicate (Some past) (Some (baseLookupOf base)))) (i + 1) outs
      (putCoin w S (outputOutpoint txID i) (outputEntry coinbase score out) s)"
proof -
  let ?k = "outputOutpoint txID i" and ?e = "outputEntry coinbase score out"
  let ?check = "skipDuplicate (Some past) (Some (baseLookupOf base))"
  let ?rest = "createInMultiset w txID score coinbase (Some ?check) (i + 1) outs"
  have entry: "NewUTXOEntry (outValue out) (outScriptPublicKey out) coinbase (AcceptedUTXOBlockDAAScore score) = ?e"
    by (simp add: outputEntry_def AcceptedUTXOBlockDAAScore_def)
  have "createInMultiset w txID score coinbase (Some ?check) i (out # outs) s =
      bnd (?check ?k ?e) (\<lambda>(skip, removePrior).
        andThen (case removePrior of None \<Rightarrow> ret () | Some prior \<Rightarrow> removeUTXO w prior ?k)
          (if skip then ?rest else andThen (addUTXO w ?e ?k) ?rest)) s"
    unfolding createInMultiset.simps(2) Let_def option.case entry outputOutpoint_def [symmetric] using assms(2) by simp
  also have "\<dots> = ?rest (putCoin w S ?k ?e s)"
  proof (cases "S ?k")
    case None
    with assms(1) have "?k \<notin> set (addedHere s)" by (auto simp: cleanOutput_def)
    with None show ?thesis
      by (simp only: bnd_def skipDuplicate_clean [OF assms(1)]) (simp add: addUTXO_eq modify_def putCoin_def bnd_def andThen_def ret_def)
  next
    case (Some x)
    with assms(1) have "?k \<in> set (addedHere s) \<Longrightarrow> x = ?e" by (simp add: cleanOutput_def)
    with Some show ?thesis
      by (simp only: bnd_def skipDuplicate_clean [OF assms(1)])
        (auto simp: addUTXO_eq removeUTXO_eq modify_def putCoin_def bnd_def andThen_def ret_def)
  qed
  finally show ?thesis .
qed

lemma agree_create:
  assumes "multisetLaws w" and ag: "agree w m0 past base A S d s" and clean: "cleanOutput past base A S k e"
  shows "\<exists>d'. addEntry k e d = (Inr (), d') \<and> agree w m0 past base (insert k A) (S(k \<mapsto> e)) d' (putCoin w S k e s)"
proof -
  have d: "wfDiff d" "looseOn base d" "applyDiff d base = S" "multisetOf w m0 S (ms s)" "set (addedHere s) = A"
    using ag by (simp_all add: agree_def)
  have loose: "looseSlot (base k) (slotOf d k)" and held: "applySlot (slotOf d k) (base k) = S k"
    using d(2) by (simp_all add: looseOn_def flip: d(3)) (simp add: applyDiff_def)
  have "\<exists>s'. addEntrySlot (slotOf d k) e = Some s' \<and> looseSlot (base k) s' \<and> applySlot s' (base k) = Some e"
  proof (cases "k \<in> A")
    case True
    with clean held show ?thesis by (intro addEntrySlot_again [OF loose]) (simp add: cleanOutput_def)
  next
    case False
    with clean ag have "slotOf d k = slotOf past k" by (auto simp: cleanOutput_def agree_def)
    with clean False held show ?thesis by (intro addEntrySlot_loose [OF loose]) (auto simp: cleanOutput_def)
  qed
  then obtain s' where s': "addEntrySlot (slotOf d k) e = Some s'" "looseSlot (base k) s'" "applySlot s' (base k) = Some e" by blast
  obtain r d' where run: "addEntry k e d = (r, d')" by (cases "addEntry k e d")
  from addEntry_acts [OF d(1), of k e] s'(1) run have "actsOn k (Some s') d (r, d')" by simp
  note one = acts_loose [OF this d(2) s'(2)]
  have "multisetOf w m0 (S(k \<mapsto> e)) (ms (putCoin w S k e s))"
  proof (cases "S k")
    case None
    with multisetOf_add [OF d(4) None] show ?thesis by (simp add: putCoin_def)
  next
    case (Some x)
    from multisetOf_add [OF multisetOf_remove [OF assms(1) d(4) Some], of k e] Some d(4) show ?thesis
      by (auto simp: putCoin_def fun_upd_idem)
  qed
  then have "agree w m0 past base (insert k A) (S(k \<mapsto> e)) d' (putCoin w S k e s)"
    using one s'(3) ag by (auto simp: agree_def putCoin_def)
  with run one(1) show ?thesis by simp
qed

lemma agree_outputs:
  assumes "multisetLaws w" and "agree w m0 past base A S d s" and "cleanOutputs past base txID coinbase score A S i outs"
  shows "\<exists>d' s'. addOutputs txID coinbase score i outs undoLog d = (Inr (), d') \<and>
    createInMultiset w txID score coinbase (Some (skipDuplicate (Some past) (Some (baseLookupOf base)))) i outs s = (Inr (), s') \<and>
    agree w m0 past base (createdOutpoints txID i outs A) (createOutputs txID coinbase score i outs S) d' s'"
  using assms(2,3)
proof (induction outs arbitrary: d s S A i undoLog)
  case Nil
  then show ?case by (simp add: ret_def)
next
  case (Cons out outs)
  let ?k = "outputOutpoint txID i" and ?e = "outputEntry coinbase score out"
  from Cons.prems(2) have clean: "i < 2 ^ 32" "cleanOutput past base A S ?k ?e"
    "cleanOutputs past base txID coinbase score (insert ?k A) (S(?k \<mapsto> ?e)) (i + 1) outs" by simp_all
  from agree_create [OF assms(1) Cons.prems(1) clean(2)] obtain d' where
    d': "addEntry ?k ?e d = (Inr (), d')" "agree w m0 past base (insert ?k A) (S(?k \<mapsto> ?e)) d' (putCoin w S ?k ?e s)" by blast
  have "set (addedHere s) = A" using Cons.prems(1) by (simp add: agree_def)
  note step = create_step [of past base s S txID i coinbase score out w outs, unfolded this, OF clean(2,1)]
  have run: "addOutputs txID coinbase score i (out # outs) undoLog d = addOutputs txID coinbase score (i + 1) outs (undoLog @ [snapshot ?k d]) d'"
    using clean(1) d'(1) by (simp add: bnd_def gets_def andThen_def orRollback_def Let_def outputOutpoint_def outputEntry_def)
  show ?case unfolding run step createdOutpoints.simps createOutputs.simps by (rule Cons.IH [OF d'(2) clean(3)])
qed

lemma andThen_assoc: "andThen (andThen m n) p = andThen m (andThen n p)"
  by (simp add: andThen_def bnd_assoc)

fun runAll :: "('s, 'e, unit) proc list \<Rightarrow> ('s, 'e, unit) proc" where
  "runAll [] = ret ()"
| "runAll (p # ps) = andThen p (runAll ps)"

lemma runAll_append: "runAll (ps @ qs) = andThen (runAll ps) (runAll qs)"
  by (induction ps) (simp_all add: andThen_assoc)

lemma forEachInBlock_eq:
  "forEachInBlock f i tads = runAll (map (\<lambda>tx. f tx (IsCoinBase tx)) (map tadTransaction (filter tadIsAccepted tads)))"
  by (induction f i tads rule: forEachInBlock.induct) (simp_all add: IsAcceptedCoinbase_def)

lemma forEachAccepted_eq:
  "forEachAcceptedTransaction ad f = runAll (map (\<lambda>tx. f tx (IsCoinBase tx)) (acceptedTransactions ad))"
  by (induction ad f rule: forEachAcceptedTransaction.induct)
    (simp_all add: acceptedTransactions_def forEachInBlock_eq runAll_append)

lemma agree_transactions:
  assumes "multisetLaws w" and "agree w m0 past base A S d s" and "cleanTransactions b3 past base score A S txs"
  shows "\<exists>d' s' A'.
    runAll (map (\<lambda>tx. AddOutputsSpendingResolvedInputs b3 tx score) txs) d = (Inr (), d') \<and>
    runAll (map (\<lambda>tx. applyTransactionToMultiset w b3 tx score (IsCoinBase tx) False
      (Some (skipDuplicate (Some past) (Some (baseLookupOf base))))) txs) s = (Inr (), s') \<and>
    agree w m0 past base A' (fold (afterTransaction b3 score) txs S) d' s'"
  using assms(2,3)
proof (induction txs arbitrary: d s S A)
  case Nil
  then show ?case by (auto simp: ret_def)
next
  case (Cons tx txs)
  from Cons.prems(2) have clean: "cleanInputs past base A S (Inputs tx)"
    "cleanOutputs past base (txID_of b3 tx) (IsCoinBase tx) score A (spendResolved (Inputs tx) S) 0 (Outputs tx)"
    "cleanTransactions b3 past base score (createdOutpoints (txID_of b3 tx) 0 (Outputs tx) A) (afterTransaction b3 score tx S) txs"
    by simp_all
  from agree_inputs [OF assms(1) Cons.prems(1) clean(1), of "[]"] obtain undoLog d1 s1 where
    ins: "removeInputs True (Inputs tx) [] d = (Inr undoLog, d1)" "spendFromMultiset w (Inputs tx) s = (Inr (), s1)"
      "agree w m0 past base A (spendResolved (Inputs tx) S) d1 s1" by blast
  from agree_outputs [OF assms(1) ins(3) clean(2), of undoLog] obtain d2 s2 where
    outs: "addOutputs (txID_of b3 tx) (IsCoinBase tx) score 0 (Outputs tx) undoLog d1 = (Inr (), d2)"
      "createInMultiset w (txID_of b3 tx) score (IsCoinBase tx) (Some (skipDuplicate (Some past) (Some (baseLookupOf base)))) 0 (Outputs tx) s1
        = (Inr (), s2)"
      "agree w m0 past base (createdOutpoints (txID_of b3 tx) 0 (Outputs tx) A) (afterTransaction b3 score tx S) d2 s2"
    unfolding afterTransaction_def by blast
  have "AddOutputsSpendingResolvedInputs b3 tx score d = (Inr (), d2)"
    using ins(1) outs(1) by (simp add: AddOutputsSpendingResolvedInputs_def addTransaction_def bnd_def txID_of_def)
  moreover have "applyTransactionToMultiset w b3 tx score (IsCoinBase tx) False (Some (skipDuplicate (Some past) (Some (baseLookupOf base)))) s
      = (Inr (), s2)"
    using ins(2) outs(2) by (simp add: applyTransactionToMultiset_def directed_def andThen_def bnd_def txID_of_def Let_def)
  ultimately show ?case using Cons.IH [OF outs(3) clean(3)] by (simp add: andThen_def bnd_def)
qed

section \<open>Properties\<close>

text \<open>C6: The UTXO commitment is the commitment to the UTXO set. Start from a multiset that holds the coins of the selected parent's
  past, every one of them once, and apply clean acceptance data to the multiset and to the diff: both succeed, and the
  multiset holds the coins of the set that the diff now leads to, every one of them once. That set is the past
  without what the accepted transactions spend and with what they create.\<close>

theorem utxo_commitment_agrees:
  assumes "multisetLaws w" and "wfDiff past" "looseOn base past" and "multisetOf w m0 (applyDiff past base) m"
    and "cleanTransactions b3 past base score {} (applyDiff past base) (acceptedTransactions ad)"
  shows "\<exists>m' d'. ApplyAcceptanceDataToMultiset w b3 ad score (Some past) (Some (baseLookupOf base)) m = (Inr (), m') \<and>
    ApplyAcceptanceDataToDiff b3 ad score past = (Inr (), d') \<and> wfDiff d' \<and> looseOn base d' \<and>
    applyDiff d' base = fold (afterTransaction b3 score) (acceptedTransactions ad) (applyDiff past base) \<and>
    multisetOf w m0 (applyDiff d' base) m'"
proof -
  have "agree w m0 past base {} (applyDiff past base) past \<lparr>ms = m, addedHere = []\<rparr>" using assms(2-4) by (simp add: agree_def)
  from agree_transactions [OF assms(1) this assms(5)] obtain d' s' A' where
    "runAll (map (\<lambda>tx. AddOutputsSpendingResolvedInputs b3 tx score) (acceptedTransactions ad)) past = (Inr (), d')"
    "runAll (map (\<lambda>tx. applyTransactionToMultiset w b3 tx score (IsCoinBase tx) False
      (Some (skipDuplicate (Some past) (Some (baseLookupOf base))))) (acceptedTransactions ad)) \<lparr>ms = m, addedHere = []\<rparr> = (Inr (), s')"
    "agree w m0 past base A' (fold (afterTransaction b3 score) (acceptedTransactions ad) (applyDiff past base)) d' s'" by blast
  then show ?thesis
    by (simp add: ApplyAcceptanceDataToMultiset_def ApplyAcceptanceDataToDiff_def forEachAccepted_eq AcceptedUTXOBlockDAAScore_def agree_def)
qed

text \<open>C20: The commitment drifts from the set when a coin that the past holds restamped, removed with one DAA score and added with
  another, is accepted again with a DAA score other than the removed one: the multiset adds the new serialisation and keeps the old one, while the
  diff replaces the old entry by the new one.\<close>

theorem restamped_coin_counted_twice:
  assumes "slotOf past k = (Some pending, Some removed)" and "wfDiff past" and "sameCoin pending e"
    and "ueBlockDAAScore removed \<noteq> ueBlockDAAScore e"
    and "k = outputOutpoint (txID_of b3 tx) 0" and "Inputs tx = []" and "Outputs tx = [out]" and "e = outputEntry (IsCoinBase tx) score out"
    and "acceptedTransactions ad = [tx]"
  shows "ApplyAcceptanceDataToMultiset w b3 ad score (Some past) baseUTXO m = (Inr (), msAdd w (coinBytes e k) m) \<and>
    (\<exists>d'. ApplyAcceptanceDataToDiff b3 ad score past = (Inr (), d') \<and>
      applyDiff past base k = Some pending \<and> applyDiff d' base = (applyDiff past base)(k \<mapsto> e))"
proof
  have k: "\<lparr>TransactionID = fst (computeTransactionID b3 tx), outIndex = 0\<rparr> = k"
    and e: "NewUTXOEntry (outValue out) (outScriptPublicKey out) (IsCoinBase tx) score = e"
    by (simp_all add: assms(5,8) outputOutpoint_def outputEntry_def txID_of_def)
  from assms(1) have "Contains (toRemove past) k" by (simp add: Contains_def slotOf_def)
  then show "ApplyAcceptanceDataToMultiset w b3 ad score (Some past) baseUTXO m = (Inr (), msAdd w (coinBytes e k) m)"
    by (simp add: ApplyAcceptanceDataToMultiset_def forEachAccepted_eq assms(6,7,9) applyTransactionToMultiset_def directed_def
        Let_def k e AcceptedUTXOBlockDAAScore_def skipDuplicate_def resolveExisting_def addUTXO_eq bnd_def andThen_def ret_def gets_def
        modify_def liftR_def)
  obtain r d' where run: "addEntry k e past = (r, d')" by (cases "addEntry k e past")
  from addEntry_acts [OF assms(2), of k e] run assms(1,3,4) have "r = Inr ()" "slotOf d' = (slotOf past)(k := (Some e, Some removed))"
    by (simp_all add: actsOn_def)
  with run assms(1) show "\<exists>d'. ApplyAcceptanceDataToDiff b3 ad score past = (Inr (), d') \<and>
      applyDiff past base k = Some pending \<and> applyDiff d' base = (applyDiff past base)(k \<mapsto> e)"
    by (auto simp: ApplyAcceptanceDataToDiff_def forEachAccepted_eq assms(6,7,9) AddOutputsSpendingResolvedInputs_def addTransaction_def
        AcceptedUTXOBlockDAAScore_def Let_def k e bnd_def andThen_def ret_def gets_def orRollback_def applyDiff_def applySlot_def fun_eq_iff)
qed

section \<open>Witnesses\<close>

text \<open>A multiset that counts.\<close>

definition countingWriter :: "(bytes \<Rightarrow> int) MultisetWriter" where
  "countingWriter = \<lparr>msAdd = \<lambda>b m. m(b := m b + 1), msRemove = \<lambda>b m. m(b := m b - 1)\<rparr>"

lemma countingWriter_laws: "multisetLaws countingWriter"
  by (auto simp: multisetLaws_def countingWriter_def fun_eq_iff)

definition accepting :: "DomainTransaction \<Rightarrow> AcceptanceData" where
  "accepting tx = [\<lparr>badBlockHash = replicate 32 1, badTransactionAcceptanceData =
     [\<lparr>tadTransaction = tx, tadFee = 0, tadIsAccepted = True, tadInputUTXOEntries = []\<rparr>]\<rparr>]"

lemma accepting_one [simp]: "acceptedTransactions (accepting tx) = [tx]"
  by (simp add: acceptedTransactions_def accepting_def)

theorem utxo_commitment_agrees_witness:
  "\<exists>m' d'. ApplyAcceptanceDataToMultiset countingWriter noHash (accepting spendTx) 9 (Some newMutableUTXODiff) (Some (baseLookupOf exampleSet))
      ((\<lambda>_. 0)(coinBytes (exampleCoin 5) exampleOutpoint := 1)) = (Inr (), m') \<and>
    ApplyAcceptanceDataToDiff noHash (accepting spendTx) 9 newMutableUTXODiff = (Inr (), d') \<and>
    applyDiff d' exampleSet exampleOutpoint = None \<and> multisetOf countingWriter (\<lambda>_. 0) (applyDiff d' exampleSet) m'"
proof -
  have base: "applyDiff newMutableUTXODiff exampleSet = exampleSet" "looseOn exampleSet newMutableUTXODiff"
    by (simp_all add: applyDiff_def applySlot_def fun_eq_iff looseOn_def looseSlot_def normalSlot_def)
  have neq: "outputOutpoint (replicate 32 7) i \<noteq> exampleOutpoint" for i by (simp add: outputOutpoint_def exampleOutpoint_def)
  have tx: "Inputs spendTx = [(hd (Inputs exampleTx))\<lparr>PreviousOutpoint := exampleOutpoint, utxoEntry := Some (exampleCoin 5)\<rparr>]"
    "txID_of noHash spendTx = replicate 32 7" "Outputs spendTx = [hd (Outputs spendTx)]"
    by (simp_all add: spendTx_def txID_of_def computeTransactionID_def)
  have clean: "cleanTransactions noHash newMutableUTXODiff exampleSet 9 {} exampleSet [spendTx]"
    unfolding cleanTransactions.simps tx(1,2) by (subst tx(3), subst tx(3)) (simp add: base(1) addsOver_def cleanOutput_def neq)
  have start: "multisetOf countingWriter (\<lambda>_. 0) exampleSet ((\<lambda>_. 0)(coinBytes (exampleCoin 5) exampleOutpoint := 1))"
    unfolding multisetOf_def by (rule exI [of _ "[(exampleOutpoint, exampleCoin 5)]"]) (simp add: countingWriter_def)
  have "fold (afterTransaction noHash 9) [spendTx] exampleSet exampleOutpoint = None"
    unfolding fold.simps afterTransaction_def tx(1,2) by (subst tx(3)) (simp add: neq [symmetric])
  with utxo_commitment_agrees [OF countingWriter_laws new_diff(1) base(2), of "\<lambda>_. 0"
      "(\<lambda>_. 0)(coinBytes (exampleCoin 5) exampleOutpoint := 1)" noHash 9 "accepting spendTx"] start clean
  show ?thesis by (fastforce simp: base(1))
qed

text \<open>The past holds the coin restamped from score 5 to score 9; it is accepted again with score 11.\<close>

definition mintTx :: DomainTransaction where
  "mintTx = exampleTx\<lparr>Inputs := [], Outputs := [\<lparr>outValue = 7, outScriptPublicKey = \<lparr>Script = [0x51], spkVersion = 0\<rparr>\<rparr>],
     cachedID := Some (replicate 32 5)\<rparr>"

theorem restamped_coin_counted_twice_witness:
  "ApplyAcceptanceDataToMultiset countingWriter noHash (accepting mintTx) 11 (Some restampDiff) None (\<lambda>_. 0) =
     (Inr (), (\<lambda>_. 0)(coinBytes (exampleCoin 11) exampleOutpoint := 1))"
proof -
  have k: "exampleOutpoint = outputOutpoint (txID_of noHash mintTx) 0"
    by (simp add: exampleOutpoint_def outputOutpoint_def txID_of_def mintTx_def computeTransactionID_def)
  have "\<not> IsCoinBase mintTx" by code_simp
  then have e: "exampleCoin 11 = outputEntry (IsCoinBase mintTx) 11 (hd (Outputs mintTx))"
    by (simp add: exampleCoin_def outputEntry_def mintTx_def)
  have coin: "sameCoin (exampleCoin 9) (exampleCoin 11)" by (simp add: sameCoin_def exampleCoin_def NewUTXOEntry_def)
  have tx: "Inputs mintTx = []" "Outputs mintTx = [hd (Outputs mintTx)]" by (simp_all add: mintTx_def)
  have slot: "slotOf restampDiff exampleOutpoint = (Some (exampleCoin 9), Some (exampleCoin 5))" by (simp add: example_slots)
  have "ueBlockDAAScore (exampleCoin 5) \<noteq> ueBlockDAAScore (exampleCoin 11)" by simp
  from restamped_coin_counted_twice [OF slot example_diffs(3) coin this k tx e accepting_one, of countingWriter None "\<lambda>_. 0"]
  show ?thesis by (simp add: countingWriter_def)
qed

end
