(* ===== verification/Merkle.thy ===== *)
theory Merkle
  imports Tx_Hash
begin

text \<open>
  Merkle roots of a block's transactions: \<^verbatim>\<open>src/domain/consensus/utils/merkle/merkle.go\<close>. The tree is an array that is padded
  with nil to a power of two and filled from the leaves up; indexing outside the array panics.

  \<open>math.Log2\<close> is modelled by the exact logarithm rounded down. The two agree on the numbers of transactions a block can
  have: below \<open>2 ^ 47\<close> the floating point logarithm of a number that is no power of two is not rounded up to the next
  integer.
\<close>

section \<open>The code\<close>

fun log2Floor :: "nat \<Rightarrow> nat" where
  "log2Floor n = (if n < 2 then 0 else Suc (log2Floor (n div 2)))"

declare log2Floor.simps [simp del]

definition nextPowerOfTwo :: "nat \<Rightarrow> nat" where
  "nextPowerOfTwo n = (if and n (n - 1) = 0 then n else 2 ^ (log2Floor n + 1))"

definition NewMerkleBranchHashWriter :: HashWriter where
  "NewMerkleBranchHashWriter = Blake3Writer (fixedSizeKey ''MerkleBranchHash'') []"

definition hashMerkleBranches :: "blake3 \<Rightarrow> DomainHash \<Rightarrow> DomainHash \<Rightarrow> DomainHash" where
  "hashMerkleBranches blake3 left right =
     Finalize blake3 (InfallibleWrite (InfallibleWrite NewMerkleBranchHashWriter left) right)"

definition zeroHash :: DomainHash where
  "zeroHash = replicate DomainHashSize 0"

text \<open>A pointer to a hash is None when it is nil.\<close>

definition branch :: "blake3 \<Rightarrow> DomainHash option \<Rightarrow> DomainHash option \<Rightarrow> DomainHash option" where
  "branch blake3 left right =
     (case left of
        None \<Rightarrow> None
      | Some l \<Rightarrow> (case right of
          None \<Rightarrow> Some (hashMerkleBranches blake3 l zeroHash)
        | Some r \<Rightarrow> Some (hashMerkleBranches blake3 l r)))"

function merkleLoop :: "blake3 \<Rightarrow> nat \<Rightarrow> nat \<Rightarrow> DomainHash option list \<Rightarrow> (goError, DomainHash option list) result" where
  "merkleLoop blake3 i offset merkles =
     (if i < length merkles - 1 then
        (if i + 1 < length merkles \<and> offset < length merkles
         then merkleLoop blake3 (i + 2) (offset + 1) (merkles[offset := branch blake3 (merkles ! i) (merkles ! (i + 1))])
         else Inl GoPanic)
      else Inr merkles)"
  by pat_completeness auto
termination
  by (relation "measure (\<lambda>(_, i, _, merkles). length merkles - i)") auto

declare merkleLoop.simps [simp del]

definition merkleRoot :: "blake3 \<Rightarrow> DomainHash list \<Rightarrow> (goError, DomainHash option) result" where
  "merkleRoot blake3 hashes =
     (if hashes = [] then Inr (Some zeroHash)
      else
        let nextPoT = nextPowerOfTwo (length hashes);
            arraySize = nextPoT * 2 - 1;
            merkles = take arraySize (map Some hashes @ replicate arraySize None)
        in case merkleLoop blake3 0 nextPoT merkles of
             Inl e \<Rightarrow> Inl e
           | Inr done \<Rightarrow> if done = [] then Inl GoPanic else Inr (last done))"

definition CalculateHashMerkleRoot :: "blake3 \<Rightarrow> DomainTransaction list \<Rightarrow> (goError, DomainHash option) result" where
  "CalculateHashMerkleRoot blake3 transactions = merkleRoot blake3 (map (TransactionHash blake3) transactions)"

definition CalculateIDMerkleRoot :: "blake3 \<Rightarrow> DomainTransaction list \<Rightarrow> (goError, DomainHash option) result" where
  "CalculateIDMerkleRoot blake3 transactions =
     (if transactions = [] then Inr (Some zeroHash) else merkleRoot blake3 (TransactionIDs blake3 transactions))"

section \<open>Powers of two\<close>

lemma log2Floor_bounds: "0 < n \<Longrightarrow> 2 ^ log2Floor n \<le> n \<and> n < 2 ^ (log2Floor n + 1)"
proof (induction n rule: log2Floor.induct)
  case (1 n)
  show ?case
  proof (cases "n < 2")
    case True
    with 1(2) have "n = 1" by simp
    then show ?thesis by (simp add: log2Floor.simps)
  next
    case False
    with 1 have "2 ^ log2Floor (n div 2) \<le> n div 2" "n div 2 < 2 ^ (log2Floor (n div 2) + 1)" by simp_all
    then have "2 * 2 ^ log2Floor (n div 2) \<le> n" "n < 2 * 2 ^ (log2Floor (n div 2) + 1)" by linarith+
    with False show ?thesis by (simp add: log2Floor.simps [of n])
  qed
qed

text \<open>A number shares no bit with its predecessor exactly when it is a power of two.\<close>

lemma and_pred_zero:
  assumes "0 < n" and "and n (n - 1) = 0"
  shows "n = 2 ^ log2Floor n"
proof (rule ccontr)
  let ?k = "log2Floor n"
  assume "n \<noteq> 2 ^ ?k"
  with log2Floor_bounds [OF assms(1)] have k: "2 ^ ?k \<le> n - 1" "n - 1 < 2 ^ (?k + 1)" "2 ^ ?k \<le> n" "n < 2 ^ (?k + 1)" by auto
  have top: "bit m ?k" if "2 ^ ?k \<le> m" "m < 2 ^ (?k + 1)" for m :: nat
  proof -
    have "m div 2 ^ ?k = 1" using that by (intro div_nat_eqI) simp_all
    then show ?thesis by (simp add: bit_iff_odd)
  qed
  from top [OF k(3,4)] top [OF k(1,2)] have "bit (and n (n - 1)) ?k" by (simp add: bit_and_iff)
  with assms(2) show False by simp
qed

lemma nextPowerOfTwo_power:
  assumes "0 < n"
  shows "\<exists>d. nextPowerOfTwo n = 2 ^ d \<and> n \<le> 2 ^ d \<and> 2 ^ d < 2 * n"
proof (cases "and n (n - 1) = 0")
  case True
  from and_pred_zero [OF assms True] assms True show ?thesis by (auto simp: nextPowerOfTwo_def intro!: exI [of _ "log2Floor n"])
next
  case False
  have "2 ^ log2Floor n \<noteq> n"
  proof
    assume n: "2 ^ log2Floor n = n"
    have "and (2 ^ k) (mask k) = (0 :: nat)" for k by (rule bit_eqI) (auto simp: bit_simps)
    with False n show False by (metis mask_eq_exp_minus_1)
  qed
  with log2Floor_bounds [OF assms] False show ?thesis by (auto simp: nextPowerOfTwo_def intro!: exI [of _ "log2Floor n + 1"])
qed

section \<open>The array is a queue\<close>

fun queueRoot :: "blake3 \<Rightarrow> DomainHash option list \<Rightarrow> DomainHash option" where
  "queueRoot b3 (l # r # q) = queueRoot b3 (q @ [branch b3 l r])"
| "queueRoot b3 [x] = x"
| "queueRoot b3 [] = None"

text \<open>At every step the array consists of what is used up, the queue of nodes whose parents are missing, and the room for those.\<close>

lemma merkleLoop_queue:
  assumes "q \<noteq> []"
  shows "\<exists>pre. merkleLoop b3 (length used) (length used + length q) (used @ q @ replicate (length q - 1) None) = Inr (pre @ [queueRoot b3 q])"
  using assms
proof (induction b3 q arbitrary: used rule: queueRoot.induct)
  case (1 b3 l r q)
  let ?arr = "used @ (l # r # q) @ replicate (Suc (length q)) None"
  have arr: "?arr = (used @ [l, r] @ q) @ None # replicate (length q) None" by simp
  have "?arr[length used + Suc (Suc (length q)) := branch b3 l r] = (used @ [l, r]) @ (q @ [branch b3 l r]) @ replicate (length q) None"
    unfolding arr by (subst list_update_append) simp
  moreover have "?arr ! length used = l" "?arr ! (length used + 1) = r" by (simp_all add: nth_append)
  ultimately have "merkleLoop b3 (length used) (length used + length (l # r # q)) ?arr
      = merkleLoop b3 (length (used @ [l, r])) (length (used @ [l, r]) + length (q @ [branch b3 l r]))
          ((used @ [l, r]) @ (q @ [branch b3 l r]) @ replicate (length (q @ [branch b3 l r]) - 1) None)"
    by (subst merkleLoop.simps) simp
  with "1.IH" [of "used @ [l, r]"] show ?case by simp
next
  case (2 b3 x)
  then show ?case by (subst merkleLoop.simps) simp
qed simp

fun levelUp :: "blake3 \<Rightarrow> DomainHash option list \<Rightarrow> DomainHash option list" where
  "levelUp b3 (l # r # q) = branch b3 l r # levelUp b3 q"
| "levelUp b3 q = []"

lemma queueRoot_level: "even (length q) \<Longrightarrow> queueRoot b3 (q @ up) = queueRoot b3 (up @ levelUp b3 q)"
  by (induction b3 q arbitrary: up rule: levelUp.induct) simp_all

section \<open>The tree\<close>

text \<open>One level of the tree without padding: neighbours are hashed together, the last one alone with the zero hash.\<close>

fun pairUp :: "blake3 \<Rightarrow> DomainHash list \<Rightarrow> DomainHash list" where
  "pairUp b3 [] = []"
| "pairUp b3 [h] = [hashMerkleBranches b3 h zeroHash]"
| "pairUp b3 (l # r # hs) = hashMerkleBranches b3 l r # pairUp b3 hs"

lemma length_pairUp [simp]: "length (pairUp b3 hs) = (length hs + 1) div 2"
  by (induction b3 hs rule: pairUp.induct) simp_all

function treeRoot :: "blake3 \<Rightarrow> DomainHash list \<Rightarrow> DomainHash" where
  "treeRoot b3 [] = zeroHash"
| "treeRoot b3 [h] = h"
| "treeRoot b3 (l # r # hs) = treeRoot b3 (pairUp b3 (l # r # hs))"
  by pat_completeness auto
termination
  by (relation "measure (\<lambda>(_, hs). length hs)") simp_all

lemma levelUp_None: "levelUp b3 (replicate n None) = replicate (n div 2) None"
  by (induction n rule: nat_induct2) (simp_all add: branch_def)

lemma levelUp_pairUp:
  "even (length hs + n) \<Longrightarrow> levelUp b3 (map Some hs @ replicate n None) = map Some (pairUp b3 hs) @ replicate (n div 2) None"
proof (induction b3 hs rule: pairUp.induct)
  case (1 b3)
  then show ?case by (simp add: levelUp_None)
next
  case (2 b3 h)
  then obtain k where "n = Suc (2 * k)" by (auto elim!: oddE)
  then show ?case by (simp add: levelUp_None branch_def)
next
  case (3 b3 l r hs)
  then show ?case by (simp add: branch_def)
qed

lemma queueRoot_tree:
  "hs \<noteq> [] \<Longrightarrow> length hs \<le> 2 ^ d \<Longrightarrow> 2 ^ d < 2 * length hs \<Longrightarrow>
    queueRoot b3 (map Some hs @ replicate (2 ^ d - length hs) None) = Some (treeRoot b3 hs)"
proof (induction d arbitrary: hs)
  case 0
  then show ?case by (cases hs) simp_all
next
  case (Suc d)
  let ?q = "map Some hs @ replicate (2 ^ Suc d - length hs) None"
  from Suc.prems have two: "2 \<le> length hs" by (cases d) auto
  then obtain l r hs' where hs: "hs = l # r # hs'" by (metis One_nat_def Suc_1 Suc_le_length_iff)
  have pad: "(2 ^ Suc d - length hs) div 2 = 2 ^ d - (length hs + 1) div 2" by simp
  have "queueRoot b3 ?q = queueRoot b3 (levelUp b3 ?q)" using queueRoot_level [of ?q b3 "[]"] Suc.prems(2) by simp
  also have "levelUp b3 ?q = map Some (pairUp b3 hs) @ replicate (2 ^ d - length (pairUp b3 hs)) None"
    using levelUp_pairUp [of hs "2 ^ Suc d - length hs" b3] Suc.prems(2) pad by simp
  also have "queueRoot b3 \<dots> = Some (treeRoot b3 (pairUp b3 hs))"
    using Suc.prems two by (intro Suc.IH) (auto simp: hs)
  finally show ?case by (simp add: hs)
qed

section \<open>The root determines the leaves\<close>

fun levelMessages :: "DomainHash list \<Rightarrow> bytes set" where
  "levelMessages [] = {}"
| "levelMessages [h] = {h @ zeroHash}"
| "levelMessages (l # r # hs) = insert (l @ r) (levelMessages hs)"

text \<open>What is hashed to compute the root.\<close>

function treeMessages :: "blake3 \<Rightarrow> DomainHash list \<Rightarrow> bytes set" where
  "treeMessages b3 [] = {}"
| "treeMessages b3 [h] = {}"
| "treeMessages b3 (l # r # hs) = levelMessages (l # r # hs) \<union> treeMessages b3 (pairUp b3 (l # r # hs))"
  by pat_completeness auto
termination
  by (relation "measure (\<lambda>(_, hs). length hs)") simp_all

text \<open>Hashes have 32 bytes, and none is the zero hash, which stands for a missing node.\<close>

definition goodHash :: "DomainHash \<Rightarrow> bool" where
  "goodHash h \<longleftrightarrow> length h = DomainHashSize \<and> h \<noteq> zeroHash"

definition goodMessages :: "blake3 \<Rightarrow> bytes set \<Rightarrow> bytes set \<Rightarrow> bool" where
  "goodMessages b3 M M' \<longleftrightarrow>
     (\<forall>m \<in> M \<union> M'. goodHash (b3 (fixedSizeKey ''MerkleBranchHash'') m)) \<and>
     (\<forall>m \<in> M. \<forall>m' \<in> M'. noCollision b3 ''MerkleBranchHash'' m m')"

lemma hashMerkleBranches_eq: "hashMerkleBranches b3 l r = b3 (fixedSizeKey ''MerkleBranchHash'') (l @ r)"
  by (simp add: hashMerkleBranches_def NewMerkleBranchHashWriter_def)

lemma zeroHash_length [simp]: "length zeroHash = DomainHashSize"
  by (simp add: zeroHash_def)

lemma branch_inj:
  assumes "noCollision b3 ''MerkleBranchHash'' (l @ r) (l' @ r')" and "length l = length l'"
    and "hashMerkleBranches b3 l r = hashMerkleBranches b3 l' r'"
  shows "l = l' \<and> r = r'"
  using assms by (simp add: noCollision_def hashMerkleBranches_eq)

lemma level_inj:
  assumes "goodMessages b3 M M'" and "l @ r \<in> M" "l' @ r' \<in> M'" and "goodHash l" "goodHash l'"
    and "hashMerkleBranches b3 l r = hashMerkleBranches b3 l' r'"
  shows "l = l' \<and> r = r'"
  using assms by (intro branch_inj [of b3]) (simp_all add: goodMessages_def goodHash_def)

lemma not_good_zero [simp]: "\<not> goodHash zeroHash"
  by (simp add: goodHash_def)

lemma pairUp_inj:
  assumes "pairUp b3 hs = pairUp b3 hs'" and "list_all goodHash hs" "list_all goodHash hs'"
    and "goodMessages b3 (levelMessages hs) (levelMessages hs')"
  shows "hs = hs'"
  using assms
proof (induction b3 hs arbitrary: hs' rule: pairUp.induct)
  case (1 b3)
  then show ?case by (cases hs' rule: levelMessages.cases) simp_all
next
  case (2 b3 h)
  note inj = level_inj [OF "2.prems"(4), of h zeroHash]
  show ?case
  proof (cases hs' rule: levelMessages.cases)
    case 1
    with "2.prems"(1) show ?thesis by simp
  next
    case (2 h')
    with inj [of h' zeroHash] "2.prems" show ?thesis by simp
  next
    case (3 l' r' hs'')
    with inj [of l' r'] "2.prems" show ?thesis by auto
  qed
next
  case (3 b3 l r hs)
  note inj = level_inj [OF "3.prems"(4), of l r]
  show ?case
  proof (cases hs' rule: levelMessages.cases)
    case 1
    with "3.prems"(1) show ?thesis by simp
  next
    case (2 h')
    with inj [of h' zeroHash] "3.prems" show ?thesis by auto
  next
    case c: (3 l' r' hs'')
    have "goodMessages b3 (levelMessages hs) (levelMessages hs'')" using "3.prems"(4) by (simp add: c goodMessages_def)
    with "3.prems" have "hs = hs''" by (intro "3.IH") (simp_all add: c)
    with inj [of l' r'] "3.prems"(1-3) show ?thesis by (simp add: c)
  qed
qed

lemma goodMessages_pairUp: "goodMessages b3 (levelMessages hs) M \<Longrightarrow> list_all goodHash (pairUp b3 hs)"
  "goodMessages b3 M (levelMessages hs) \<Longrightarrow> list_all goodHash (pairUp b3 hs)"
  by (induction b3 hs rule: pairUp.induct) (auto simp: goodMessages_def hashMerkleBranches_eq)

lemma treeMessages_two:
  assumes "2 \<le> length hs"
  shows "treeMessages b3 hs = levelMessages hs \<union> treeMessages b3 (pairUp b3 hs)" and "treeRoot b3 hs = treeRoot b3 (pairUp b3 hs)"
  using assms by (cases hs rule: levelMessages.cases; simp)+

lemma treeRoot_inj:
  assumes "hs \<noteq> []" "hs' \<noteq> []" and "length hs \<le> 2 ^ d" "2 ^ d < 2 * length hs" "length hs' \<le> 2 ^ d" "2 ^ d < 2 * length hs'"
    and "list_all goodHash hs" "list_all goodHash hs'" and "goodMessages b3 (treeMessages b3 hs) (treeMessages b3 hs')"
    and "treeRoot b3 hs = treeRoot b3 hs'"
  shows "hs = hs'"
  using assms
proof (induction d arbitrary: hs hs')
  case 0
  then obtain h h' where "hs = [h]" "hs' = [h']" by (cases hs; cases hs') auto
  with "0.prems"(10) show ?case by simp
next
  case (Suc d)
  have "(1 :: nat) \<le> 2 ^ d" by simp
  with Suc.prems(4,6) have two: "2 \<le> length hs" "2 \<le> length hs'" unfolding power_Suc by linarith+
  note tree = treeMessages_two [OF two(1), of b3] treeMessages_two [OF two(2), of b3]
  have level: "goodMessages b3 (levelMessages hs) (levelMessages hs')"
    and up: "goodMessages b3 (treeMessages b3 (pairUp b3 hs)) (treeMessages b3 (pairUp b3 hs'))"
    using Suc.prems(9) unfolding tree by (auto simp: goodMessages_def)
  have "0 < length (pairUp b3 hs)" "0 < length (pairUp b3 hs')" using two by simp_all
  then have "pairUp b3 hs \<noteq> []" "pairUp b3 hs' \<noteq> []" unfolding length_greater_0_conv .
  moreover have "length (pairUp b3 hs) \<le> 2 ^ d" "2 ^ d < 2 * length (pairUp b3 hs)"
    "length (pairUp b3 hs') \<le> 2 ^ d" "2 ^ d < 2 * length (pairUp b3 hs')" using Suc.prems(3-6) unfolding length_pairUp power_Suc by linarith+
  moreover note goodMessages_pairUp(1) [OF level] goodMessages_pairUp(2) [OF level] up
  moreover have "treeRoot b3 (pairUp b3 hs) = treeRoot b3 (pairUp b3 hs')" using Suc.prems(10) tree by simp
  ultimately have "pairUp b3 hs = pairUp b3 hs'" by (rule Suc.IH)
  from pairUp_inj [OF this Suc.prems(7,8) level] show ?case .
qed

lemma merkleRoot_tree:
  assumes "hs \<noteq> []"
  shows "merkleRoot b3 hs = Inr (Some (treeRoot b3 hs))"
proof -
  from assms have "0 < length hs" by simp
  from nextPowerOfTwo_power [OF this] obtain d where
    d: "nextPowerOfTwo (length hs) = 2 ^ d" "length hs \<le> 2 ^ d" "2 ^ d < 2 * length hs" by blast
  let ?q = "map Some hs @ replicate (2 ^ d - length hs) None"
  have q: "length ?q = 2 ^ d" "?q \<noteq> []" using d(2) assms by auto
  have "take (2 ^ d * 2 - 1) (map Some hs @ replicate (2 ^ d * 2 - 1) None) = ?q @ replicate (length ?q - 1) None"
  proof -
    have "2 ^ d * 2 - 1 - length hs = (2 ^ d - length hs) + (2 ^ d - 1)" using d(2) by simp
    moreover have "take n (map Some hs @ replicate n None) = map Some hs @ replicate (n - length hs) None" if "length hs \<le> n" for n
      using that by simp
    moreover have "(1 :: nat) \<le> 2 ^ d" by simp
    with d(2) have "length hs \<le> 2 ^ d * 2 - 1" by linarith
    ultimately show ?thesis unfolding q(1) by (simp only: replicate_add append_assoc)
  qed
  with merkleLoop_queue [OF q(2), of b3 "[]"] queueRoot_tree [OF assms d(2,3)] q(1) d(1) assms
  show ?thesis by (auto simp: merkleRoot_def Let_def)
qed

section \<open>Properties\<close>

text \<open>C18: The merkle root computed in the padded array is the root of the tree: it is what remains when neighbouring hashes are hashed
  together, and a last one without a neighbour is hashed with the zero hash, until one hash is left. The array is
  never indexed out of its bounds and the root is never nil.\<close>

theorem merkle_root_is_tree_root:
  "merkleRoot b3 hs = Inr (Some (treeRoot b3 hs))"
  by (cases "hs = []") (simp add: merkleRoot_def, rule merkleRoot_tree)

text \<open>C17: The merkle root of a block determines its transactions: two lists of transactions whose trees have the same height have
  the same root exactly when their transaction hashes are the same, in order, unless two of the hashed messages
  collide or a hash is the zero hash.\<close>

theorem merkle_root_commits:
  assumes "txs \<noteq> []" "txs' \<noteq> []" and "nextPowerOfTwo (length txs) = nextPowerOfTwo (length txs')"
    and "list_all goodHash (map (TransactionHash b3) txs)" "list_all goodHash (map (TransactionHash b3) txs')"
    and "goodMessages b3 (treeMessages b3 (map (TransactionHash b3) txs)) (treeMessages b3 (map (TransactionHash b3) txs'))"
  shows "CalculateHashMerkleRoot b3 txs = CalculateHashMerkleRoot b3 txs' \<longleftrightarrow>
    map (TransactionHash b3) txs = map (TransactionHash b3) txs'"
proof
  let ?hs = "map (TransactionHash b3) txs" and ?hs' = "map (TransactionHash b3) txs'"
  have "0 < length txs" "0 < length txs'" using assms(1,2) by simp_all
  from this [THEN nextPowerOfTwo_power] assms(3) obtain d where
    "length txs \<le> 2 ^ d" "2 ^ d < 2 * length txs" "length txs' \<le> 2 ^ d" "2 ^ d < 2 * length txs'" by metis
  moreover assume "CalculateHashMerkleRoot b3 txs = CalculateHashMerkleRoot b3 txs'"
  then have "treeRoot b3 ?hs = treeRoot b3 ?hs'"
    using merkleRoot_tree [of ?hs b3] merkleRoot_tree [of ?hs' b3] assms(1,2) by (simp add: CalculateHashMerkleRoot_def)
  ultimately show "?hs = ?hs'" using assms(1,2,4-6) by (intro treeRoot_inj [of ?hs ?hs' d b3]) simp_all
qed (simp add: CalculateHashMerkleRoot_def)

text \<open>A hash that tells apart the messages at hand: the length of a transaction, and the end of the left half of a branch.\<close>

definition shortHash :: blake3 where
  "shortHash key m = (if length m = 64 then replicate 31 2 @ [m ! 31] else replicate 31 3 @ [word_of_nat (length m)])"

theorem merkle_root_commits_witness:
  "CalculateHashMerkleRoot shortHash [exampleTx, resignedTx] \<noteq> CalculateHashMerkleRoot shortHash [resignedTx, exampleTx]"
proof -
  let ?h = "replicate 31 3 @ [116] :: DomainHash" and ?h' = "replicate 31 3 @ [117] :: DomainHash"
  have tx: "TransactionHash shortHash exampleTx = ?h" "TransactionHash shortHash resignedTx = ?h'" by code_simp+
  have good: "goodHash ?h" "goodHash ?h'" by code_simp+
  have branches: "goodHash (shortHash key (?h @ ?h'))" "goodHash (shortHash key (?h' @ ?h))"
    "shortHash key (?h @ ?h') \<noteq> shortHash key (?h' @ ?h)" for key
    by (simp_all add: shortHash_def goodHash_def zeroHash_def DomainHashSize_def nth_append numeral_eq_Suc)
  have "treeMessages shortHash [?h, ?h'] = {?h @ ?h'}" "treeMessages shortHash [?h', ?h] = {?h' @ ?h}" by simp_all
  then have "goodMessages shortHash (treeMessages shortHash [?h, ?h']) (treeMessages shortHash [?h', ?h])"
    using branches by (simp add: goodMessages_def noCollision_def)
  with merkle_root_commits [of "[exampleTx, resignedTx]" "[resignedTx, exampleTx]" shortHash] good show ?thesis by (simp add: tx)
qed

end
