(* ===== verification/Spec2Isabelle.thy ===== *)
theory Spec2Isabelle
  imports Sha256_Digest Script_P2SH Script_MultiSig Utxo_Accept Merkle
begin

text \<open>
  A verification library for the HTND node: the transaction script engine
  (\<^verbatim>\<open>src/domain/consensus/utils/txscript\<close>) and the parts of the consensus layer it uses.
\<close>

end
